(* ===== verification/Puls_Prelude.thy ===== *)
theory Puls_Prelude
  imports
    Complex_Main
    "HOL-Library.AList"
    "HOL-Library.Char_ord"
    "HOL-Library.List_Lexorder"
    "HOL-Library.Product_Lexorder"
    "HOL-Library.Sublist"
begin

text \<open>
  Shared vocabulary of the development: the theorem collections, Go's error values and
  results (a returned error and a panic are values of \<open>res\<close>), Go maps as association
  lists with distinct keys, instants and durations as nanosecond counts, and the functions
  of Go's package \<^verbatim>\<open>strings\<close> that the sources call, on byte strings.
\<close>

section \<open>Theorem collections\<close>

named_theorems go_defs \<open>definitions of operations, for unfolding a handler or a step\<close>
named_theorems inv_intros \<open>preservation of the invariants of a component\<close>

section \<open>Errors and results\<close>

text \<open>
  A Go error value: the sentinel errors the sources compare with \<^verbatim>\<open>errors.Is\<close>, an error
  made from a text, and \<^verbatim>\<open>fmt.Errorf("...: %w", err)\<close>, which wraps another error.
\<close>

datatype goerr =
    ErrNotFound
  | ErrInvalidCursor
  | ErrNoRows
  | ErrUnauthorized
  | ErrText string
  | Wrap string goerr

fun errors_is :: "goerr \<Rightarrow> goerr \<Rightarrow> bool" where
  "errors_is (Wrap m e) t \<longleftrightarrow> Wrap m e = t \<or> errors_is e t"
| "errors_is e t \<longleftrightarrow> e = t"

lemma errors_is_refl [simp]: "errors_is e e"
  by (cases e) auto

datatype 'a res = Ok 'a | Err goerr | Panic string

fun is_ok :: "'a res \<Rightarrow> bool" where
  "is_ok (Ok _) \<longleftrightarrow> True"
| "is_ok _ \<longleftrightarrow> False"

lemma is_ok_iff: "is_ok r \<longleftrightarrow> (\<exists>v. r = Ok v)"
  by (cases r) auto

section \<open>Go maps\<close>

text \<open>
  A Go map is an association list with distinct keys: lookup is \<^const>\<open>map_of\<close>, assignment
  \<^const>\<open>AList.update\<close>, \<^verbatim>\<open>delete\<close> is \<^const>\<open>AList.delete\<close>, \<^verbatim>\<open>len\<close> is \<^const>\<open>length\<close>.
\<close>

type_synonym ('k, 'v) gomap = "('k \<times> 'v) list"

definition gomap_ok :: "('k, 'v) gomap \<Rightarrow> bool" where
  "gomap_ok m \<longleftrightarrow> distinct (map fst m)"

lemma gomap_ok_Nil [simp]: "gomap_ok []"
  by (simp add: gomap_ok_def)

lemma gomap_ok_update [simp, intro]: "gomap_ok m \<Longrightarrow> gomap_ok (AList.update k v m)"
  by (simp add: gomap_ok_def distinct_update)

lemma gomap_ok_delete [simp, intro]: "gomap_ok m \<Longrightarrow> gomap_ok (AList.delete k m)"
  by (simp add: gomap_ok_def distinct_delete)

lemma gomap_ok_filter [simp, intro]: "gomap_ok m \<Longrightarrow> gomap_ok (filter P m)"
  by (simp add: gomap_ok_def distinct_map_filter)

lemma map_of_filter_distinct:
  "gomap_ok m \<Longrightarrow>
     map_of (filter P m) k = (case map_of m k of None \<Rightarrow> None | Some v \<Rightarrow> if P (k, v) then Some v else None)"
proof (induction m)
  case Nil
  then show ?case by simp
next
  case (Cons a m)
  obtain k' v' where a: "a = (k', v')" by (cases a)
  from Cons.prems a have ok: "gomap_ok m" and fresh: "map_of m k' = None"
    by (auto simp: gomap_ok_def map_of_eq_None_iff)
  show ?case
    using Cons.IH [OF ok] fresh a by (auto split: option.splits)
qed

lemma map_of_update [simp]: "map_of (AList.update k v m) = (map_of m)(k \<mapsto> v)"
  by (rule update_conv')

lemma map_of_delete [simp]: "map_of (AList.delete k m) = (map_of m)(k := None)"
  by (rule delete_conv')

lemma set_of_map_of: "gomap_ok m \<Longrightarrow> (k, v) \<in> set m \<longleftrightarrow> map_of m k = Some v"
  by (simp add: gomap_ok_def)

section \<open>Time\<close>

text \<open>
  A \<^verbatim>\<open>time.Time\<close> is the instant it denotes, in nanoseconds since the Unix epoch; a
  \<^verbatim>\<open>time.Duration\<close> is a count of nanoseconds.
\<close>

type_synonym time = int
type_synonym duration = int

definition second :: duration where
  "second = 1000000000"

definition minute :: duration where
  "minute = 60 * second"

definition hour :: duration where
  "hour = 60 * minute"

lemmas duration_defs = second_def minute_def hour_def

text \<open>\<^verbatim>\<open>Duration.Seconds()\<close>, without the rounding of a float64.\<close>

definition seconds_of :: "duration \<Rightarrow> rat" where
  "seconds_of d = of_int d / 1000000000"

lemma seconds_of_mono: "a \<le> b \<Longrightarrow> seconds_of a \<le> seconds_of b"
  by (simp add: seconds_of_def divide_right_mono)

lemma seconds_of_nonneg: "0 \<le> d \<Longrightarrow> 0 \<le> seconds_of d"
  by (simp add: seconds_of_def)

lemma seconds_of_add: "seconds_of (a + b) = seconds_of a + seconds_of b"
  by (simp add: seconds_of_def add_divide_distrib)

lemma seconds_of_diff: "seconds_of (a - b) = seconds_of a - seconds_of b"
  by (simp add: seconds_of_def diff_divide_distrib)

section \<open>Package strings\<close>

definition HasPrefix :: "string \<Rightarrow> string \<Rightarrow> bool" where
  "HasPrefix s p \<longleftrightarrow> take (length p) s = p"

definition TrimPrefix :: "string \<Rightarrow> string \<Rightarrow> string" where
  "TrimPrefix s p = (if HasPrefix s p then drop (length p) s else s)"

definition TrimSuffix :: "string \<Rightarrow> string \<Rightarrow> string" where
  "TrimSuffix s p = rev (TrimPrefix (rev s) (rev p))"

lemma HasPrefix_append [simp]: "HasPrefix (p @ s) p"
  by (simp add: HasPrefix_def)

lemma TrimPrefix_append [simp]: "TrimPrefix (p @ s) p = s"
  by (simp add: TrimPrefix_def)

lemma HasPrefix_iff: "HasPrefix s p \<longleftrightarrow> (\<exists>r. s = p @ r)"
  by (metis HasPrefix_append HasPrefix_def append_take_drop_id)

text \<open>
  \<^verbatim>\<open>strings.TrimSpace\<close> cuts white space as Unicode defines it from both ends. The
  byte sequences below are the UTF-8 encodings of those code points.
\<close>

definition space_runes :: "string list" where
  "space_runes =
     [[CHR 0x09], [CHR 0x0A], [CHR 0x0B], [CHR 0x0C], [CHR 0x0D], [CHR 0x20],
      [CHR 0xC2, CHR 0x85], [CHR 0xC2, CHR 0xA0], [CHR 0xE1, CHR 0x9A, CHR 0x80],
      [CHR 0xE2, CHR 0x80, CHR 0x80], [CHR 0xE2, CHR 0x80, CHR 0x81], [CHR 0xE2, CHR 0x80, CHR 0x82],
      [CHR 0xE2, CHR 0x80, CHR 0x83], [CHR 0xE2, CHR 0x80, CHR 0x84], [CHR 0xE2, CHR 0x80, CHR 0x85],
      [CHR 0xE2, CHR 0x80, CHR 0x86], [CHR 0xE2, CHR 0x80, CHR 0x87], [CHR 0xE2, CHR 0x80, CHR 0x88],
      [CHR 0xE2, CHR 0x80, CHR 0x89], [CHR 0xE2, CHR 0x80, CHR 0x8A], [CHR 0xE2, CHR 0x80, CHR 0xA8],
      [CHR 0xE2, CHR 0x80, CHR 0xA9], [CHR 0xE2, CHR 0x80, CHR 0xAF], [CHR 0xE2, CHR 0x81, CHR 0x9F],
      [CHR 0xE3, CHR 0x80, CHR 0x80]]"

fun trim_left_fuel :: "string list \<Rightarrow> nat \<Rightarrow> string \<Rightarrow> string" where
  "trim_left_fuel rs 0 s = s"
| "trim_left_fuel rs (Suc n) s =
     (case find (HasPrefix s) rs of None \<Rightarrow> s | Some r \<Rightarrow> trim_left_fuel rs n (drop (length r) s))"

definition trim_left :: "string list \<Rightarrow> string \<Rightarrow> string" where
  "trim_left rs s = trim_left_fuel rs (length s) s"

definition TrimSpace :: "string \<Rightarrow> string" where
  "TrimSpace s = rev (trim_left (map rev space_runes) (rev (trim_left space_runes s)))"

lemma trim_left_fuel_suffix: "\<exists>p. s = p @ trim_left_fuel rs n s"
proof (induction n arbitrary: s)
  case 0
  then show ?case by simp
next
  case (Suc n)
  show ?case
  proof (cases "find (HasPrefix s) rs")
    case None
    then show ?thesis by simp
  next
    case (Some r)
    from Suc.IH obtain p where p: "drop (length r) s = p @ trim_left_fuel rs n (drop (length r) s)"
      by blast
    have "s = take (length r) s @ drop (length r) s" by simp
    also have "\<dots> = (take (length r) s @ p) @ trim_left_fuel rs n (drop (length r) s)"
      using p by simp
    finally have "s = (take (length r) s @ p) @ trim_left_fuel rs (Suc n) s"
      using Some by simp
    then show ?thesis by blast
  qed
qed

lemma trim_left_done:
  assumes "[] \<notin> set rs" and "length s \<le> n"
  shows "find (HasPrefix (trim_left_fuel rs n s)) rs = None"
  using assms(2)
proof (induction n arbitrary: s)
  case 0
  with assms(1) show ?case by (auto simp: find_None_iff HasPrefix_def)
next
  case (Suc n)
  show ?case
  proof (cases "find (HasPrefix s) rs")
    case None
    then show ?thesis by simp
  next
    case (Some r)
    then have "r \<in> set rs" and "HasPrefix s r"
      by (auto simp: find_Some_iff)
    with assms(1) have "r \<noteq> []" by auto
    with \<open>HasPrefix s r\<close> have "length (drop (length r) s) \<le> n"
      using Suc.prems by (cases r) (auto simp: HasPrefix_iff)
    from Suc.IH [OF this] Some show ?thesis by simp
  qed
qed

text \<open>\<^verbatim>\<open>strings.Split\<close> on a one-byte separator.\<close>

fun split_on :: "char \<Rightarrow> string \<Rightarrow> string list" where
  "split_on c [] = [[]]"
| "split_on c (x # xs) =
     (if x = c then [] # split_on c xs
      else case split_on c xs of [] \<Rightarrow> [[x]] | w # ws \<Rightarrow> (x # w) # ws)"

lemma split_on_nonempty [simp]: "split_on c s \<noteq> []"
  by (induction s) (auto split: list.splits)

lemma split_on_no_sep: "w \<in> set (split_on c s) \<Longrightarrow> c \<notin> set w"
proof (induction s arbitrary: w)
  case Nil
  then show ?case by simp
next
  case (Cons x xs)
  then show ?case by (auto split: if_splits list.splits)
qed

section \<open>Runs of a step relation\<close>

text \<open>
  What goroutines that interleave have in common: states, an initial one, a step relation and the states it
  reaches. An invariant is proved step by step, and goroutines that only have finitely much left to do come to rest.
\<close>

locale step_system =
  fixes initial :: 's and step :: "'s \<Rightarrow> 's \<Rightarrow> bool" and reach :: "'s \<Rightarrow> bool"
  assumes reach_initial: "reach initial"
    and reach_next: "reach s \<Longrightarrow> step s s' \<Longrightarrow> reach s'"
    and reach_least: "reach s \<Longrightarrow> P initial \<Longrightarrow> (\<And>t t'. reach t \<Longrightarrow> P t \<Longrightarrow> step t t' \<Longrightarrow> P t') \<Longrightarrow> P s"
begin

lemma invariant:
  assumes "reach s" and "I initial" and "\<And>t t'. step t t' \<Longrightarrow> I t \<Longrightarrow> I t'"
  shows "I s"
  using assms by (blast intro: reach_least)

lemma reach_steps: "step\<^sup>*\<^sup>* s s' \<Longrightarrow> reach s \<Longrightarrow> reach s'"
  by (induction rule: rtranclp_induct) (blast intro: reach_next)+

lemma comes_to_rest:
  fixes left :: "'s \<Rightarrow> nat"
  assumes "Q s" and "\<And>t t'. Q t \<Longrightarrow> step t t' \<Longrightarrow> Q t' \<and> left t' < left t"
  shows "\<exists>s'. step\<^sup>*\<^sup>* s s' \<and> Q s' \<and> (\<forall>t. \<not> step s' t)"
  using assms(1)
proof (induction "left s" arbitrary: s rule: less_induct)
  case less
  show ?case
  proof (cases "\<exists>t. step s t")
    case True
    then obtain t where t: "step s t" by blast
    with assms(2) [OF less.prems] have "Q t" "left t < left s" by blast+
    with less.hyps [of t] t show ?thesis by (blast intro: converse_rtranclp_into_rtranclp)
  qed (use less.prems in blast)
qed

end

end
