(* ===== verification/Rate_Limit.thy ===== *)
theory Rate_Limit
  imports Puls_Prelude
begin

text \<open>
  The keyed token-bucket limiter of \<^verbatim>\<open>internal/server/ratelimit.go\<close>: its state, \<open>allow\<close>
  and \<open>sweep\<close>. Each operation runs under the limiter's mutex, so a run is a sequence of
  calls; the float64 token counts are rationals. The interface \<open>token_gate\<close> states the
  limiter by the tokens available to a key at an instant; the bound on the calls let
  through in a window, the isolation of keys and the refill are proved from it once.
\<close>

section \<open>The limiter\<close>

record bucket =
  b_tokens :: rat
  b_last :: time

record keyedRateLimiter =
  l_buckets :: "(string, bucket) gomap"
  l_rate :: rat
  l_burst :: rat
  l_lastSweep :: time

definition rateLimitSweepInterval :: duration where
  "rateLimitSweepInterval = minute"

definition rateLimitBucketTTL :: duration where
  "rateLimitBucketTTL = 10 * minute"

definition newRateLimiter :: "time \<Rightarrow> rat \<Rightarrow> int \<Rightarrow> keyedRateLimiter" where
  "newRateLimiter now ratePerSec n =
     \<lparr>l_buckets = [], l_rate = ratePerSec, l_burst = of_int n, l_lastSweep = now\<rparr>"

definition sweep :: "keyedRateLimiter \<Rightarrow> time \<Rightarrow> keyedRateLimiter" where
  "sweep l now =
     (if now - l_lastSweep l < rateLimitSweepInterval then l
      else l\<lparr>l_buckets := filter (\<lambda>(k, b). \<not> now - b_last b > rateLimitBucketTTL) (l_buckets l),
             l_lastSweep := now\<rparr>)"

definition allow :: "keyedRateLimiter \<Rightarrow> time \<Rightarrow> string \<Rightarrow> bool \<times> keyedRateLimiter" where
  "allow l0 now key =
     (let l = sweep l0 now;
          b = (case map_of (l_buckets l) key of
                 Some b \<Rightarrow> b
               | None \<Rightarrow> \<lparr>b_tokens = l_burst l, b_last = now\<rparr>);
          refilled = b_tokens b + seconds_of (now - b_last b) * l_rate l;
          toks = (if refilled > l_burst l then l_burst l else refilled)
      in if toks < 1
         then (False, l\<lparr>l_buckets := AList.update key \<lparr>b_tokens = toks, b_last = now\<rparr> (l_buckets l)\<rparr>)
         else (True, l\<lparr>l_buckets := AList.update key \<lparr>b_tokens = toks - 1, b_last = now\<rparr> (l_buckets l)\<rparr>))"

fun allow_seq :: "keyedRateLimiter \<Rightarrow> (time \<times> string) list \<Rightarrow> bool list" where
  "allow_seq l [] = []"
| "allow_seq l ((t, k) # cs) = (let (d, l') = allow l t k in d # allow_seq l' cs)"

section \<open>The interface: tokens available to a key\<close>

text \<open>
  \<open>avail l t k\<close> is what a call for \<open>k\<close> at \<open>t\<close> could spend. Calls of a run come in
  the order of their clock readings.
\<close>

fun nondecreasing_from :: "time \<Rightarrow> (time \<times> 'k) list \<Rightarrow> bool" where
  "nondecreasing_from t [] \<longleftrightarrow> True"
| "nondecreasing_from t ((u, k) # cs) \<longleftrightarrow> t \<le> u \<and> nondecreasing_from u cs"

fun gate_seq :: "('l \<Rightarrow> time \<Rightarrow> 'k \<Rightarrow> bool \<times> 'l) \<Rightarrow> 'l \<Rightarrow> (time \<times> 'k) list \<Rightarrow> bool list" where
  "gate_seq f l [] = []"
| "gate_seq f l ((t, k) # cs) = (let (d, l') = f l t k in d # gate_seq f l' cs)"

lemma gate_seq_Cons [simp]: "gate_seq f l ((t, k) # cs) = fst (f l t k) # gate_seq f (snd (f l t k)) cs"
  by (simp split: prod.splits)

declare gate_seq.simps(2) [simp del]

fun gate_final :: "('l \<Rightarrow> time \<Rightarrow> 'k \<Rightarrow> bool \<times> 'l) \<Rightarrow> 'l \<Rightarrow> (time \<times> 'k) list \<Rightarrow> 'l" where
  "gate_final f l [] = l"
| "gate_final f l ((t, k) # cs) = gate_final f (snd (f l t k)) cs"

lemma gate_seq_append: "gate_seq f l (as @ bs) = gate_seq f l as @ gate_seq f (gate_final f l as) bs"
  by (induction as arbitrary: l) auto

lemma length_gate_seq [simp]: "length (gate_seq f l cs) = length cs"
  by (induction cs arbitrary: l) auto

text \<open>The calls for key \<open>k\<close> that a run of decisions let through.\<close>

fun passed :: "'k \<Rightarrow> (time \<times> 'k) list \<Rightarrow> bool list \<Rightarrow> nat" where
  "passed k ((t, k') # cs) (d # ds) = (if k' = k \<and> d then 1 else 0) + passed k cs ds"
| "passed k _ _ = 0"

text \<open>One bucket on its own: a level that was true at an instant, and the decisions at later ones.\<close>

fun one_bucket :: "rat \<Rightarrow> rat \<Rightarrow> rat \<Rightarrow> time \<Rightarrow> time list \<Rightarrow> bool list" where
  "one_bucket r c v t [] = []"
| "one_bucket r c v t (u # us) =
     (let w = min c (v + seconds_of (u - t) * r)
      in if w < 1 then False # one_bucket r c w u us else True # one_bucket r c (w - 1) u us)"

fun decisions_for :: "'k \<Rightarrow> (time \<times> 'k) list \<Rightarrow> bool list \<Rightarrow> bool list" where
  "decisions_for k ((t, k') # cs) (d # ds) =
     (if k' = k then d # decisions_for k cs ds else decisions_for k cs ds)"
| "decisions_for k _ _ = []"

definition times_for :: "'k \<Rightarrow> (time \<times> 'k) list \<Rightarrow> time list" where
  "times_for k cs = map fst (filter (\<lambda>c. snd c = k) cs)"

locale token_gate =
  fixes gate :: "'l \<Rightarrow> time \<Rightarrow> 'k \<Rightarrow> bool \<times> 'l"
    and inv :: "'l \<Rightarrow> time \<Rightarrow> bool"
    and avail :: "'l \<Rightarrow> time \<Rightarrow> 'k \<Rightarrow> rat"
    and r :: rat
    and c :: rat
  assumes rate_nonneg: "inv l t \<Longrightarrow> 0 \<le> r"
    and avail_nonneg: "inv l t \<Longrightarrow> 0 \<le> avail l t k"
    and avail_le: "inv l t \<Longrightarrow> avail l t k \<le> c"
    and inv_later: "inv l t \<Longrightarrow> t \<le> u \<Longrightarrow> inv l u"
    and avail_later: "inv l t \<Longrightarrow> t \<le> u \<Longrightarrow> avail l u k = min c (avail l t k + seconds_of (u - t) * r)"
    and gate_inv: "inv l t \<Longrightarrow> inv (snd (gate l t k)) t"
    and gate_decides: "inv l t \<Longrightarrow> fst (gate l t k) \<longleftrightarrow> 1 \<le> avail l t k"
    and gate_spends: "inv l t \<Longrightarrow>
      avail (snd (gate l t k)) t k' = avail l t k' - (if k' = k \<and> fst (gate l t k) then 1 else 0)"
begin

lemma avail_growth: "inv l t \<Longrightarrow> t \<le> u \<Longrightarrow> avail l u k \<le> avail l t k + seconds_of (u - t) * r"
  using avail_later [of l t u k] by simp

text \<open>The potential argument: what passed so far plus what is left is at most the start plus the refill.\<close>

lemma passed_le_avail:
  assumes "inv l t" and "nondecreasing_from t cs" and "\<forall>x \<in> set cs. fst x \<le> e" and "t \<le> e"
  shows "of_nat (passed k cs (gate_seq gate l cs)) \<le> avail l t k + seconds_of (e - t) * r"
  using assms
proof (induction cs arbitrary: l t)
  case Nil
  then show ?case
    using avail_nonneg [of l t k] rate_nonneg [of l t] by (simp add: seconds_of_nonneg)
next
  case (Cons x cs)
  obtain u k' where x: "x = (u, k')" by (cases x)
  let ?l = "snd (gate l u k')"
  from Cons.prems x have tu: "t \<le> u" and later: "nondecreasing_from u cs" and ue: "u \<le> e"
    by auto
  from Cons.prems(1) tu have invu: "inv l u" by (rule inv_later)
  have IH: "of_nat (passed k cs (gate_seq gate ?l cs)) \<le> avail ?l u k + seconds_of (e - u) * r"
    using Cons.prems(3) ue by (intro Cons.IH [OF gate_inv [OF invu] later]) auto
  have split: "seconds_of (e - t) * r = seconds_of (e - u) * r + seconds_of (u - t) * r"
    by (simp add: seconds_of_diff algebra_simps)
  have step: "of_nat (passed k (x # cs) (gate_seq gate l (x # cs)))
      = (if k' = k \<and> fst (gate l u k') then 1 else 0) + of_nat (passed k cs (gate_seq gate ?l cs))"
    by (auto simp: x)
  have "of_nat (passed k (x # cs) (gate_seq gate l (x # cs))) \<le> avail l u k + seconds_of (e - u) * r"
    using IH gate_spends [OF invu, of k' k] unfolding step by (auto split: if_splits)
  also have "\<dots> \<le> avail l t k + seconds_of (e - t) * r"
    using avail_growth [OF Cons.prems(1) tu, of k] split by simp
  finally show ?case .
qed

lemma window_bound:
  assumes "inv l t" and "nondecreasing_from t cs" and "\<forall>x \<in> set cs. fst x \<le> e" and "t \<le> e"
  shows "of_nat (passed k cs (gate_seq gate l cs)) \<le> c + seconds_of (e - t) * r"
  using passed_le_avail [OF assms] avail_le [OF assms(1), of k] by (rule order_trans [OF _ add_right_mono])

lemma inv_run:
  assumes "inv l t" and "nondecreasing_from t (as @ bs)" and "\<forall>x \<in> set as. fst x \<le> s" and "t \<le> s"
  shows "inv (gate_final gate l as) s"
  using assms
proof (induction as arbitrary: l t)
  case Nil
  then show ?case by (simp add: inv_later)
next
  case (Cons x as)
  obtain u k' where x: "x = (u, k')" by (cases x)
  with Cons.prems have "inv (snd (gate l u k')) u"
    by (auto intro!: gate_inv elim: inv_later)
  moreover from Cons.prems x have "nondecreasing_from u (as @ bs)" "u \<le> s"
    by auto
  ultimately show ?case
    using Cons.IH [of "snd (gate l u k')" u] Cons.prems(3) x by simp
qed

text \<open>Any later stretch of a run, between two instants, is bounded in the same way.\<close>

lemma sliding_window_bound:
  assumes "inv l t" and "nondecreasing_from t (as @ bs)" and "t \<le> s" and "s \<le> e"
    and "\<forall>x \<in> set as. fst x \<le> s" and "nondecreasing_from s bs"
    and "\<forall>x \<in> set bs. fst x \<le> e"
  shows "of_nat (passed k bs (drop (length as) (gate_seq gate l (as @ bs)))) \<le> c + seconds_of (e - s) * r"
proof -
  have "inv (gate_final gate l as) s"
    using inv_run [OF assms(1,2)] assms(3,5) by blast
  from window_bound [OF this assms(6) assms(7) assms(4)]
  show ?thesis by (simp add: gate_seq_append)
qed

text \<open>A key's decisions are those of its own bucket, whatever the other keys do.\<close>

lemma decisions_one_bucket:
  assumes "inv l t" and "nondecreasing_from t cs" and "s \<le> t"
    and "avail l t k = min c (v + seconds_of (t - s) * r)"
  shows "decisions_for k cs (gate_seq gate l cs) = one_bucket r c v s (times_for k cs)"
  using assms
proof (induction cs arbitrary: l t s v)
  case Nil
  then show ?case by (simp add: times_for_def)
next
  case (Cons x cs)
  obtain u k' where x: "x = (u, k')" by (cases x)
  let ?g = "gate l u k'"
  from Cons.prems x have tu: "t \<le> u" and later: "nondecreasing_from u cs" and su: "s \<le> u"
    by auto
  from Cons.prems(1) tu have invu: "inv l u" by (rule inv_later)
  have grow: "0 \<le> seconds_of (u - t) * r"
    using tu rate_nonneg [OF invu] by (simp add: seconds_of_nonneg)
  have "seconds_of (u - s) * r = seconds_of (t - s) * r + seconds_of (u - t) * r"
    by (simp add: seconds_of_diff algebra_simps)
  then have au: "avail l u k = min c (v + seconds_of (u - s) * r)"
    using avail_later [OF Cons.prems(1) tu, of k] Cons.prems(4) grow by (simp add: min_def)
  have split: "gate_seq gate l (x # cs) = fst ?g # gate_seq gate (snd ?g) cs"
    by (simp add: x)
  show ?case
  proof (cases "k' = k")
    case False
    have "avail (snd ?g) u k = min c (v + seconds_of (u - s) * r)"
      using gate_spends [OF invu, of k' k] False au by simp
    from Cons.IH [OF gate_inv [OF invu] later su this]
    show ?thesis using False x unfolding split by (simp add: times_for_def)
  next
    case True
    let ?w = "min c (v + seconds_of (u - s) * r)"
    have now: "avail (snd ?g) u k = min c ((if fst ?g then ?w - 1 else ?w) + seconds_of (u - u) * r)"
      using gate_spends [OF invu, of k' k] True au by (auto simp: seconds_of_def)
    have dec: "fst ?g \<longleftrightarrow> \<not> ?w < 1"
      using gate_decides [OF invu, of k'] True au by auto
    from Cons.IH [OF gate_inv [OF invu] later order_refl now]
    show ?thesis using True x dec unfolding split by (simp add: times_for_def Let_def)
  qed
qed

lemma refilled_after:
  assumes "inv l t" and "t \<le> u" and "1 \<le> c" and "1 \<le> seconds_of (u - t) * r"
  shows "fst (gate l u k)"
  using assms avail_later [OF assms(1,2), of k] avail_nonneg [OF assms(1), of k]
    gate_decides [OF inv_later [OF assms(1,2)], of k]
  by simp

end

section \<open>The limiter provides it\<close>

definition lim_avail :: "keyedRateLimiter \<Rightarrow> time \<Rightarrow> string \<Rightarrow> rat" where
  "lim_avail l t k =
     (case map_of (l_buckets l) k of
        None \<Rightarrow> l_burst l
      | Some b \<Rightarrow> min (l_burst l) (b_tokens b + seconds_of (t - b_last b) * l_rate l))"

definition bucket_ok :: "keyedRateLimiter \<Rightarrow> time \<Rightarrow> bucket \<Rightarrow> bool" where
  "bucket_ok l t b \<longleftrightarrow> 0 \<le> b_tokens b \<and> b_tokens b \<le> l_burst l \<and> b_last b \<le> t"

text \<open>
  The invariant at an instant: distinct keys, every bucket within its capacity and last
  used in the past, and a rate that fills an empty bucket within the time after which it
  may be evicted.
\<close>

definition lim_inv :: "rat \<Rightarrow> rat \<Rightarrow> keyedRateLimiter \<Rightarrow> time \<Rightarrow> bool" where
  "lim_inv r c l t \<longleftrightarrow>
     gomap_ok (l_buckets l) \<and> l_rate l = r \<and> l_burst l = c \<and> 0 \<le> r \<and> 0 \<le> c
     \<and> c \<le> seconds_of rateLimitBucketTTL * r
     \<and> (\<forall>(k, b) \<in> set (l_buckets l). bucket_ok l t b)"

lemma sweep_fields [simp]:
  "l_rate (sweep l t) = l_rate l" "l_burst (sweep l t) = l_burst l"
  by (simp_all add: sweep_def)

lemma lim_inv_bucket:
  "lim_inv r c l t \<Longrightarrow> map_of (l_buckets l) k = Some b \<Longrightarrow> 0 \<le> b_tokens b \<and> b_tokens b \<le> c \<and> b_last b \<le> t"
  by (auto simp: lim_inv_def bucket_ok_def dest!: map_of_SomeD)

lemma lim_inv_sweep: "lim_inv r c l t \<Longrightarrow> lim_inv r c (sweep l t) t"
  by (auto simp: lim_inv_def sweep_def bucket_ok_def)

text \<open>Eviction is invisible: an evicted bucket had refilled to its capacity.\<close>

lemma lim_avail_sweep:
  assumes inv: "lim_inv r c l t"
  shows "lim_avail (sweep l t) t k = lim_avail l t k"
proof (cases "map_of (l_buckets l) k")
  case None
  then have "map_of (l_buckets (sweep l t)) k = None"
    using inv by (auto simp: sweep_def lim_inv_def map_of_filter_distinct)
  with None show ?thesis by (simp add: lim_avail_def)
next
  case (Some b)
  show ?thesis
  proof (cases "map_of (l_buckets (sweep l t)) k")
    case (Some b')
    then have "b' = b"
      using inv \<open>map_of (l_buckets l) k = Some b\<close>
      by (auto simp: sweep_def lim_inv_def map_of_filter_distinct split: if_splits)
    with Some \<open>map_of (l_buckets l) k = Some b\<close> show ?thesis by (simp add: lim_avail_def)
  next
    case None
    then have idle: "t - b_last b > rateLimitBucketTTL"
      using inv Some by (auto simp: sweep_def lim_inv_def map_of_filter_distinct split: if_splits)
    have "seconds_of rateLimitBucketTTL * r \<le> seconds_of (t - b_last b) * r"
      using idle inv by (intro mult_right_mono seconds_of_mono) (auto simp: lim_inv_def)
    then have "c \<le> b_tokens b + seconds_of (t - b_last b) * r"
      using inv lim_inv_bucket [OF inv Some] by (auto simp: lim_inv_def)
    with None Some inv show ?thesis by (simp add: lim_avail_def lim_inv_def)
  qed
qed

text \<open>\<open>allow\<close> through the tokens available.\<close>

lemma allow_avail_eq:
  assumes inv: "lim_inv r c l t"
  shows "allow l t k =
    (1 \<le> lim_avail l t k,
     (sweep l t)\<lparr>l_buckets := AList.update k
        \<lparr>b_tokens = lim_avail l t k - (if 1 \<le> lim_avail l t k then 1 else 0), b_last = t\<rparr>
        (l_buckets (sweep l t))\<rparr>)"
proof -
  have "lim_avail l t k = lim_avail (sweep l t) t k"
    by (simp add: lim_avail_sweep [OF inv])
  moreover have "seconds_of 0 = 0" by (simp add: seconds_of_def)
  ultimately show ?thesis
    by (cases "map_of (l_buckets (sweep l t)) k")
      (auto simp: allow_def Let_def lim_avail_def min_def not_less not_le)
qed

lemma lim_avail_bounds:
  assumes inv: "lim_inv r c l t"
  shows "0 \<le> lim_avail l t k \<and> lim_avail l t k \<le> c"
proof (cases "map_of (l_buckets l) k")
  case None
  with inv show ?thesis by (simp add: lim_avail_def lim_inv_def)
next
  case (Some b)
  have "0 \<le> b_tokens b + seconds_of (t - b_last b) * r"
    using inv lim_inv_bucket [OF inv Some]
    by (intro add_nonneg_nonneg mult_nonneg_nonneg seconds_of_nonneg) (auto simp: lim_inv_def)
  with Some inv show ?thesis by (simp add: lim_avail_def lim_inv_def)
qed

lemma lim_avail_later:
  assumes inv: "lim_inv r c l t" and tu: "t \<le> u"
  shows "lim_avail l u k = min c (lim_avail l t k + seconds_of (u - t) * r)"
proof -
  have grow: "0 \<le> seconds_of (u - t) * r"
    using inv tu by (simp add: lim_inv_def seconds_of_nonneg)
  show ?thesis
  proof (cases "map_of (l_buckets l) k")
    case None
    with inv grow show ?thesis by (simp add: lim_avail_def lim_inv_def)
  next
    case (Some b)
    have "seconds_of (u - b_last b) * r = seconds_of (t - b_last b) * r + seconds_of (u - t) * r"
      by (simp add: seconds_of_diff algebra_simps)
    with Some inv grow show ?thesis by (simp add: lim_avail_def lim_inv_def min_def)
  qed
qed

lemma lim_inv_allow:
  assumes inv: "lim_inv r c l t"
  shows "lim_inv r c (snd (allow l t k)) t"
proof -
  have swept: "lim_inv r c (sweep l t) t" by (rule lim_inv_sweep [OF inv])
  let ?v = "lim_avail l t k - (if 1 \<le> lim_avail l t k then 1 else 0)"
  have "0 \<le> ?v \<and> ?v \<le> c"
    using lim_avail_bounds [OF inv, of k] by auto
  moreover have "set (AList.update k b m) \<subseteq> insert (k, b) (set m)" for b :: bucket and m
    by (induction m) auto
  ultimately show ?thesis
    using swept unfolding allow_avail_eq [OF inv]
    by (auto simp: lim_inv_def bucket_ok_def split: if_splits) (fastforce)+
qed

lemma allow_spends:
  assumes inv: "lim_inv r c l t"
  shows "lim_avail (snd (allow l t k)) t k' = lim_avail l t k' - (if k' = k \<and> fst (allow l t k) then 1 else 0)"
proof (cases "k' = k")
  case True
  have "seconds_of 0 = 0" by (simp add: seconds_of_def)
  then show ?thesis
    using lim_avail_bounds [OF inv, of k] inv True
    unfolding allow_avail_eq [OF inv] by (simp add: lim_avail_def lim_inv_def)
next
  case False
  then have "lim_avail (snd (allow l t k)) t k' = lim_avail (sweep l t) t k'"
    unfolding allow_avail_eq [OF inv] by (simp add: lim_avail_def split: option.split)
  with False show ?thesis by (simp add: lim_avail_sweep [OF inv])
qed

interpretation lim: token_gate allow "lim_inv r c" lim_avail r c for r c
proof unfold_locales
  fix l t k
  assume inv: "lim_inv r c l t"
  show "0 \<le> r" using inv by (simp add: lim_inv_def)
  show "0 \<le> lim_avail l t k" and "lim_avail l t k \<le> c"
    using lim_avail_bounds [OF inv] by auto
  show "lim_inv r c (snd (allow l t k)) t" by (rule lim_inv_allow [OF inv])
  show "fst (allow l t k) \<longleftrightarrow> 1 \<le> lim_avail l t k" by (simp add: allow_avail_eq [OF inv])
next
  fix l t u
  assume "lim_inv r c l t" and "t \<le> u"
  then show "lim_inv r c l u" by (fastforce simp: lim_inv_def bucket_ok_def)
next
  fix l t u k
  assume "lim_inv r c l t" and "t \<le> u"
  then show "lim_avail l u k = min c (lim_avail l t k + seconds_of (u - t) * r)"
    by (rule lim_avail_later)
next
  fix l t k k'
  assume "lim_inv r c l t"
  then show "lim_avail (snd (allow l t k)) t k' = lim_avail l t k' - (if k' = k \<and> fst (allow l t k) then 1 else 0)"
    by (rule allow_spends)
qed

lemma allow_seq_gate [simp]: "allow_seq l cs = gate_seq allow l cs"
  by (induction l cs rule: allow_seq.induct) (auto split: prod.splits)

lemma lim_inv_new:
  "0 \<le> r \<Longrightarrow> 0 \<le> n \<Longrightarrow> of_int n \<le> seconds_of rateLimitBucketTTL * r \<Longrightarrow>
     lim_inv r (of_int n) (newRateLimiter t r n) t"
  by (simp add: lim_inv_def newRateLimiter_def)

lemma lim_avail_new [simp]: "lim_avail (newRateLimiter t r n) u k = of_int n"
  by (simp add: lim_avail_def newRateLimiter_def)

section \<open>What the limiter guarantees\<close>







end
