(* ===== verification/Hub.thy ===== *)
theory Hub
  imports Puls_Prelude
begin

text \<open>
  The registry of connected devices (\<^verbatim>\<open>internal/ws/hub.go\<close>) and the client that stands for one
  WebSocket connection. Each method's locked region is one atomic operation; what a method does
  after it releases the lock (closing a replaced connection, writing to a connection) is returned
  for the caller to run.
\<close>

section \<open>Clients and the hub\<close>

text \<open>A \<^verbatim>\<open>*Client\<close> is a pointer: two clients are equal when their addresses are.\<close>

record Client =
  client_addr :: nat
  DeviceID :: string
  heartbeatTimeout :: duration

record Hub =
  clients :: "(string, Client) gomap"
  wg :: nat

definition NewHub :: Hub where
  "NewHub = \<lparr> clients = [], wg = 0 \<rparr>"

text \<open>The prior connection, which the caller closes outside the lock, and the hub.\<close>

definition Register :: "Client \<Rightarrow> Hub \<Rightarrow> Client option \<times> Hub" where
  "Register c h =
     (map_of (clients h) (DeviceID c), h \<lparr> clients := AList.update (DeviceID c) c (clients h) \<rparr>)"

definition same_client :: "Client option \<Rightarrow> Client \<Rightarrow> bool" where
  "same_client x c \<longleftrightarrow> (case x of Some y \<Rightarrow> client_addr y = client_addr c | None \<Rightarrow> False)"

definition Unregister :: "Client \<Rightarrow> Hub \<Rightarrow> bool \<times> Hub" where
  "Unregister c h =
     (if same_client (map_of (clients h) (DeviceID c)) c
      then (True, h \<lparr> clients := AList.delete (DeviceID c) (clients h) \<rparr>)
      else (False, h))"

text \<open>\<open>write c msg\<close> is the outcome of \<^verbatim>\<open>conn.Write\<close> on the connection of \<open>c\<close> under the timeout of \<^verbatim>\<open>send\<close>.\<close>

definition send :: "(Client \<Rightarrow> string \<Rightarrow> unit res) \<Rightarrow> Client \<Rightarrow> string \<Rightarrow> unit res" where
  "send write c msg =
     (case write c msg of Err e \<Rightarrow> Err (Wrap ''ws send: %w'' e) | r \<Rightarrow> r)"

definition Send :: "(Client \<Rightarrow> string \<Rightarrow> unit res) \<Rightarrow> string \<Rightarrow> string \<Rightarrow> Hub \<Rightarrow> unit res" where
  "Send write deviceID msg h =
     (case map_of (clients h) deviceID of
        None \<Rightarrow> Err (ErrText (''hub: device '' @ deviceID @ '' not connected''))
      | Some c \<Rightarrow> send write c msg)"

definition Hub_Count :: "Hub \<Rightarrow> nat" where
  "Hub_Count h = length (clients h)"

definition IsConnected :: "string \<Rightarrow> Hub \<Rightarrow> bool" where
  "IsConnected deviceID h \<longleftrightarrow> map_of (clients h) deviceID \<noteq> None"

definition ConnectedDeviceIDs :: "Hub \<Rightarrow> string list" where
  "ConnectedDeviceIDs h = map fst (clients h)"

text \<open>The clients that \<^verbatim>\<open>CloseAll\<close> closes; it leaves the map as it is.\<close>

definition CloseAll :: "Hub \<Rightarrow> Client list" where
  "CloseAll h = map snd (clients h)"

text \<open>\<^verbatim>\<open>wg.Add(1)\<close> and \<^verbatim>\<open>wg.Done()\<close>, which panics below zero.\<close>

definition wg_Add :: "Hub \<Rightarrow> Hub" where
  "wg_Add h = h \<lparr> wg := Suc (wg h) \<rparr>"

definition wg_Done :: "Hub \<Rightarrow> Hub res" where
  "wg_Done h = (if wg h = 0 then Panic ''sync: negative WaitGroup counter'' else Ok (h \<lparr> wg := wg h - 1 \<rparr>))"

text \<open>
  What \<^verbatim>\<open>Wait\<close> can return in a state of the hub: nil once the counter is zero, the context's error
  once the context is done; with neither it blocks.
\<close>

definition Wait_returns :: "Hub \<Rightarrow> goerr option \<Rightarrow> unit res \<Rightarrow> bool" where
  "Wait_returns h ctx_err r \<longleftrightarrow> (r = Ok () \<and> wg h = 0) \<or> (\<exists>e. ctx_err = Some e \<and> r = Err e)"

section \<open>The invariant\<close>

definition hub_inv :: "Hub \<Rightarrow> bool" where
  "hub_inv h \<longleftrightarrow> gomap_ok (clients h) \<and> (\<forall>d c. map_of (clients h) d = Some c \<longrightarrow> DeviceID c = d)"

lemma hub_inv_NewHub [inv_intros]: "hub_inv NewHub"
  by (simp add: hub_inv_def NewHub_def)

lemma hub_inv_Register [inv_intros]: "hub_inv h \<Longrightarrow> hub_inv (snd (Register c h))"
  by (auto simp: hub_inv_def Register_def)

lemma hub_inv_Unregister [inv_intros]: "hub_inv h \<Longrightarrow> hub_inv (snd (Unregister c h))"
  by (auto simp: hub_inv_def Unregister_def)

lemma hub_inv_wg_Add [inv_intros]: "hub_inv h \<Longrightarrow> hub_inv (wg_Add h)"
  by (simp add: hub_inv_def wg_Add_def)

lemma hub_inv_wg_Done [inv_intros]: "hub_inv h \<Longrightarrow> wg_Done h = Ok h' \<Longrightarrow> hub_inv h'"
  by (auto simp: hub_inv_def wg_Done_def split: if_splits)

lemma IsConnected_iff: "IsConnected d h \<longleftrightarrow> d \<in> set (ConnectedDeviceIDs h)"
proof -
  have "fst ` set m = dom (map_of m)" for m :: "(string, Client) gomap" by (simp add: dom_map_of_conv_image_fst)
  then show ?thesis by (auto simp: IsConnected_def ConnectedDeviceIDs_def)
qed

lemma map_of_Register [simp]:
  "map_of (clients (snd (Register c h))) = (map_of (clients h))(DeviceID c \<mapsto> c)"
  by (simp add: Register_def)

lemma fst_Register [simp]: "fst (Register c h) = map_of (clients h) (DeviceID c)"
  by (simp add: Register_def)

lemma wg_Register [simp]: "wg (snd (Register c h)) = wg h"
  by (simp add: Register_def)

lemma wg_Unregister [simp]: "wg (snd (Unregister c h)) = wg h"
  by (simp add: Unregister_def)

lemma map_of_Unregister:
  "map_of (clients (snd (Unregister c h))) d =
     (if d = DeviceID c \<and> fst (Unregister c h) then None else map_of (clients h) d)"
  by (simp add: Unregister_def)

lemma fst_Unregister: "fst (Unregister c h) \<longleftrightarrow> same_client (map_of (clients h) (DeviceID c)) c"
  by (simp add: Unregister_def)

end
