(* ===== verification/Model.thy ===== *)
theory Model
  imports Puls_Prelude
begin

text \<open>
  The data that the parts of the system exchange (\<^verbatim>\<open>internal/model/device.go\<close>): one record
  per struct, one constant per value of the string enumerations. A nil pointer is \<open>None\<close>. A
  float32 is the rational number it denotes.
\<close>

type_synonym DeviceStatus = string
type_synonym DeviceOS = string
type_synonym DiagnosticScope = string
type_synonym DiagnosticRequestStatus = string

definition StatusOnline :: DeviceStatus where "StatusOnline = ''online''"
definition StatusOffline :: DeviceStatus where "StatusOffline = ''offline''"
definition StatusUnknown :: DeviceStatus where "StatusUnknown = ''unknown''"

definition OSWindows :: DeviceOS where "OSWindows = ''windows''"
definition OSLinux :: DeviceOS where "OSLinux = ''linux''"

definition ScopeFull :: DiagnosticScope where "ScopeFull = ''full''"
definition ScopeNetwork :: DiagnosticScope where "ScopeNetwork = ''network''"
definition ScopeProcesses :: DiagnosticScope where "ScopeProcesses = ''processes''"
definition ScopeStorage :: DiagnosticScope where "ScopeStorage = ''storage''"

definition DiagnosticPending :: DiagnosticRequestStatus where "DiagnosticPending = ''pending''"
definition DiagnosticCompleted :: DiagnosticRequestStatus where "DiagnosticCompleted = ''completed''"
definition DiagnosticTimedOut :: DiagnosticRequestStatus where "DiagnosticTimedOut = ''timed_out''"

lemmas status_defs = StatusOnline_def StatusOffline_def StatusUnknown_def
lemmas os_defs = OSWindows_def OSLinux_def
lemmas scope_defs = ScopeFull_def ScopeNetwork_def ScopeProcesses_def ScopeStorage_def
lemmas diag_status_defs = DiagnosticPending_def DiagnosticCompleted_def DiagnosticTimedOut_def

record Device =
  dev_ID :: string
  dev_Name :: string
  dev_OS :: DeviceOS
  dev_Arch :: string
  dev_Status :: DeviceStatus
  dev_RegisteredAt :: time
  dev_LastSeenAt :: "time option"

record RegisterRequest =
  req_Name :: string
  req_OS :: DeviceOS
  req_Arch :: string
  req_Secret :: string

record RegisterResponse =
  resp_DeviceID :: string
  resp_Token :: string

record Heartbeat =
  hb_ID :: int
  hb_DeviceID :: string
  hb_ReceivedAt :: time
  hb_CPUPercent :: rat
  hb_MemoryPercent :: rat
  hb_DiskPercent :: rat
  hb_UptimeSeconds :: int
  hb_OSVersion :: string

record DiagnosticResult =
  diag_ID :: int
  diag_DeviceID :: string
  diag_RequestID :: string
  diag_Scope :: DiagnosticScope
  diag_RequestedAt :: time
  diag_ReceivedAt :: "time option"
  diag_Payload :: "string option"
  diag_Status :: DiagnosticRequestStatus

record DeviceDetail =
  detail_Device :: Device
  detail_RecentHeartbeats :: "Heartbeat list"

record DeviceList =
  list_Devices :: "Device list"
  list_NextCursor :: string

end
