(* ===== verification/Sql_Db.thy ===== *)
theory Sql_Db
  imports Model "HOL-Library.Multiset"
begin

text \<open>
  The SQL statements of the two stores on the tables that their schemas declare, with the
  constraints of \<^verbatim>\<open>schema.sql\<close> and \<^verbatim>\<open>schema_postgres.sql\<close>. The records are polymorphic in the
  column type of a timestamp: SQLite keeps texts, Postgres instants. The database engine and
  its driver are outside the sources: each statement of a run first takes the next entry of
  \<open>faults\<close>, which says whether the call succeeds, is refused, is executed but reported as an
  error, or breaks off half-way, which leaves no trace of a statement that is atomic; the order in which a table is scanned is a parameter of the queries.
\<close>

section \<open>Tables\<close>

record 't device_row =
  r_id :: string
  r_name :: string
  r_os :: string
  r_arch :: string
  r_secret_hash :: string
  r_status :: string
  r_registered_at :: 't
  r_last_seen_at :: "'t option"

record 't heartbeat_row =
  h_id :: int
  h_device_id :: string
  h_received_at :: 't
  h_cpu_percent :: rat
  h_memory_percent :: rat
  h_disk_percent :: rat
  h_uptime_seconds :: int
  h_os_version :: string

record 't diagnostic_row =
  g_id :: int
  g_device_id :: string
  g_request_id :: string
  g_scope :: string
  g_requested_at :: 't
  g_received_at :: "'t option"
  g_payload :: "string option"

datatype fault = Fine | Refused string | Unacked string | Interrupted string

record 't db =
  schema_objects :: "string list"
  t_devices :: "'t device_row list"
  t_heartbeats :: "'t heartbeat_row list"
  t_diagnostics :: "'t diagnostic_row list"
  hb_seq :: int
  diag_seq :: int
  faults :: "fault list"

text \<open>The packages the stores call besides the driver.\<close>

record 't deps =
  bcrypt :: "string \<Rightarrow> int \<Rightarrow> goerr + string"
  scan_devices :: "'t device_row list \<Rightarrow> 't device_row list"
  scan_heartbeats :: "'t heartbeat_row list \<Rightarrow> 't heartbeat_row list"
  scan_diagnostics :: "'t diagnostic_row list \<Rightarrow> 't diagnostic_row list"

definition scans_all :: "('a list \<Rightarrow> 'a list) \<Rightarrow> bool" where
  "scans_all f \<longleftrightarrow> (\<forall>xs. mset (f xs) = mset xs)"

definition deps_ok :: "('t, 'z) deps_scheme \<Rightarrow> bool" where
  "deps_ok p \<longleftrightarrow> scans_all (scan_devices p) \<and> scans_all (scan_heartbeats p) \<and> scans_all (scan_diagnostics p)"

section \<open>Running a statement\<close>

type_synonym ('s, 'a) stmt = "'s \<Rightarrow> 'a res \<times> 's"

definition run :: "(('t, 'z) db_scheme, 'a) stmt \<Rightarrow> (('t, 'z) db_scheme, 'a) stmt" where
  "run st s =
     (case faults s of
        [] \<Rightarrow> st s
      | f # fs \<Rightarrow>
          (let s' = s\<lparr>faults := fs\<rparr>
           in case f of
                Fine \<Rightarrow> st s'
              | Refused m \<Rightarrow> (Err (ErrText m), s')
              | Unacked m \<Rightarrow> (Err (ErrText m), snd (st s'))
              | Interrupted m \<Rightarrow> (Err (ErrText m), s')))"

text \<open>What a caller makes of the result of a run.\<close>

definition with_result :: "'v res \<times> 's \<Rightarrow> (goerr \<Rightarrow> goerr) \<Rightarrow> ('v \<Rightarrow> 'w res) \<Rightarrow> 'w res \<times> 's" where
  "with_result out on_err on_ok =
     (case fst out of Ok v \<Rightarrow> on_ok v | Err e \<Rightarrow> Err (on_err e) | Panic m \<Rightarrow> Panic m, snd out)"

lemma snd_with_result [simp]: "snd (with_result out f g) = snd out"
  by (simp add: with_result_def)

definition ping :: "(('t, 'z) db_scheme, unit) stmt" where
  "ping s = (Ok (), s)"

definition has_table :: "('t, 'z) db_scheme \<Rightarrow> string \<Rightarrow> bool" where
  "has_table s t \<longleftrightarrow> t \<in> set (schema_objects s)"

definition no_table :: "'a res" where
  "no_table = Err (ErrText ''no such table'')"

section \<open>Devices\<close>

definition insert_device :: "'t device_row \<Rightarrow> (('t, 'z) db_scheme, unit) stmt" where
  "insert_device row s =
     (if \<not> has_table s ''devices'' then (no_table, s)
      else if r_id row \<in> r_id ` set (t_devices s) then (Err (ErrText ''unique constraint failed''), s)
      else (Ok (), s\<lparr>t_devices := t_devices s @ [row]\<rparr>))"

definition select_devices ::
    "('t device_row list \<Rightarrow> 't device_row list) \<Rightarrow> (('t, 'z) db_scheme, 't device_row list) stmt" where
  "select_devices q s = (if has_table s ''devices'' then Ok (q (t_devices s)) else no_table, s)"

text \<open>\<^verbatim>\<open>UPDATE devices SET ... WHERE id = ?\<close>, with the number of rows affected.\<close>

definition update_devices ::
    "('t device_row \<Rightarrow> 't device_row) \<Rightarrow> string \<Rightarrow> (('t, 'z) db_scheme, nat) stmt" where
  "update_devices f i s =
     (if \<not> has_table s ''devices'' then (no_table, s)
      else (Ok (length (filter (\<lambda>r. r_id r = i) (t_devices s))),
            s\<lparr>t_devices := map (\<lambda>r. if r_id r = i then f r else r) (t_devices s)\<rparr>))"

section \<open>Heartbeats and diagnostics\<close>

text \<open>
  Foreign keys are checked when \<open>fk\<close> holds. A sequence value that a refused row has drawn is
  lost when \<open>burn\<close> holds, as for Postgres identity columns.
\<close>

definition insert_heartbeat ::
    "bool \<Rightarrow> bool \<Rightarrow> (int \<Rightarrow> 't heartbeat_row) \<Rightarrow> (('t, 'z) db_scheme, unit) stmt" where
  "insert_heartbeat fk burn row s =
     (let i = hb_seq s + 1
      in if \<not> has_table s ''heartbeats'' then (no_table, s)
         else if fk \<and> h_device_id (row i) \<notin> r_id ` set (t_devices s)
              then (Err (ErrText ''foreign key constraint failed''), if burn then s\<lparr>hb_seq := i\<rparr> else s)
         else (Ok (), s\<lparr>t_heartbeats := t_heartbeats s @ [row i], hb_seq := i\<rparr>))"

definition select_heartbeats ::
    "('t heartbeat_row list \<Rightarrow> 't heartbeat_row list) \<Rightarrow> (('t, 'z) db_scheme, 't heartbeat_row list) stmt" where
  "select_heartbeats q s = (if has_table s ''heartbeats'' then Ok (q (t_heartbeats s)) else no_table, s)"

definition insert_diagnostic ::
    "bool \<Rightarrow> bool \<Rightarrow> (int \<Rightarrow> 't diagnostic_row) \<Rightarrow> (('t, 'z) db_scheme, unit) stmt" where
  "insert_diagnostic fk burn row s =
     (let i = diag_seq s + 1
      in if \<not> has_table s ''diagnostic_results'' then (no_table, s)
         else if g_request_id (row i) \<in> g_request_id ` set (t_diagnostics s)
              then (Err (ErrText ''unique constraint failed''), if burn then s\<lparr>diag_seq := i\<rparr> else s)
         else if fk \<and> g_device_id (row i) \<notin> r_id ` set (t_devices s)
              then (Err (ErrText ''foreign key constraint failed''), if burn then s\<lparr>diag_seq := i\<rparr> else s)
         else (Ok (), s\<lparr>t_diagnostics := t_diagnostics s @ [row i], diag_seq := i\<rparr>))"

definition select_diagnostics ::
    "('t diagnostic_row list \<Rightarrow> 't diagnostic_row list) \<Rightarrow> (('t, 'z) db_scheme, 't diagnostic_row list) stmt" where
  "select_diagnostics q s = (if has_table s ''diagnostic_results'' then Ok (q (t_diagnostics s)) else no_table, s)"

definition update_diagnostics ::
    "('t diagnostic_row \<Rightarrow> 't diagnostic_row) \<Rightarrow> string \<Rightarrow> (('t, 'z) db_scheme, nat) stmt" where
  "update_diagnostics f i s =
     (if \<not> has_table s ''diagnostic_results'' then (no_table, s)
      else (Ok (length (filter (\<lambda>r. g_request_id r = i) (t_diagnostics s))),
            s\<lparr>t_diagnostics := map (\<lambda>r. if g_request_id r = i then f r else r) (t_diagnostics s)\<rparr>))"

definition delete_diagnostics :: "string \<Rightarrow> (('t, 'z) db_scheme, unit) stmt" where
  "delete_diagnostics i s =
     (if \<not> has_table s ''diagnostic_results'' then (no_table, s)
      else (Ok (), s\<lparr>t_diagnostics := filter (\<lambda>r. g_request_id r \<noteq> i) (t_diagnostics s)\<rparr>))"

section \<open>ORDER BY and LIMIT\<close>

text \<open>
  Rows in the order of \<open>lt\<close>, where rows that compare equal keep the order of the scan: any
  order of equal rows comes from some scan.
\<close>

fun put_in_order :: "('a \<Rightarrow> 'a \<Rightarrow> bool) \<Rightarrow> 'a \<Rightarrow> 'a list \<Rightarrow> 'a list" where
  "put_in_order lt x [] = [x]"
| "put_in_order lt x (y # ys) = (if lt y x then y # put_in_order lt x ys else x # y # ys)"

definition order_by :: "('a \<Rightarrow> 'a \<Rightarrow> bool) \<Rightarrow> 'a list \<Rightarrow> 'a list" where
  "order_by lt xs = foldr (put_in_order lt) xs []"

lemma order_by_simps [simp]:
  "order_by lt [] = []" "order_by lt (x # xs) = put_in_order lt x (order_by lt xs)"
  by (simp_all add: order_by_def)

lemma mset_put_in_order [simp]: "mset (put_in_order lt x ys) = add_mset x (mset ys)"
  by (induction ys) auto

lemma mset_order_by [simp]: "mset (order_by lt xs) = mset xs"
  by (induction xs) auto

lemma set_order_by [simp]: "set (order_by lt xs) = set xs"
  by (metis mset_order_by set_mset_mset)

text \<open>\<open>lt\<close> is a strict order in which incomparable rows are interchangeable.\<close>

definition weak_order :: "('a \<Rightarrow> 'a \<Rightarrow> bool) \<Rightarrow> bool" where
  "weak_order lt \<longleftrightarrow>
     (\<forall>x y z. lt x y \<longrightarrow> lt y z \<longrightarrow> lt x z) \<and> (\<forall>x. \<not> lt x x) \<and> (\<forall>x y z. lt x y \<longrightarrow> lt x z \<or> lt z y)"

lemma put_in_order_sorted:
  assumes "weak_order lt" and "sorted_wrt (\<lambda>a b. \<not> lt b a) ys"
  shows "sorted_wrt (\<lambda>a b. \<not> lt b a) (put_in_order lt x ys)"
  using assms(2)
proof (induction ys)
  case Nil
  then show ?case by simp
next
  case (Cons y ys)
  have mem: "z \<in> set (put_in_order lt x ys) \<Longrightarrow> z = x \<or> z \<in> set ys" for z
    by (metis mset_put_in_order add_mset_add_single insert_iff set_mset_add_mset_insert set_mset_mset)
  show ?case
  proof (cases "lt y x")
    case True
    then have "\<not> lt x y" using assms(1) unfolding weak_order_def by blast
    with True mem Cons show ?thesis by auto
  next
    case False
    have "\<not> lt z x" if "z \<in> set ys" for z
    proof
      assume "lt z x"
      then have "lt z y \<or> lt y x" using assms(1) unfolding weak_order_def by blast
      with False Cons.prems that show False by auto
    qed
    with False Cons show ?thesis by auto
  qed
qed

lemma order_by_sorted: "weak_order lt \<Longrightarrow> sorted_wrt (\<lambda>a b. \<not> lt b a) (order_by lt xs)"
  by (induction xs) (auto intro: put_in_order_sorted)

lemma put_in_order_front: "\<forall>z \<in> set zs. \<not> lt z x \<Longrightarrow> put_in_order lt x zs = x # zs"
  by (cases zs) auto

lemma filter_put_in_order:
  assumes "weak_order lt" and "sorted_wrt (\<lambda>a b. \<not> lt b a) ys"
  shows "filter P (put_in_order lt x ys) = (if P x then put_in_order lt x (filter P ys) else filter P ys)"
  using assms(2)
proof (induction ys)
  case Nil
  then show ?case by simp
next
  case (Cons y ys)
  show ?case
  proof (cases "lt y x")
    case True
    with Cons show ?thesis by simp
  next
    case False
    have "\<not> lt z x" if "z \<in> set (y # ys)" for z
    proof
      assume "lt z x"
      then have "lt z y \<or> lt y x" using assms(1) unfolding weak_order_def by blast
      with False Cons.prems that \<open>lt z x\<close> show False by auto
    qed
    then have "put_in_order lt x (filter P (y # ys)) = x # filter P (y # ys)"
      by (intro put_in_order_front) auto
    with False show ?thesis by simp
  qed
qed

lemma filter_order_by: "weak_order lt \<Longrightarrow> filter P (order_by lt xs) = order_by lt (filter P xs)"
  by (induction xs) (simp_all add: filter_put_in_order order_by_sorted)

text \<open>A negative limit is no limit for SQLite and an error for Postgres.\<close>

definition limit_rows :: "int \<Rightarrow> 'a list \<Rightarrow> 'a list" where
  "limit_rows n xs = (if n < 0 then xs else take (nat n) xs)"

section \<open>Lemmas on runs\<close>

lemma run_no_faults: "faults s = [] \<Longrightarrow> run st s = st s"
  by (simp add: run_def)

text \<open>A statement that keeps an invariant keeps it under every fault.\<close>

lemma run_invariant:
  assumes "I s" and "\<And>fs u. I u \<Longrightarrow> I (u\<lparr>faults := fs\<rparr>)" and "\<And>u. I u \<Longrightarrow> I (snd (st u))"
  shows "I (snd (run st s))"
  using assms by (auto simp: run_def Let_def split: list.split fault.split)

end
