(* ===== verification/Go_Calendar.thy ===== *)
theory Go_Calendar
  imports Puls_Prelude
begin

text \<open>
  The calendar that Go's package \<^verbatim>\<open>time\<close> computes for a UTC instant: the year, month and
  day of a day count, in the proleptic Gregorian calendar, with the lemmas that make it a
  strictly increasing bijection between day counts and dates, and the decimal rendering of
  integers that the formatting functions use.
\<close>

section \<open>Decimal digits\<close>

definition digit :: "int \<Rightarrow> char" where
  "digit n = char_of (nat (n + 48))"

definition is_digit :: "char \<Rightarrow> bool" where
  "is_digit ch \<longleftrightarrow> (48::nat) \<le> of_char ch \<and> (of_char ch :: nat) \<le> 57"

definition dval :: "char \<Rightarrow> int" where
  "dval ch = of_char ch - 48"

lemma of_char_digit: "0 \<le> n \<Longrightarrow> n \<le> 9 \<Longrightarrow> (of_char (digit n) :: nat) = nat (n + 48)"
  by (simp add: digit_def)

lemma dval_digit [simp]: "0 \<le> n \<Longrightarrow> n \<le> 9 \<Longrightarrow> dval (digit n) = n"
proof -
  assume "0 \<le> n" "n \<le> 9"
  then have "(of_char (digit n) :: nat) = nat (n + 48)" by (rule of_char_digit)
  then have "(of_char (digit n) :: int) = int (nat (n + 48))" by (metis of_nat_of_char)
  then show ?thesis using \<open>0 \<le> n\<close> by (simp add: dval_def)
qed

lemma is_digit_digit [simp]: "0 \<le> n \<Longrightarrow> n \<le> 9 \<Longrightarrow> is_digit (digit n)"
  unfolding is_digit_def by (simp only: of_char_digit) auto

lemma digit_less_iff: "0 \<le> a \<Longrightarrow> a \<le> 9 \<Longrightarrow> 0 \<le> b \<Longrightarrow> b \<le> 9 \<Longrightarrow> digit a < digit b \<longleftrightarrow> a < b"
  unfolding less_char_def by (simp only: of_char_digit) auto

lemma digit_eq_iff: "0 \<le> a \<Longrightarrow> a \<le> 9 \<Longrightarrow> 0 \<le> b \<Longrightarrow> b \<le> 9 \<Longrightarrow> digit a = digit b \<longleftrightarrow> a = b"
  by (metis dval_digit)

definition pad2 :: "int \<Rightarrow> string" where
  "pad2 n = [digit (n div 10), digit (n mod 10)]"

lemma length_pad2 [simp]: "length (pad2 n) = 2"
  by (simp add: pad2_def)

function show_nat :: "int \<Rightarrow> string" where
  "show_nat n = (if n < 10 then [digit n] else show_nat (n div 10) @ [digit (n mod 10)])"
  by pat_completeness auto
termination
  by (relation "measure nat") auto

declare show_nat.simps [simp del]

text \<open>\<^verbatim>\<open>appendInt(b, x, width)\<close> of package time.\<close>

definition append_int :: "int \<Rightarrow> nat \<Rightarrow> string" where
  "append_int x width =
     (let ds = show_nat \<bar>x\<bar>
      in (if x < 0 then ''-'' else []) @ replicate (width - length ds) (digit 0) @ ds)"

lemma show_nat_digit: "n \<le> 9 \<Longrightarrow> show_nat n = [digit n]"
  by (subst show_nat.simps) simp

lemma show_nat_step: "0 < m \<Longrightarrow> 0 \<le> d \<Longrightarrow> d \<le> 9 \<Longrightarrow> show_nat (10 * m + d) = show_nat m @ [digit d]"
  by (subst show_nat.simps) (auto simp: int_div_pos_eq [of _ 10 m d])

lemma pad2_digits: "0 \<le> b \<Longrightarrow> b \<le> 9 \<Longrightarrow> pad2 (10 * a + b) = [digit a, digit b]"
  by (auto simp: pad2_def int_div_pos_eq [of _ 10 a b])

lemma append_int_2:
  assumes "0 \<le> n" and "n < 100"
  shows "append_int n 2 = pad2 n"
proof -
  define a where "a = n div 10"
  define b where "b = n mod 10"
  have n: "n = 10 * a + b" and ab: "0 \<le> a" "a \<le> 9" "0 \<le> b" "b \<le> 9"
    using assms by (auto simp: a_def b_def)
  show ?thesis
  proof (cases "a = 0")
    case True
    with ab show ?thesis
      unfolding n pad2_digits [OF ab(3,4)] by (simp add: append_int_def show_nat_digit)
  next
    case False
    with ab show ?thesis
      unfolding n pad2_digits [OF ab(3,4)] by (simp add: append_int_def show_nat_step show_nat_digit)
  qed
qed

lemma append_int_4_digits:
  assumes "0 \<le> a" "a \<le> 9" "0 \<le> b" "b \<le> 9" "0 \<le> g" "g \<le> 9" "0 \<le> d" "d \<le> 9"
  shows "append_int (10 * (10 * (10 * a + b) + g) + d) 4 = [digit a, digit b, digit g, digit d]"
proof -
  let ?n = "10 * (10 * (10 * a + b) + g) + d"
  have sn: "show_nat ?n =
      (if a \<noteq> 0 then [digit a, digit b, digit g, digit d] else if b \<noteq> 0 then [digit b, digit g, digit d]
       else if g \<noteq> 0 then [digit g, digit d] else [digit d])"
  proof -
    have "show_nat a = [digit a]" "show_nat b = [digit b]" "show_nat g = [digit g]" "show_nat d = [digit d]"
      using assms by (auto intro: show_nat_digit)
    moreover have "0 < a \<Longrightarrow> show_nat (10 * a + b) = show_nat a @ [digit b]"
      "0 < 10 * a + b \<Longrightarrow> show_nat (10 * (10 * a + b) + g) = show_nat (10 * a + b) @ [digit g]"
      "0 < 10 * (10 * a + b) + g \<Longrightarrow> show_nat ?n = show_nat (10 * (10 * a + b) + g) @ [digit d]"
      by (simp_all only: show_nat_step assms)
    ultimately show ?thesis using assms by (cases "a = 0"; cases "b = 0"; cases "g = 0") simp_all
  qed
  have "0 \<le> ?n" using assms by simp
  then have "append_int ?n 4 = replicate (4 - length (show_nat ?n)) (digit 0) @ show_nat ?n"
    unfolding append_int_def Let_def by (simp only: abs_of_nonneg not_less [symmetric] if_False) simp
  then show ?thesis unfolding sn by (simp add: numeral_eq_Suc)
qed

lemma append_int_4:
  assumes "0 \<le> n" and "n < 10000"
  shows "append_int n 4 = pad2 (n div 100) @ pad2 (n mod 100)"
proof -
  define h where "h = n div 100"
  define l where "l = n mod 100"
  define a where "a = h div 10"
  define b where "b = h mod 10"
  define g where "g = l div 10"
  define d where "d = l mod 10"
  have n: "n = 100 * h + l" and hl: "0 \<le> h" "h < 100" "0 \<le> l" "l < 100"
    using assms by (auto simp: h_def l_def)
  have ab: "h = 10 * a + b" "0 \<le> a" "a \<le> 9" "0 \<le> b" "b \<le> 9"
    and gd: "l = 10 * g + d" "0 \<le> g" "g \<le> 9" "0 \<le> d" "d \<le> 9"
    using hl by (auto simp: a_def b_def g_def d_def)
  have "n = 10 * (10 * (10 * a + b) + g) + d"
    unfolding n ab gd by simp
  then have "append_int n 4 = [digit a, digit b, digit g, digit d]"
    using append_int_4_digits ab gd by metis
  also have "\<dots> = pad2 h @ pad2 l"
    unfolding ab(1) gd(1) using ab gd by (simp add: pad2_digits)
  finally show ?thesis by (simp add: h_def l_def)
qed

section \<open>The calendar\<close>

text \<open>Days are counted from 1 January of the year 1.\<close>

definition unix_day :: int where
  "unix_day = 719162"

definition is_leap :: "int \<Rightarrow> bool" where
  "is_leap y \<longleftrightarrow> y mod 4 = 0 \<and> (y mod 100 \<noteq> 0 \<or> y mod 400 = 0)"

definition year_start :: "int \<Rightarrow> int" where
  "year_start y = 365 * (y - 1) + (y - 1) div 4 - (y - 1) div 100 + (y - 1) div 400"

definition year_len :: "int \<Rightarrow> int" where
  "year_len y = (if is_leap y then 366 else 365)"

lemma div_pred:
  assumes "0 < k"
  shows "y div k = (y - 1) div k + (if y mod k = 0 then 1 else (0::int))"
proof -
  define q where "q = y div k"
  define m where "m = y mod k"
  have y: "y = k * q + m" and m: "0 \<le> m" "m < k"
    using assms by (simp_all add: q_def m_def)
  show ?thesis
  proof (cases "m = 0")
    case True
    then have "y - 1 = k * (q - 1) + (k - 1)" using y by (simp add: algebra_simps)
    then have "(y - 1) div k = q - 1" by (rule int_div_pos_eq) (use assms in auto)
    with True show ?thesis by (simp add: q_def m_def)
  next
    case False
    then have "y - 1 = k * q + (m - 1)" using y by simp
    then have "(y - 1) div k = q" by (rule int_div_pos_eq) (use m False in auto)
    with False show ?thesis by (simp add: q_def m_def)
  qed
qed

lemma year_start_Suc: "year_start (y + 1) = year_start y + year_len y"
proof -
  define p where "p k = (y - 1) div k" for k
  have "y div k = p k + (if y mod k = 0 then 1 else 0)" if "0 < k" for k
    unfolding p_def by (rule div_pred [OF that])
  then have div: "y div 4 = p 4 + (if y mod 4 = 0 then 1 else 0)"
    "y div 100 = p 100 + (if y mod 100 = 0 then 1 else 0)"
    "y div 400 = p 400 + (if y mod 400 = 0 then 1 else 0)"
    by simp_all
  have sub: "y mod 400 = 0 \<Longrightarrow> y mod 100 = 0" "y mod 100 = 0 \<Longrightarrow> y mod 4 = 0"
    using mod_mod_cancel [of 100 400 y] mod_mod_cancel [of 4 100 y] by auto
  have "year_start (y + 1) = 365 * y + y div 4 - y div 100 + y div 400"
    by (simp add: year_start_def)
  also have "\<dots> = 365 * y + (p 4 + (if y mod 4 = 0 then 1 else 0)) - (p 100 + (if y mod 100 = 0 then 1 else 0))
      + (p 400 + (if y mod 400 = 0 then 1 else 0))"
    by (simp only: div)
  also have "\<dots> = (365 * (y - 1) + p 4 - p 100 + p 400) + (if y mod 4 = 0 \<and> (y mod 100 \<noteq> 0 \<or> y mod 400 = 0) then 366 else 365)"
    using sub by (cases "y mod 4 = 0"; cases "y mod 100 = 0"; cases "y mod 400 = 0") (simp_all only: if_True if_False, simp_all)
  finally show ?thesis
    unfolding year_start_def [of y] year_len_def is_leap_def p_def .
qed

lemma year_start_mono: "y < z \<Longrightarrow> year_start y + year_len y \<le> year_start z"
proof (induction "nat (z - y)" arbitrary: z rule: less_induct)
  case less
  show ?case
  proof (cases "z = y + 1")
    case True
    then show ?thesis by (simp add: year_start_Suc)
  next
    case False
    with less.prems have "y < z - 1" by simp
    with less.hyps [of "z - 1"] have "year_start y + year_len y \<le> year_start (z - 1)"
      by simp
    also have "\<dots> \<le> year_start z"
      using year_start_Suc [of "z - 1"] by (simp add: year_len_def split: if_splits)
    finally show ?thesis .
  qed
qed

text \<open>The year of a day, in steps of 400, 100, 4 and 1 years, and the day within it.\<close>

definition year_of :: "int \<Rightarrow> int" where
  "year_of d0 =
     (let n400 = d0 div 146097; d1 = d0 mod 146097;
          n100 = min 3 (d1 div 36524); d2 = d1 - 36524 * n100;
          n4 = d2 div 1461; d3 = d2 mod 1461;
          n1 = min 3 (d3 div 365)
      in 400 * n400 + 100 * n100 + 4 * n4 + n1 + 1)"

lemma year_split:
  assumes "0 \<le> b" "b \<le> 3" "0 \<le> g" "g \<le> 24" "0 \<le> e" "e \<le> (3::int)"
  shows "year_start (400 * a + 100 * b + 4 * g + e + 1) = 146097 * a + 36524 * b + 1461 * g + 365 * e"
proof -
  have "(400 * a + 100 * b + 4 * g + e) div 4 = 100 * a + 25 * b + g"
    by (rule int_div_pos_eq [of _ _ _ e]) (use assms in auto)
  moreover have "(400 * a + 100 * b + 4 * g + e) div 100 = 4 * a + b"
    by (rule int_div_pos_eq [of _ _ _ "4 * g + e"]) (use assms in auto)
  moreover have "(400 * a + 100 * b + 4 * g + e) div 400 = a"
    by (rule int_div_pos_eq [of _ _ _ "100 * b + 4 * g + e"]) (use assms in auto)
  ultimately show ?thesis by (simp add: year_start_def)
qed

lemma leap_split:
  assumes "0 \<le> b" "b \<le> 3" "0 \<le> g" "g \<le> 24" "0 \<le> e" "e \<le> (3::int)"
  shows "is_leap (400 * a + 100 * b + 4 * g + e + 1) \<longleftrightarrow> e = 3 \<and> (g \<noteq> 24 \<or> b = 3)"
proof -
  let ?y = "400 * a + 100 * b + 4 * g + e + 1"
  have "?y = (e + 1) + 4 * (100 * a + 25 * b + g)" by simp
  then have m4: "?y mod 4 = (e + 1) mod 4" by (metis mod_mult_self2)
  have m100: "?y mod 100 = (4 * g + e + 1) mod 100"
    using mod_mult_self2 [of "4 * g + e + 1" 100 "4 * a + b"] by (simp add: algebra_simps)
  have m400: "?y mod 400 = (100 * b + 4 * g + e + 1) mod 400"
    using mod_mult_self2 [of "100 * b + 4 * g + e + 1" 400 a] by (simp add: algebra_simps)
  have "(e + 1) mod 4 = 0 \<longleftrightarrow> e = 3"
    using assms by (cases "e = 3") auto
  moreover have "e = 3 \<Longrightarrow> (4 * g + e + 1) mod 100 = 0 \<longleftrightarrow> g = 24"
    using assms by (cases "g = 24") auto
  moreover have "e = 3 \<Longrightarrow> g = 24 \<Longrightarrow> (100 * b + 4 * g + e + 1) mod 400 = 0 \<longleftrightarrow> b = 3"
    using assms by (cases "b = 3") auto
  ultimately show ?thesis unfolding is_leap_def m4 m100 m400 by (cases "e = 3"; cases "g = 24") simp_all
qed

lemma year_of_bounds: "year_start (year_of d) \<le> d \<and> d < year_start (year_of d) + year_len (year_of d)"
proof -
  define a where "a = d div 146097"
  define d1 where "d1 = d mod 146097"
  define b where "b = min 3 (d1 div 36524)"
  define d2 where "d2 = d1 - 36524 * b"
  define g where "g = d2 div 1461"
  define d3 where "d3 = d2 mod 1461"
  define e where "e = min 3 (d3 div 365)"
  have d1: "0 \<le> d1" "d1 < 146097" "d = 146097 * a + d1"
    by (simp_all add: d1_def a_def)
  have b: "0 \<le> b" "b \<le> 3" using d1 by (auto simp: b_def)
  have d2: "0 \<le> d2" "d2 < 36525" "b < 3 \<Longrightarrow> d2 < 36524"
    using d1 by (auto simp: d2_def b_def min_def split: if_splits)
  have g: "0 \<le> g" "g \<le> 24" using d2 by (auto simp: g_def)
  have d3: "0 \<le> d3" "d3 < 1461" "d2 = 1461 * g + d3"
    by (simp_all add: d3_def g_def)
  have e: "0 \<le> e" "e \<le> 3" using d3 by (auto simp: e_def)
  have d4: "0 \<le> d3 - 365 * e" "d3 - 365 * e < (if e = 3 then 366 else 365)"
    using d3 by (auto simp: e_def min_def split: if_splits)
  have last: "d3 - 365 * e < 365" if "e = 3" "g = 24" "b < 3"
    using that d2 d3 by simp
  have y: "year_of d = 400 * a + 100 * b + 4 * g + e + 1"
    unfolding year_of_def Let_def a_def d1_def b_def d2_def g_def d3_def e_def by (rule refl)
  have "d = year_start (year_of d) + (d3 - 365 * e)"
    unfolding y year_split [OF b g e] using d1 d3 by (simp add: d2_def)
  moreover have "d3 - 365 * e < year_len (year_of d)"
    using d4 last b g e unfolding year_len_def y leap_split [OF b g e] by (auto split: if_splits)
  ultimately show ?thesis using d4(1) by linarith
qed

lemma year_of_mono: "d < d' \<Longrightarrow> year_of d \<le> year_of d'"
  using year_of_bounds [of d] year_of_bounds [of d'] year_start_mono [of "year_of d'" "year_of d"]
  by (cases "year_of d \<le> year_of d'") auto

lemma year_of_unique: "year_start y \<le> d \<Longrightarrow> d < year_start y + year_len y \<Longrightarrow> year_of d = y"
  using year_of_bounds [of d] year_start_mono [of y "year_of d"] year_start_mono [of "year_of d" y]
  by (cases "year_of d" y rule: linorder_cases) auto

text \<open>Months: the days before the month in its year.\<close>

definition month_start :: "bool \<Rightarrow> int \<Rightarrow> int" where
  "month_start leap m =
     (if m \<le> 1 then 0 else if m = 2 then 31
      else (if leap then 1 else 0) +
        (if m = 3 then 59 else if m = 4 then 90 else if m = 5 then 120 else if m = 6 then 151
         else if m = 7 then 181 else if m = 8 then 212 else if m = 9 then 243 else if m = 10 then 273
         else if m = 11 then 304 else if m = 12 then 334 else 365))"

definition month_of :: "bool \<Rightarrow> int \<Rightarrow> int" where
  "month_of leap yd =
     (if yd < month_start leap 2 then 1 else if yd < month_start leap 3 then 2
      else if yd < month_start leap 4 then 3 else if yd < month_start leap 5 then 4
      else if yd < month_start leap 6 then 5 else if yd < month_start leap 7 then 6
      else if yd < month_start leap 8 then 7 else if yd < month_start leap 9 then 8
      else if yd < month_start leap 10 then 9 else if yd < month_start leap 11 then 10
      else if yd < month_start leap 12 then 11 else 12)"

definition month_len :: "bool \<Rightarrow> int \<Rightarrow> int" where
  "month_len leap m = month_start leap (m + 1) - month_start leap m"

lemma month_range: "1 \<le> month_of leap yd \<and> month_of leap yd \<le> 12"
  by (simp add: month_of_def)

lemma month_of_bounds:
  assumes "0 \<le> yd" and "yd < (if leap then 366 else 365)"
  shows "month_start leap (month_of leap yd) \<le> yd \<and> yd < month_start leap (month_of leap yd + 1)"
  using assms by (cases leap) (simp_all add: month_of_def month_start_def)

lemma month_start_mono: "1 \<le> m \<Longrightarrow> m < n \<Longrightarrow> n \<le> 13 \<Longrightarrow> month_start leap (m + 1) \<le> month_start leap n"
proof -
  assume "1 \<le> m" "m < n" "n \<le> 13"
  moreover from this have "m = 1 \<or> m = 2 \<or> m = 3 \<or> m = 4 \<or> m = 5 \<or> m = 6 \<or> m = 7 \<or> m = 8 \<or> m = 9
      \<or> m = 10 \<or> m = 11 \<or> m = 12"
    by arith
  ultimately show ?thesis by (elim disjE) (simp_all add: month_start_def)
qed

section \<open>Dates\<close>

text \<open>The date of a day count, and the day count of a date.\<close>

definition date_of :: "int \<Rightarrow> int \<times> int \<times> int" where
  "date_of d =
     (let y = year_of d; yd = d - year_start y; m = month_of (is_leap y) yd
      in (y, m, yd - month_start (is_leap y) m + 1))"

definition day_of :: "int \<Rightarrow> int \<Rightarrow> int \<Rightarrow> int" where
  "day_of y m dd = year_start y + month_start (is_leap y) m + dd - 1"

definition valid_date :: "int \<Rightarrow> int \<Rightarrow> int \<Rightarrow> bool" where
  "valid_date y m dd \<longleftrightarrow> 1 \<le> m \<and> m \<le> 12 \<and> 1 \<le> dd \<and> dd \<le> month_len (is_leap y) m"

lemma month_start_13: "month_start leap 13 = (if leap then 366 else 365)"
  by (simp add: month_start_def)

lemma date_of_valid:
  assumes "date_of d = (y, m, dd)"
  shows "valid_date y m dd \<and> day_of y m dd = d"
proof -
  let ?yd = "d - year_start (year_of d)"
  have yd: "0 \<le> ?yd" "?yd < (if is_leap (year_of d) then 366 else 365)"
    using year_of_bounds [of d] by (auto simp: year_len_def)
  show ?thesis
    using month_of_bounds [OF yd] month_range [of "is_leap (year_of d)" ?yd] assms
    by (auto simp: date_of_def valid_date_def day_of_def month_len_def Let_def)
qed

lemma day_in_year:
  assumes "valid_date y m dd"
  shows "year_start y \<le> day_of y m dd \<and> day_of y m dd < year_start y + year_len y"
proof -
  have "month_start (is_leap y) (m + 1) \<le> month_start (is_leap y) 13"
    using assms month_start_mono [of m 13] by (auto simp: valid_date_def)
  moreover have "0 \<le> month_start (is_leap y) m" by (simp add: month_start_def)
  ultimately show ?thesis
    using assms by (auto simp: valid_date_def day_of_def month_len_def year_len_def month_start_13)
qed

lemma day_of_less:
  assumes "valid_date y m dd" and "valid_date y' m' dd'" and "(y, m, dd) < (y', m', dd')"
  shows "day_of y m dd < day_of y' m' dd'"
proof -
  from assms(3) consider "y < y'" | "y = y'" "m < m'" | "y = y'" "m = m'" "dd < dd'"
    by (cases "y = y'"; cases "m = m'") auto
  then show ?thesis
  proof cases
    case 1
    then show ?thesis
      using day_in_year [OF assms(1)] day_in_year [OF assms(2)] year_start_mono [OF 1] by linarith
  next
    case 2
    then have "month_start (is_leap y) (m + 1) \<le> month_start (is_leap y) m'"
      using assms by (intro month_start_mono) (auto simp: valid_date_def)
    with 2 assms(1,2) show ?thesis by (auto simp: valid_date_def day_of_def month_len_def)
  next
    case 3
    then show ?thesis by (simp add: day_of_def)
  qed
qed

lemma day_of_inj:
  "valid_date y m dd \<Longrightarrow> valid_date y' m' dd' \<Longrightarrow> day_of y m dd = day_of y' m' dd' \<Longrightarrow> (y, m, dd) = (y', m', dd')"
  using day_of_less [of y m dd y' m' dd'] day_of_less [of y' m' dd' y m dd]
  by (cases "(y, m, dd)" "(y', m', dd')" rule: linorder_cases) auto

lemma date_of_day_of:
  assumes "valid_date y m dd"
  shows "date_of (day_of y m dd) = (y, m, dd)"
proof -
  obtain y' m' dd' where d: "date_of (day_of y m dd) = (y', m', dd')" by (metis prod_cases3)
  have v: "valid_date y' m' dd'" and e: "day_of y m dd = day_of y' m' dd'"
    using date_of_valid [OF d] by simp_all
  from day_of_inj [OF assms v e] d show ?thesis by simp
qed

lemma date_of_less_iff: "date_of d < date_of d' \<longleftrightarrow> d < d'"
proof -
  obtain y m dd where e: "date_of d = (y, m, dd)" by (metis prod_cases3)
  obtain y' m' dd' where e': "date_of d' = (y', m', dd')" by (metis prod_cases3)
  note v = date_of_valid [OF e] date_of_valid [OF e']
  have "date_of d < date_of d' \<Longrightarrow> d < d'"
    using day_of_less [of y m dd y' m' dd'] v e e' by simp
  moreover have "date_of d' < date_of d \<Longrightarrow> d' < d"
    using day_of_less [of y' m' dd' y m dd] v e e' by simp
  moreover have "date_of d = date_of d' \<Longrightarrow> d = d'"
    using v e e' by simp
  ultimately show ?thesis
    by (cases "date_of d" "date_of d'" rule: linorder_cases) auto
qed

lemma date_of_eq_iff: "date_of d = date_of d' \<longleftrightarrow> d = d'"
  using date_of_less_iff [of d d'] date_of_less_iff [of d' d] by (cases d d' rule: linorder_cases) auto

end
