(* ===== verification/Go_Time.thy ===== *)
theory Go_Time
  imports Go_Calendar "HOL-Library.Monad_Syntax"
begin

text \<open>
  \<^verbatim>\<open>Format(time.RFC3339)\<close> of a UTC instant, the RFC 3339 form with fractional seconds that
  JSON uses, and \<^verbatim>\<open>time.Parse(time.RFC3339, s)\<close>. The lemmas show that parsing inverts both
  formats in the years 0 to 9999, and that the text order of formatted instants is the order
  of their seconds: the SQLite store compares these texts.
\<close>

section \<open>Formatting\<close>

definition secs :: "time \<Rightarrow> int" where
  "secs t = t div second"

definition date_at :: "time \<Rightarrow> int \<times> int \<times> int" where
  "date_at t = date_of (secs t div 86400 + unix_day)"

definition format_secs :: "time \<Rightarrow> string" where
  "format_secs t =
     (let (y, m, d) = date_at t; s = secs t mod 86400
      in append_int y 4 @ ''-'' @ append_int m 2 @ ''-'' @ append_int d 2 @ ''T'' @
         append_int (s div 3600) 2 @ '':'' @ append_int (s mod 3600 div 60) 2 @ '':'' @
         append_int (s mod 60) 2)"

definition Format_RFC3339 :: "time \<Rightarrow> string" where
  "Format_RFC3339 t = format_secs t @ ''Z''"

text \<open>The digits of \<open>n / 10 ^ w\<close> after the point, without trailing zeros.\<close>

fun frac_digits :: "nat \<Rightarrow> int \<Rightarrow> string" where
  "frac_digits 0 n = []"
| "frac_digits (Suc w) n =
     (if n = 0 then [] else digit (n div 10 ^ w) # frac_digits w (n mod 10 ^ w))"

definition Format_RFC3339Nano :: "time \<Rightarrow> string" where
  "Format_RFC3339Nano t =
     format_secs t @ (if t mod second = 0 then [] else CHR ''.'' # frac_digits 9 (t mod second)) @ ''Z''"

text \<open>The instants whose year has four digits.\<close>

definition year_ok :: "time \<Rightarrow> bool" where
  "year_ok t \<longleftrightarrow> 0 \<le> fst (date_at t) \<and> fst (date_at t) \<le> 9999"

text \<open>\<^verbatim>\<open>time.Time{}\<close>: 1 January of the year 1.\<close>

definition zero_time :: time where
  "zero_time = - unix_day * 86400 * second"

section \<open>Parsing\<close>

definition get2 :: "string \<Rightarrow> (int \<times> string) option" where
  "get2 s = (case s of a # b # r \<Rightarrow> if is_digit a \<and> is_digit b then Some (10 * dval a + dval b, r) else None
             | _ \<Rightarrow> None)"

text \<open>\<^verbatim>\<open>getnum(value, false)\<close>: the layout's hour takes one digit or two.\<close>

definition get_hour :: "string \<Rightarrow> (int \<times> string) option" where
  "get_hour s =
     (case s of
        a # r \<Rightarrow>
          if \<not> is_digit a then None
          else (case r of
                  b # r' \<Rightarrow> if is_digit b then Some (10 * dval a + dval b, r') else Some (dval a, r)
                | [] \<Rightarrow> Some (dval a, r))
      | [] \<Rightarrow> None)"

definition get4 :: "string \<Rightarrow> (int \<times> string) option" where
  "get4 s = do { (a, r) \<leftarrow> get2 s; (b, r') \<leftarrow> get2 r; Some (100 * a + b, r') }"

definition expect :: "char \<Rightarrow> string \<Rightarrow> string option" where
  "expect ch s = (case s of a # r \<Rightarrow> if a = ch then Some r else None | [] \<Rightarrow> None)"

fun frac_val :: "nat \<Rightarrow> string \<Rightarrow> int" where
  "frac_val (Suc w) (d # ds) = dval d * 10 ^ w + frac_val w ds"
| "frac_val _ _ = 0"

definition get_frac :: "string \<Rightarrow> int \<times> string" where
  "get_frac s =
     (case s of
        p # d # r \<Rightarrow>
          if (p = CHR ''.'' \<or> p = CHR '','') \<and> is_digit d
          then (frac_val 9 (takeWhile is_digit (d # r)), dropWhile is_digit (d # r))
          else (0, s)
      | _ \<Rightarrow> (0, s))"

definition get_zone :: "string \<Rightarrow> (int \<times> string) option" where
  "get_zone s =
     (case s of
        [] \<Rightarrow> None
      | z # r \<Rightarrow>
          if z = CHR ''Z'' then Some (0, r)
          else do {
            (hh, r) \<leftarrow> get2 r; r \<leftarrow> expect CHR '':'' r; (mm, r) \<leftarrow> get2 r;
            if hh \<le> 24 \<and> mm \<le> 60 \<and> (z = CHR ''+'' \<or> z = CHR ''-'')
            then Some ((if z = CHR ''+'' then 1 else -1) * (hh * 60 + mm) * 60, r) else None })"

definition Parse_RFC3339 :: "string \<Rightarrow> time option" where
  "Parse_RFC3339 s = do {
     (y, s) \<leftarrow> get4 s; s \<leftarrow> expect CHR ''-'' s; (m, s) \<leftarrow> get2 s; s \<leftarrow> expect CHR ''-'' s;
     (d, s) \<leftarrow> get2 s; s \<leftarrow> expect CHR ''T'' s; (hh, s) \<leftarrow> get_hour s; s \<leftarrow> expect CHR '':'' s;
     (mm, s) \<leftarrow> get2 s; s \<leftarrow> expect CHR '':'' s; (ss, s) \<leftarrow> get2 s;
     let (ns, s) = get_frac s;
     (off, s) \<leftarrow> get_zone s;
     if s = [] \<and> valid_date y m d \<and> hh < 24 \<and> mm < 60 \<and> ss < 60
     then Some (((day_of y m d - unix_day) * 86400 + hh * 3600 + mm * 60 + ss - off) * second + ns)
     else None }"

section \<open>Parsing inverts formatting\<close>

lemma get2_pad2: "0 \<le> n \<Longrightarrow> n < 100 \<Longrightarrow> get2 (pad2 n @ r) = Some (n, r)"
proof -
  assume n: "0 \<le> n" "n < 100"
  then have "0 \<le> n div 10" "n div 10 \<le> 9" "0 \<le> n mod 10" "n mod 10 \<le> 9" by auto
  then show ?thesis by (simp add: get2_def pad2_def)
qed

lemma get_hour_pad2: "0 \<le> n \<Longrightarrow> n < 100 \<Longrightarrow> get_hour (pad2 n @ r) = Some (n, r)"
proof -
  assume n: "0 \<le> n" "n < 100"
  then have "0 \<le> n div 10" "n div 10 \<le> 9" "0 \<le> n mod 10" "n mod 10 \<le> 9" by auto
  then show ?thesis by (simp add: get_hour_def pad2_def)
qed

lemma get4_pad: "0 \<le> n \<Longrightarrow> n < 10000 \<Longrightarrow> get4 (pad2 (n div 100) @ pad2 (n mod 100) @ r) = Some (n, r)"
  by (simp add: get4_def get2_pad2)

lemma expect_Cons [simp]: "expect ch (ch # r) = Some r"
  by (simp add: expect_def)

lemma top_digit:
  assumes "0 \<le> n" and "n < 10 ^ Suc w"
  shows "0 \<le> n div 10 ^ w \<and> n div 10 ^ w \<le> (9::int)"
proof -
  have "\<not> 10 \<le> n div 10 ^ w"
  proof
    assume "10 \<le> n div 10 ^ w"
    then have "10 * 10 ^ w \<le> n div 10 ^ w * 10 ^ w" by (intro mult_right_mono) auto
    also have "\<dots> \<le> n" by (metis pos_mod_sign zero_less_power zero_less_numeral div_mult_mod_eq le_add_same_cancel1)
    finally show False using assms by simp
  qed
  with assms show ?thesis by (simp add: pos_imp_zdiv_nonneg_iff)
qed

lemma frac_val_digits: "0 \<le> n \<Longrightarrow> n < 10 ^ w \<Longrightarrow> frac_val w (frac_digits w n) = n"
proof (induction w arbitrary: n)
  case 0
  then show ?case by simp
next
  case (Suc w)
  with top_digit [OF Suc.prems] show ?case by (simp add: div_mult_mod_eq)
qed

lemma frac_digits_digits: "0 \<le> n \<Longrightarrow> n < 10 ^ w \<Longrightarrow> \<forall>ch \<in> set (frac_digits w n). is_digit ch"
proof (induction w arbitrary: n)
  case 0
  then show ?case by simp
next
  case (Suc w)
  with top_digit [OF Suc.prems] Suc.IH [of "n mod 10 ^ w"] show ?case by simp
qed

lemma get_frac_digits:
  assumes "0 < n" and "n < second" and "\<not> is_digit z"
  shows "get_frac (CHR ''.'' # frac_digits 9 n @ z # r) = (n, z # r)"
proof -
  have n: "0 \<le> n" "n < 10 ^ 9" using assms by (auto simp: second_def)
  then obtain d ds where ds: "frac_digits 9 n = d # ds"
    using assms(1) by (cases "frac_digits 9 n") (auto simp: eval_nat_numeral)
  have all: "\<forall>ch \<in> set (frac_digits 9 n). is_digit ch" by (rule frac_digits_digits [OF n])
  then have "takeWhile is_digit (frac_digits 9 n @ z # r) = frac_digits 9 n"
    "dropWhile is_digit (frac_digits 9 n @ z # r) = z # r"
    using assms(3) by (simp_all add: takeWhile_append2 dropWhile_append2)
  with all ds frac_val_digits [OF n] show ?thesis
    unfolding get_frac_def by (simp add: ds)
qed

lemma get_frac_none: "get_frac ''Z'' = (0, ''Z'')"
  by (simp add: get_frac_def)

lemma date_at_valid:
  "date_at t = (y, m, d) \<Longrightarrow>
     valid_date y m d \<and> day_of y m d = secs t div 86400 + unix_day \<and> 1 \<le> m \<and> m \<le> 12 \<and> 1 \<le> d \<and> d \<le> 31"
  unfolding date_at_def
  by (frule date_of_valid) (auto simp: valid_date_def month_len_def month_start_def split: if_splits)

lemma clock_fields:
  "0 \<le> secs t mod 86400 div 3600 \<and> secs t mod 86400 div 3600 < 24"
  "0 \<le> secs t mod 86400 mod 3600 div 60 \<and> secs t mod 86400 mod 3600 div 60 < 60"
  "0 \<le> secs t mod 86400 mod 60 \<and> secs t mod 86400 mod 60 < 60"
proof -
  define s where "s = secs t mod 86400"
  have s: "0 \<le> s" "s < 86400" by (simp_all add: s_def)
  define q where "q = s mod 3600"
  have "0 \<le> q" "q < 3600" by (simp_all add: q_def)
  with s show "0 \<le> secs t mod 86400 div 3600 \<and> secs t mod 86400 div 3600 < 24"
    "0 \<le> secs t mod 86400 mod 3600 div 60 \<and> secs t mod 86400 mod 3600 div 60 < 60"
    "0 \<le> secs t mod 86400 mod 60 \<and> secs t mod 86400 mod 60 < 60"
    unfolding s_def [symmetric] q_def [symmetric] by auto
qed

lemma clock_sum: "(s::int) div 3600 * 3600 + s mod 3600 div 60 * 60 + s mod 60 = s"
proof -
  have "s mod 60 = s mod 3600 mod 60" by (simp add: mod_mod_cancel)
  then have "s mod 3600 div 60 * 60 + s mod 60 = s mod 3600" by (metis div_mult_mod_eq)
  then show ?thesis by (metis add.assoc div_mult_mod_eq)
qed

text \<open>The fields of a formatted instant, each of a fixed width.\<close>

lemma format_secs_pads:
  assumes "year_ok t" and "date_at t = (y, m, d)"
  shows "format_secs t = pad2 (y div 100) @ pad2 (y mod 100) @ ''-'' @ pad2 m @ ''-'' @ pad2 d @ ''T'' @
     pad2 (secs t mod 86400 div 3600) @ '':'' @ pad2 (secs t mod 86400 mod 3600 div 60) @ '':'' @
     pad2 (secs t mod 86400 mod 60)"
  using assms date_at_valid [OF assms(2)] clock_fields [of t]
  by (simp add: format_secs_def year_ok_def append_int_2 append_int_4 Let_def)

lemma Parse_fields:
  assumes "0 \<le> yh" "yh < 100" "0 \<le> yl" "yl < 100" "valid_date (100 * yh + yl) m d" "0 \<le> m" "m < 100" "0 \<le> d" "d < 100"
    and "0 \<le> hh" "hh < 24" "0 \<le> mm" "mm < 60" "0 \<le> ss" "ss < 60" and "get_frac z = (ns, ''Z'')"
  shows "Parse_RFC3339 (pad2 yh @ pad2 yl @ ''-'' @ pad2 m @ ''-'' @ pad2 d @ ''T'' @
      pad2 hh @ '':'' @ pad2 mm @ '':'' @ pad2 ss @ z)
    = Some (((day_of (100 * yh + yl) m d - unix_day) * 86400 + hh * 3600 + mm * 60 + ss) * second + ns)"
proof -
  have "get_zone ''Z'' = Some (0, [])" by (simp add: get_zone_def)
  with assms show ?thesis
    by (simp add: Parse_RFC3339_def get4_def get2_pad2 get_hour_pad2)
qed

lemma Parse_format_secs:
  assumes "year_ok t" and "get_frac z = (ns, ''Z'')"
  shows "Parse_RFC3339 (format_secs t @ z) = Some (secs t * second + ns)"
proof -
  obtain y m d where D: "date_at t = (y, m, d)" by (metis prod_cases3)
  note v = date_at_valid [OF D]
  define s where "s = secs t mod 86400"
  define day where "day = secs t div 86400"
  have f: "0 \<le> s div 3600 \<and> s div 3600 < 24" "0 \<le> s mod 3600 div 60 \<and> s mod 3600 div 60 < 60"
    "0 \<le> s mod 60 \<and> s mod 60 < 60"
    using clock_fields [of t] unfolding s_def by blast+
  have y: "100 * (y div 100) + y mod 100 = y" "0 \<le> y div 100" "y div 100 < 100" "0 \<le> y mod 100" "y mod 100 < 100"
    using assms(1) D by (auto simp: year_ok_def)
  have sum: "day * 86400 + s div 3600 * 3600 + s mod 3600 div 60 * 60 + s mod 60 = secs t"
    using clock_sum [of s] div_mult_mod_eq [of "secs t" 86400] unfolding s_def day_def by linarith
  have "Parse_RFC3339 (format_secs t @ z)
      = Some (((day_of y m d - unix_day) * 86400 + s div 3600 * 3600 + s mod 3600 div 60 * 60 + s mod 60) * second + ns)"
    using Parse_fields [of "y div 100" "y mod 100" m d "s div 3600" "s mod 3600 div 60" "s mod 60" z ns] v y f assms(2)
    unfolding format_secs_pads [OF assms(1) D] s_def [symmetric] y(1) append_assoc by auto
  also have "day_of y m d - unix_day = day" using v by (simp add: day_def)
  finally show ?thesis unfolding sum .
qed

lemma Parse_Format:
  "year_ok t \<Longrightarrow> Parse_RFC3339 (Format_RFC3339 t) = Some (secs t * second)"
  using Parse_format_secs [OF _ get_frac_none] by (simp add: Format_RFC3339_def)

lemma secs_second: "secs t * second + t mod second = t"
  by (simp add: secs_def)

lemma Parse_FormatNano:
  assumes "year_ok t"
  shows "Parse_RFC3339 (Format_RFC3339Nano t) = Some t"
proof (cases "t mod second = 0")
  case True
  then show ?thesis
    using Parse_format_secs [OF assms get_frac_none] secs_second [of t] by (simp add: Format_RFC3339Nano_def)
next
  case False
  moreover have "0 \<le> t mod second" "t mod second < second" by (simp_all add: second_def)
  ultimately have "get_frac (CHR ''.'' # frac_digits 9 (t mod second) @ ''Z'') = (t mod second, ''Z'')"
    by (intro get_frac_digits) (auto simp: is_digit_def)
  from Parse_format_secs [OF assms this] False show ?thesis
    by (simp add: Format_RFC3339Nano_def secs_second)
qed

section \<open>Text order is time order\<close>

lemma less_append_iff:
  fixes a b x y :: "'a::linorder list"
  assumes "length a = length b"
  shows "a @ x < b @ y \<longleftrightarrow> a < b \<or> (a = b \<and> x < y)"
  using assms by (induction a b rule: list_induct2) auto

lemma lex_div_mod:
  fixes a b k :: int
  assumes "0 < k"
  shows "a div k < b div k \<or> (a div k = b div k \<and> a mod k < b mod k) \<longleftrightarrow> a < b"
proof
  assume "a div k < b div k \<or> (a div k = b div k \<and> a mod k < b mod k)"
  then show "a < b"
    using zdiv_mono1 [of b a k] assms
    by (metis div_mult_mod_eq linorder_not_le add_less_cancel_left)
next
  assume "a < b"
  then have "a div k \<le> b div k" using assms by (intro zdiv_mono1) auto
  then show "a div k < b div k \<or> (a div k = b div k \<and> a mod k < b mod k)"
    using \<open>a < b\<close> by (metis div_mult_mod_eq add_less_cancel_left order_le_less)
qed

lemma lex_div_mod_rest:
  fixes a b k :: int
  assumes "0 < k"
  shows "a div k < b div k \<or> (a div k = b div k \<and> (a mod k < b mod k \<or> (a mod k = b mod k \<and> R)))
    \<longleftrightarrow> a < b \<or> (a = b \<and> R)"
  using lex_div_mod [OF assms, of a b] by (metis div_mult_mod_eq)

lemma pad2_less_iff:
  assumes "0 \<le> a" "a < 100" "0 \<le> b" "b < 100"
  shows "pad2 a < pad2 b \<longleftrightarrow> a < b"
proof -
  have d: "0 \<le> a div 10" "a div 10 \<le> 9" "0 \<le> b div 10" "b div 10 \<le> 9"
    "0 \<le> a mod 10" "a mod 10 \<le> 9" "0 \<le> b mod 10" "b mod 10 \<le> 9"
    using assms by auto
  have "pad2 a < pad2 b \<longleftrightarrow> a div 10 < b div 10 \<or> (a div 10 = b div 10 \<and> a mod 10 < b mod 10)"
    unfolding pad2_def less_list_code less_char_def
    by (simp add: digit_less_iff [unfolded less_char_def] digit_eq_iff d)
  also have "\<dots> \<longleftrightarrow> a < b" by (rule lex_div_mod) simp
  finally show ?thesis .
qed

lemma pad2_eq_iff: "0 \<le> a \<Longrightarrow> a < 100 \<Longrightarrow> 0 \<le> b \<Longrightarrow> b < 100 \<Longrightarrow> pad2 a = pad2 b \<longleftrightarrow> a = b"
  using pad2_less_iff [of a b] pad2_less_iff [of b a] by (cases a b rule: linorder_cases) auto

lemma pad2_append_less:
  "0 \<le> a \<Longrightarrow> a < 100 \<Longrightarrow> 0 \<le> b \<Longrightarrow> b < 100 \<Longrightarrow>
     pad2 a @ x < pad2 b @ y \<longleftrightarrow> a < b \<or> (a = b \<and> x < y)"
  by (simp add: less_append_iff pad2_less_iff pad2_eq_iff)

lemma Format_less_iff:
  assumes "year_ok t" and "year_ok u"
  shows "Format_RFC3339 t < Format_RFC3339 u \<longleftrightarrow> secs t < secs u"
proof -
  obtain y m d where D: "date_at t = (y, m, d)" by (metis prod_cases3)
  obtain y' m' d' where D': "date_at u = (y', m', d')" by (metis prod_cases3)
  note v = date_at_valid [OF D] date_at_valid [OF D']
  have y: "0 \<le> y" "y < 10000" "0 \<le> y'" "y' < 10000"
    using assms D D' by (simp_all add: year_ok_def)
  define s where "s = secs t mod 86400"
  define s' where "s' = secs u mod 86400"
  have f: "0 \<le> s div 3600 \<and> s div 3600 < 24" "0 \<le> s mod 3600 div 60 \<and> s mod 3600 div 60 < 60"
    "0 \<le> s mod 60 \<and> s mod 60 < 60" "0 \<le> s' div 3600 \<and> s' div 3600 < 24"
    "0 \<le> s' mod 3600 div 60 \<and> s' mod 3600 div 60 < 60" "0 \<le> s' mod 60 \<and> s' mod 60 < 60"
    using clock_fields [of t] clock_fields [of u] by (simp_all add: s_def s'_def)
  have "Format_RFC3339 t < Format_RFC3339 u \<longleftrightarrow>
      y div 100 < y' div 100 \<or> (y div 100 = y' div 100 \<and>
      (y mod 100 < y' mod 100 \<or> (y mod 100 = y' mod 100 \<and>
      (m < m' \<or> (m = m' \<and>
      (d < d' \<or> (d = d' \<and>
      (s div 3600 < s' div 3600 \<or> (s div 3600 = s' div 3600 \<and>
      (s mod 3600 div 60 < s' mod 3600 div 60 \<or> (s mod 3600 div 60 = s' mod 3600 div 60 \<and>
      s mod 60 < s' mod 60)))))))))))"
    unfolding Format_RFC3339_def format_secs_pads [OF assms(1) D] format_secs_pads [OF assms(2) D']
      s_def [symmetric] s'_def [symmetric]
    using v y f by (simp add: pad2_append_less pad2_less_iff)
  also have "\<dots> \<longleftrightarrow> (y, m, d) < (y', m', d') \<or> ((y, m, d) = (y', m', d') \<and> s < s')"
  proof -
    have 60: "s mod 60 = s mod 3600 mod 60" "s' mod 60 = s' mod 3600 mod 60"
      by (simp_all add: mod_mod_cancel)
    have "y < y' \<or> (y = y' \<and> (m < m' \<or> (m = m' \<and> (d < d' \<or> (d = d' \<and> s < s')))))
        \<longleftrightarrow> (y, m, d) < (y', m', d') \<or> ((y, m, d) = (y', m', d') \<and> s < s')"
      by auto
    then show ?thesis
      unfolding 60 lex_div_mod [of 60, OF zero_less_numeral] lex_div_mod [of 3600, OF zero_less_numeral]
        lex_div_mod_rest [of 100, OF zero_less_numeral] .
  qed
  also have "\<dots> \<longleftrightarrow> secs t div 86400 < secs u div 86400 \<or> (secs t div 86400 = secs u div 86400 \<and> s < s')"
    unfolding D [symmetric] D' [symmetric] date_at_def date_of_less_iff date_of_eq_iff by simp
  also have "\<dots> \<longleftrightarrow> secs t < secs u"
    unfolding s_def s'_def by (rule lex_div_mod) simp
  finally show ?thesis .
qed

lemma Format_eq_iff: "year_ok t \<Longrightarrow> year_ok u \<Longrightarrow> Format_RFC3339 t = Format_RFC3339 u \<longleftrightarrow> secs t = secs u"
  using Format_less_iff [of t u] Format_less_iff [of u t]
  by (cases "secs t" "secs u" rule: linorder_cases) (auto simp: Format_RFC3339_def format_secs_def date_at_def)

text \<open>Truncation to whole seconds, what a formatted instant keeps.\<close>

definition trunc_secs :: "time \<Rightarrow> time" where
  "trunc_secs t = secs t * second"

lemma secs_trunc [simp]: "secs (trunc_secs t) = secs t"
  by (simp add: trunc_secs_def secs_def second_def)

lemma Format_trunc [simp]: "Format_RFC3339 (trunc_secs t) = Format_RFC3339 t"
  by (simp add: Format_RFC3339_def format_secs_def date_at_def)

lemma year_ok_trunc [simp]: "year_ok (trunc_secs t) = year_ok t"
  by (simp add: year_ok_def date_at_def)

end
