(* ===== verification/Go_Json.thy ===== *)
theory Go_Json
  imports Go_Calendar
begin

text \<open>
  The JSON texts that Go's package \<^verbatim>\<open>encoding/json\<close> writes and reads, on byte strings:
  values as syntax trees in which a number keeps its literal, the compact printer with
  Go's string escapes, the parser, and the reading of an object's members as raw texts that
  struct decoding starts from. Bytes from 0x80 on pass through strings unchanged, so texts
  are taken to be valid UTF-8. Parsing inverts printing.
\<close>

section \<open>Values and printing\<close>

datatype json =
    JNull
  | JBool bool
  | JNum string
  | JStr string
  | JArr "json list"
  | JObj "(string \<times> json) list"

definition hex_digit :: "nat \<Rightarrow> char" where
  "hex_digit n = (if n < 10 then char_of (n + 48) else char_of (n + 87))"

definition quote_char :: char where "quote_char = CHR 0x22"
definition backslash :: char where "backslash = CHR 0x5C"

text \<open>\<^verbatim>\<open>appendString\<close> with HTML escaping, as \<^verbatim>\<open>json.Marshal\<close> calls it.\<close>

definition esc_char :: "char \<Rightarrow> string" where
  "esc_char ch =
     (if ch = quote_char \<or> ch = backslash then [backslash, ch]
      else if ch = CHR 0x08 then [backslash, CHR ''b'']
      else if ch = CHR 0x0C then [backslash, CHR ''f'']
      else if ch = CHR 0x0A then [backslash, CHR ''n'']
      else if ch = CHR 0x0D then [backslash, CHR ''r'']
      else if ch = CHR 0x09 then [backslash, CHR ''t'']
      else if (of_char ch :: nat) < 32 \<or> ch = CHR ''<'' \<or> ch = CHR ''>'' \<or> ch = CHR 0x26
           then [backslash, CHR ''u'', CHR ''0'', CHR ''0'',
                 hex_digit (of_char ch div 16), hex_digit (of_char ch mod 16)]
      else [ch])"

definition json_quote :: "string \<Rightarrow> string" where
  "json_quote s = quote_char # concat (map esc_char s) @ [quote_char]"

fun join_with :: "char \<Rightarrow> string list \<Rightarrow> string" where
  "join_with ch [] = []"
| "join_with ch [x] = x"
| "join_with ch (x # y # xs) = x @ ch # join_with ch (y # xs)"

text \<open>An object whose members are given as raw texts.\<close>

definition print_members :: "(string \<times> string) list \<Rightarrow> string" where
  "print_members kvs = ''{'' @ join_with CHR '','' (map (\<lambda>(k, v). json_quote k @ '':'' @ v) kvs) @ ''}''"

lemma size_json_member [termination_simp]:
  "(k, v) \<in> set kvs \<Longrightarrow> size v < Suc (size_list (size_prod (\<lambda>_. 0) size) kvs)"
  by (induction kvs) auto

fun json_print :: "json \<Rightarrow> string" where
  "json_print JNull = ''null''"
| "json_print (JBool b) = (if b then ''true'' else ''false'')"
| "json_print (JNum s) = s"
| "json_print (JStr s) = json_quote s"
| "json_print (JArr xs) = ''['' @ join_with CHR '','' (map json_print xs) @ '']''"
| "json_print (JObj kvs) =
     ''{'' @ join_with CHR '','' (map (\<lambda>(k, v). json_quote k @ '':'' @ json_print v) kvs) @ ''}''"

section \<open>Parsing\<close>

definition is_ws :: "char \<Rightarrow> bool" where
  "is_ws ch \<longleftrightarrow> ch = CHR 0x20 \<or> ch = CHR 0x09 \<or> ch = CHR 0x0A \<or> ch = CHR 0x0D"

definition skip_ws :: "string \<Rightarrow> string" where
  "skip_ws s = dropWhile is_ws s"

definition hex_val :: "char \<Rightarrow> nat option" where
  "hex_val ch =
     (let k = of_char ch
      in if 48 \<le> k \<and> k \<le> 57 then Some (k - 48)
         else if 97 \<le> k \<and> k \<le> 102 then Some (k - 87)
         else if 65 \<le> k \<and> k \<le> 70 then Some (k - 55) else None)"

definition hex4 :: "char \<Rightarrow> char \<Rightarrow> char \<Rightarrow> char \<Rightarrow> nat option" where
  "hex4 a b c d =
     (case (hex_val a, hex_val b, hex_val c, hex_val d) of
        (Some w, Some x, Some y, Some z) \<Rightarrow> Some (((w * 16 + x) * 16 + y) * 16 + z)
      | _ \<Rightarrow> None)"

definition utf8 :: "nat \<Rightarrow> string" where
  "utf8 n =
     (if n < 0x80 then [char_of n]
      else if n < 0x800 then [char_of (0xC0 + n div 64), char_of (0x80 + n mod 64)]
      else if n < 0x10000 then
        [char_of (0xE0 + n div 4096), char_of (0x80 + n div 64 mod 64), char_of (0x80 + n mod 64)]
      else [char_of (0xF0 + n div 262144), char_of (0x80 + n div 4096 mod 64),
            char_of (0x80 + n div 64 mod 64), char_of (0x80 + n mod 64)])"

definition simple_esc :: "char \<Rightarrow> char option" where
  "simple_esc e =
     (if e = quote_char \<or> e = backslash \<or> e = CHR 0x2F then Some e
      else if e = CHR ''b'' then Some (CHR 0x08) else if e = CHR ''f'' then Some (CHR 0x0C)
      else if e = CHR ''n'' then Some (CHR 0x0A) else if e = CHR ''r'' then Some (CHR 0x0D)
      else if e = CHR ''t'' then Some (CHR 0x09) else None)"

text \<open>
  The low half of a surrogate pair, if the text goes on with one; an unpaired surrogate
  reads as U+FFFD.
\<close>

definition low_surrogate :: "string \<Rightarrow> (nat \<times> string) option" where
  "low_surrogate s =
     (case s of
        p # q # a # b # c # d # r \<Rightarrow>
          if p = backslash \<and> q = CHR ''u''
          then (case hex4 a b c d of
                  Some n \<Rightarrow> if 0xDC00 \<le> n \<and> n < 0xE000 then Some (n, r) else None
                | None \<Rightarrow> None)
          else None
      | _ \<Rightarrow> None)"

lemma low_surrogate_shorter [termination_simp]: "low_surrogate s = Some (n, r) \<Longrightarrow> length r < length s"
  by (auto simp: low_surrogate_def split: list.splits if_splits option.splits)

text \<open>The rest of a string literal after its opening quote.\<close>

function string_body :: "string \<Rightarrow> (string \<times> string) option" where
  "string_body [] = None"
| "string_body (ch # r) =
     (if ch = quote_char then Some ([], r)
      else if ch = backslash then
        (case r of
           [] \<Rightarrow> None
         | e # r1 \<Rightarrow>
             (if e = CHR ''u'' then
                (case r1 of
                   a # b # c # d # r2 \<Rightarrow>
                     (case hex4 a b c d of
                        None \<Rightarrow> None
                      | Some n \<Rightarrow>
                          (if 0xD800 \<le> n \<and> n < 0xE000 then
                             (case (if n < 0xDC00 then low_surrogate r2 else None) of
                                Some (m, r3) \<Rightarrow>
                                  map_option (apfst (append (utf8 ((n - 0xD800) * 1024 + (m - 0xDC00) + 0x10000))))
                                    (string_body r3)
                              | None \<Rightarrow> map_option (apfst (append (utf8 0xFFFD))) (string_body r2))
                           else map_option (apfst (append (utf8 n))) (string_body r2)))
                 | _ \<Rightarrow> None)
              else (case simple_esc e of
                      None \<Rightarrow> None
                    | Some x \<Rightarrow> map_option (apfst (Cons x)) (string_body r1))))
      else if (of_char ch :: nat) < 32 then None
      else map_option (apfst (Cons ch)) (string_body r))"
  by pat_completeness auto
termination
  by (relation "measure length") (auto dest: low_surrogate_shorter split: if_splits)

declare string_body.simps(2) [simp del]

text \<open>Number literals: an optional minus, an integer part, a fraction, an exponent.\<close>

definition scan_int :: "string \<Rightarrow> (string \<times> string) option" where
  "scan_int s =
     (case s of
        [] \<Rightarrow> None
      | d # r \<Rightarrow>
          if d = CHR ''0'' then Some ([d], r)
          else if is_digit d then Some (takeWhile is_digit s, dropWhile is_digit s) else None)"

definition scan_frac :: "string \<Rightarrow> (string \<times> string) option" where
  "scan_frac s =
     (case s of
        p # r \<Rightarrow>
          if p = CHR ''.'' then
            (if takeWhile is_digit r = [] then None else Some (p # takeWhile is_digit r, dropWhile is_digit r))
          else Some ([], s)
      | [] \<Rightarrow> Some ([], s))"

definition scan_exp :: "string \<Rightarrow> (string \<times> string) option" where
  "scan_exp s =
     (case s of
        e # r \<Rightarrow>
          if e = CHR ''e'' \<or> e = CHR ''E'' then
            (let sg = (case r of x # _ \<Rightarrow> if x = CHR ''+'' \<or> x = CHR ''-'' then [x] else [] | [] \<Rightarrow> []);
                 r1 = drop (length sg) r
             in if takeWhile is_digit r1 = [] then None
                else Some (e # sg @ takeWhile is_digit r1, dropWhile is_digit r1))
          else Some ([], s)
      | [] \<Rightarrow> Some ([], s))"

definition scan_number :: "string \<Rightarrow> (string \<times> string) option" where
  "scan_number s =
     (let sg = (case s of x # _ \<Rightarrow> if x = CHR ''-'' then [x] else [] | [] \<Rightarrow> [])
      in case scan_int (drop (length sg) s) of
           None \<Rightarrow> None
         | Some (i, r1) \<Rightarrow>
             (case scan_frac r1 of
                None \<Rightarrow> None
              | Some (f, r2) \<Rightarrow>
                  (case scan_exp r2 of None \<Rightarrow> None | Some (x, r3) \<Rightarrow> Some (sg @ i @ f @ x, r3))))"

definition strip_lit :: "string \<Rightarrow> string \<Rightarrow> string option" where
  "strip_lit l s = (if HasPrefix s l then Some (drop (length l) s) else None)"

text \<open>
  A value, the elements of an array after a value or \<^verbatim>\<open>[\<close>, and the members of an object.
  Each call spends one unit of fuel; \<open>json_fuel_enough\<close> below shows that a text's length is
  more than it takes. An object's members carry the raw text of their values.
\<close>

fun json_value :: "nat \<Rightarrow> string \<Rightarrow> (json \<times> string) option"
  and json_elems :: "nat \<Rightarrow> string \<Rightarrow> (json list \<times> string) option"
  and json_members :: "nat \<Rightarrow> string \<Rightarrow> ((string \<times> string \<times> json) list \<times> string) option" where
  "json_value 0 s = None"
| "json_value (Suc n) s =
     (case s of
        [] \<Rightarrow> None
      | ch # r \<Rightarrow>
          if ch = CHR ''n'' then map_option (Pair JNull) (strip_lit ''null'' s)
          else if ch = CHR ''t'' then map_option (Pair (JBool True)) (strip_lit ''true'' s)
          else if ch = CHR ''f'' then map_option (Pair (JBool False)) (strip_lit ''false'' s)
          else if ch = quote_char then map_option (apfst JStr) (string_body r)
          else if ch = CHR ''['' then
            (case skip_ws r of
               x # r1 \<Rightarrow> if x = CHR '']'' then Some (JArr [], r1)
                          else map_option (apfst JArr) (json_elems n (x # r1))
             | [] \<Rightarrow> None)
          else if ch = CHR ''{'' then
            (case skip_ws r of
               x # r1 \<Rightarrow> if x = CHR ''}'' then Some (JObj [], r1)
                          else map_option (apfst (\<lambda>ms. JObj (map (\<lambda>(k, _, v). (k, v)) ms)))
                                 (json_members n (x # r1))
             | [] \<Rightarrow> None)
          else map_option (apfst JNum) (scan_number s))"
| "json_elems 0 s = None"
| "json_elems (Suc n) s =
     (case json_value n s of
        None \<Rightarrow> None
      | Some (v, r) \<Rightarrow>
          (case skip_ws r of
             x # r1 \<Rightarrow> if x = CHR '']'' then Some ([v], r1)
                        else if x = CHR '','' then map_option (apfst (Cons v)) (json_elems n (skip_ws r1))
                        else None
           | [] \<Rightarrow> None))"
| "json_members 0 s = None"
| "json_members (Suc n) s =
     (case s of
        [] \<Rightarrow> None
      | q # r \<Rightarrow>
          if q \<noteq> quote_char then None
          else (case string_body r of
                  None \<Rightarrow> None
                | Some (k, r1) \<Rightarrow>
                    (case skip_ws r1 of
                       [] \<Rightarrow> None
                     | col # r2 \<Rightarrow>
                         if col \<noteq> CHR '':'' then None
                         else (case json_value n (skip_ws r2) of
                                 None \<Rightarrow> None
                               | Some (v, r3) \<Rightarrow>
                                   (let raw = take (length (skip_ws r2) - length r3) (skip_ws r2)
                                    in case skip_ws r3 of
                                         x # r4 \<Rightarrow>
                                           if x = CHR ''}'' then Some ([(k, raw, v)], r4)
                                           else if x = CHR '','' then
                                             map_option (apfst (Cons (k, raw, v))) (json_members n (skip_ws r4))
                                           else None
                                       | [] \<Rightarrow> None)))))"

text \<open>One value at the front of a stream, as \<^verbatim>\<open>Decoder.Decode\<close> reads it, and a whole text, as
  \<^verbatim>\<open>json.Unmarshal\<close> does.\<close>

definition json_prefix :: "string \<Rightarrow> (json \<times> string) option" where
  "json_prefix s = json_value (2 * length s + 1) (skip_ws s)"

definition json_parse :: "string \<Rightarrow> json option" where
  "json_parse s = (case json_prefix s of Some (v, r) \<Rightarrow> if skip_ws r = [] then Some v else None | None \<Rightarrow> None)"

text \<open>
  The members of the object at the front of a text, with the raw texts of their values:
  \<open>Some []\<close> for \<^verbatim>\<open>null\<close>, which leaves a struct as it is, and \<open>None\<close> for any other value.
\<close>

definition members_of :: "string \<Rightarrow> (string \<times> string) list option" where
  "members_of s =
     (case skip_ws s of
        [] \<Rightarrow> None
      | ch # r \<Rightarrow>
          if ch = CHR ''n'' then Some []
          else if ch = CHR ''{'' then
            (case skip_ws r of
               x # r1 \<Rightarrow> if x = CHR ''}'' then Some []
                          else map_option (\<lambda>(ms, _). map (\<lambda>(k, raw, _). (k, raw)) ms)
                                 (json_members (2 * length s + 2) (x # r1))
             | [] \<Rightarrow> None)
          else None)"

definition struct_members :: "string \<Rightarrow> (string \<times> string) list option" where
  "struct_members s = (if json_parse s = None then None else members_of s)"

definition struct_members_prefix :: "string \<Rightarrow> (string \<times> string) list option" where
  "struct_members_prefix s = (if json_prefix s = None then None else members_of s)"

section \<open>The fuel is enough\<close>

lemma skip_ws_le: "length (skip_ws s) \<le> length s"
  by (simp add: skip_ws_def length_dropWhile_le)

lemma skip_ws_Cons: "skip_ws s = x # r \<Longrightarrow> length r < length s"
  using skip_ws_le [of s] by simp

lemma string_body_shorter: "string_body s = Some (x, r) \<Longrightarrow> length r < length s"
proof (induction s arbitrary: x r rule: length_induct)
  case (1 s)
  show ?case
  proof (cases s)
    case Nil
    with "1.prems" show ?thesis by simp
  next
    case (Cons ch r0)
    have IH: "length u < length t" if "string_body t = Some (y, u)" "length t \<le> length r0" for t y u
      using "1.IH" that Cons by (simp add: less_Suc_eq_le)
    from "1.prems" show ?thesis
      unfolding Cons string_body.simps(2)
      by (auto split: if_splits list.splits option.splits prod.splits dest!: low_surrogate_shorter)
        (drule IH; simp)+
  qed
qed

lemma scan_shorter:
  "scan_int t = Some (i, r) \<Longrightarrow> length r < length t"
  "scan_frac t = Some (f, r) \<Longrightarrow> length r \<le> length t"
  "scan_exp t = Some (e, r) \<Longrightarrow> length r \<le> length t"
proof -
  show "scan_int t = Some (i, r) \<Longrightarrow> length r < length t"
    by (auto simp: scan_int_def less_Suc_eq_le intro: length_dropWhile_le split: list.splits if_splits)
  show "scan_frac t = Some (f, r) \<Longrightarrow> length r \<le> length t"
    by (auto simp: scan_frac_def intro: le_SucI length_dropWhile_le split: list.splits if_splits)
  show "scan_exp t = Some (e, r) \<Longrightarrow> length r \<le> length t"
    by (auto simp: scan_exp_def Let_def intro: le_SucI length_dropWhile_le split: list.splits if_splits)
qed

lemma scan_number_shorter: "scan_number s = Some (x, r) \<Longrightarrow> length r < length s"
  by (auto simp: scan_number_def Let_def split: option.splits prod.splits list.splits if_splits
      dest!: scan_shorter)

lemma strip_lit_shorter: "strip_lit (x # l) s = Some r \<Longrightarrow> length r < length s"
  by (auto simp: strip_lit_def HasPrefix_iff split: if_splits)

lemma json_elems_SucE:
  assumes "json_elems (Suc n) s = Some (vs, r)"
  obtains v u x t where "json_value n s = Some (v, u)" "skip_ws u = x # t"
    "x = CHR '']'' \<and> vs = [v] \<and> r = t
     \<or> x = CHR '','' \<and> (\<exists>vs'. json_elems n (skip_ws t) = Some (vs', r) \<and> vs = v # vs')"
  using assms by (auto split: option.splits list.splits if_splits)

lemma json_members_SucE:
  assumes "json_members (Suc n) s = Some (ms, r)"
  obtains t k u w v y x z where "s = quote_char # t" "string_body t = Some (k, u)" "skip_ws u = CHR '':'' # w"
    "json_value n (skip_ws w) = Some (v, y)" "skip_ws y = x # z"
    "x = CHR ''}'' \<and> ms = [(k, take (length (skip_ws w) - length y) (skip_ws w), v)] \<and> r = z
     \<or> x = CHR '','' \<and> (\<exists>ms'. json_members n (skip_ws z) = Some (ms', r)
          \<and> ms = (k, take (length (skip_ws w) - length y) (skip_ws w), v) # ms')"
  using assms by (auto simp: Let_def split: option.splits list.splits if_splits)

lemma json_value_Suc_cases:
  assumes "json_value (Suc n) (ch # t) = Some (v, r)"
  shows "length r \<le> length t
    \<or> (\<exists>x u vs. skip_ws t = x # u \<and> json_elems n (x # u) = Some (vs, r))
    \<or> (\<exists>x u ms. skip_ws t = x # u \<and> json_members n (x # u) = Some (ms, r))"
proof -
  have lit: "length r \<le> length t" if "strip_lit (y # l) (c # t) = Some r" for y l c
    using strip_lit_shorter [OF that] by simp
  have num: "length r \<le> length t" if "scan_number (c # t) = Some (y, r)" for y c
    using scan_number_shorter [OF that] by simp
  have str: "length r \<le> length t" if "string_body t = Some (y, r)" for y
    using string_body_shorter [OF that] by simp
  have closed: "length u \<le> length t" if "skip_ws t = x # u" for x u
    using skip_ws_Cons [OF that] by simp
  from assms show ?thesis
    by (simp split: if_splits list.splits) (auto dest: lit num str closed)
qed

lemma value_shorter_all:
  "(\<forall>s v r. json_value n s = Some (v, r) \<longrightarrow> length r < length s)
   \<and> (\<forall>s vs r. json_elems n s = Some (vs, r) \<longrightarrow> length r < length s)
   \<and> (\<forall>s ms r. json_members n s = Some (ms, r) \<longrightarrow> length r < length s)"
proof (induction n)
  case 0
  then show ?case by simp
next
  case (Suc n)
  have ws: "length u < length s" if "skip_ws s = x # u" for s x u
    by (rule skip_ws_Cons [OF that])
  have le: "length (skip_ws s) \<le> length s" for s
    by (rule skip_ws_le)
  have "length r < length s" if "json_value (Suc n) s = Some (v, r)" for s v r
  proof (cases s)
    case Nil
    with that show ?thesis by simp
  next
    case (Cons ch t)
    have "length (x # u) \<le> length t" if "skip_ws t = x # u" for x u
      using le [of t] that by simp
    moreover have "length r < length (x # u)" if "json_elems n (x # u) = Some (vs, r) \<or> json_members n (x # u) = Some (ms, r)" for x u vs ms
      using that Suc.IH by blast
    ultimately show ?thesis
      using json_value_Suc_cases [OF that [unfolded Cons]] unfolding Cons by fastforce
  qed
  moreover have "length r < length s" if "json_elems (Suc n) s = Some (vs, r)" for s vs r
    using that
  proof (rule json_elems_SucE)
    fix v u x t
    assume "json_value n s = Some (v, u)" and u: "skip_ws u = x # t"
      and fin: "x = CHR '']'' \<and> vs = [v] \<and> r = t
        \<or> x = CHR '','' \<and> (\<exists>vs'. json_elems n (skip_ws t) = Some (vs', r) \<and> vs = v # vs')"
    then have "length u < length s" using Suc.IH by blast
    moreover have "length r \<le> length t"
      using fin Suc.IH le [of t] by (fastforce)
    ultimately show ?thesis using ws [OF u] by simp
  qed
  moreover have "length r < length s" if "json_members (Suc n) s = Some (ms, r)" for s ms r
    using that
  proof (rule json_members_SucE)
    fix t k u w v y x z
    assume s: "s = quote_char # t" and k: "string_body t = Some (k, u)" and w: "skip_ws u = CHR '':'' # w"
      and v: "json_value n (skip_ws w) = Some (v, y)" and z: "skip_ws y = x # z"
      and fin: "x = CHR ''}'' \<and> ms = [(k, take (length (skip_ws w) - length y) (skip_ws w), v)] \<and> r = z
       \<or> x = CHR '','' \<and> (\<exists>ms'. json_members n (skip_ws z) = Some (ms', r)
          \<and> ms = (k, take (length (skip_ws w) - length y) (skip_ws w), v) # ms')"
    have "length y < length (skip_ws w)" using Suc.IH v by blast
    moreover have "length r \<le> length z" using fin Suc.IH le [of z] by fastforce
    ultimately show ?thesis
      using s string_body_shorter [OF k] ws [OF w] ws [OF z] le [of w] by simp
  qed
  ultimately show ?case by blast
qed

lemma value_shorter: "json_value n s = Some (v, r) \<Longrightarrow> length r < length s"
  using value_shorter_all by blast

text \<open>More fuel than twice the length never changes the outcome.\<close>

lemma json_fuel_all:
  "(\<forall>s m. 2 * length s < n \<longrightarrow> n \<le> m \<longrightarrow> json_value m s = json_value n s)
   \<and> (\<forall>s m. 2 * length s + 1 < n \<longrightarrow> n \<le> m \<longrightarrow> json_elems m s = json_elems n s)
   \<and> (\<forall>s m. 2 * length s + 1 < n \<longrightarrow> n \<le> m \<longrightarrow> json_members m s = json_members n s)"
proof (induction n)
  case 0
  then show ?case by simp
next
  case (Suc n)
  have V: "json_value m s = json_value n s" if "2 * length s < n" "n \<le> m" for s m
    using Suc.IH that by blast
  have E: "json_elems m s = json_elems n s" if "2 * length s + 1 < n" "n \<le> m" for s m
    using Suc.IH that by blast
  have M: "json_members m s = json_members n s" if "2 * length s + 1 < n" "n \<le> m" for s m
    using Suc.IH that by blast
  have "json_value m s = json_value (Suc n) s" if l: "2 * length s < Suc n" and m: "Suc n \<le> m" for s m
  proof -
    obtain m' where m': "m = Suc m'" "n \<le> m'" using m by (cases m) auto
    show ?thesis
    proof (cases s)
      case Nil
      then show ?thesis by (simp add: m')
    next
      case (Cons ch t)
      have "2 * length (x # u) + 1 < n" if "skip_ws t = x # u" for x u
        using skip_ws_le [of t] that l Cons by simp
      then have "json_elems m' (x # u) = json_elems n (x # u)" "json_members m' (x # u) = json_members n (x # u)"
        if "skip_ws t = x # u" for x u
        using that E M m' by blast+
      then show ?thesis unfolding m' Cons by (simp split: list.split)
    qed
  qed
  moreover have "json_elems m s = json_elems (Suc n) s" if l: "2 * length s + 1 < Suc n" and m: "Suc n \<le> m" for s m
  proof -
    obtain m' where m': "m = Suc m'" "n \<le> m'" using m by (cases m) auto
    have v: "json_value m' s = json_value n s" by (rule V) (use l m' in simp_all)
    have "json_elems m' (skip_ws u) = json_elems n (skip_ws u)"
      if "json_value n s = Some (v, t)" "skip_ws t = x # u" for v t x u
      using value_shorter [OF that(1)] skip_ws_Cons [OF that(2)] skip_ws_le [of u] l m' by (intro E) auto
    then show ?thesis unfolding m' by (simp add: v split: option.split list.split)
  qed
  moreover have "json_members m s = json_members (Suc n) s" if l: "2 * length s + 1 < Suc n" and m: "Suc n \<le> m" for s m
  proof -
    obtain m' where m': "m = Suc m'" "n \<le> m'" using m by (cases m) auto
    show ?thesis
    proof (cases s)
      case Nil
      then show ?thesis by (simp add: m')
    next
      case (Cons q t)
      have v: "json_value m' (skip_ws w) = json_value n (skip_ws w)"
        if "string_body t = Some (k, u)" "skip_ws u = col # w" for k u col w
        using string_body_shorter [OF that(1)] skip_ws_Cons [OF that(2)] skip_ws_le [of w] l m' Cons
        by (intro V) auto
      have "json_members m' (skip_ws z) = json_members n (skip_ws z)"
        if "string_body t = Some (k, u)" "skip_ws u = col # w" "json_value n (skip_ws w) = Some (v, y)" "skip_ws y = x # z"
        for k u col w v y x z
        using string_body_shorter [OF that(1)] skip_ws_Cons [OF that(2)] skip_ws_le [of w] value_shorter [OF that(3)]
          skip_ws_Cons [OF that(4)] skip_ws_le [of z] l m' Cons
        by (intro M) auto
      then show ?thesis
        unfolding m' Cons by (simp add: v Let_def split: option.split list.split)
    qed
  qed
  ultimately show ?case by blast
qed

lemma json_fuel_enough: "2 * length s < n \<Longrightarrow> json_value n s = json_value (2 * length s + 1) s"
  using json_fuel_all [of "2 * length s + 1"] by auto

section \<open>Parsing inverts printing\<close>

subsection \<open>Strings\<close>

lemma hex_val_digit: "n < 16 \<Longrightarrow> hex_val (hex_digit n) = Some n"
  by (auto simp: hex_val_def hex_digit_def Let_def)

lemma hex4_ascii:
  assumes "(of_char ch :: nat) < 128"
  shows "hex4 CHR ''0'' CHR ''0'' (hex_digit (of_char ch div 16)) (hex_digit (of_char ch mod 16)) = Some (of_char ch)"
proof -
  have "(of_char ch :: nat) div 16 < 16" using assms by simp
  moreover have "hex_val CHR ''0'' = Some 0" by (simp add: hex_val_def)
  ultimately show ?thesis by (simp add: hex4_def hex_val_digit)
qed

lemma utf8_ascii: "(of_char ch :: nat) < 128 \<Longrightarrow> utf8 (of_char ch) = [ch]"
  by (simp add: utf8_def)

lemma quote_backslash [simp]: "backslash \<noteq> quote_char" "quote_char \<noteq> backslash"
  by (simp_all add: quote_char_def backslash_def)

lemma string_body_simple:
  "simple_esc e = Some x \<Longrightarrow> string_body (backslash # e # t) = map_option (apfst (Cons x)) (string_body t)"
  by (subst string_body.simps(2)) (auto simp: simple_esc_def quote_char_def backslash_def)

lemma string_body_u:
  "hex4 a b c d = Some n \<Longrightarrow> n < 0xD800 \<Longrightarrow>
     string_body (backslash # CHR ''u'' # a # b # c # d # t) = map_option (apfst (append (utf8 n))) (string_body t)"
  by (subst string_body.simps(2)) simp

lemma string_body_plain:
  "ch \<noteq> quote_char \<Longrightarrow> ch \<noteq> backslash \<Longrightarrow> \<not> (of_char ch :: nat) < 32 \<Longrightarrow>
     string_body (ch # t) = map_option (apfst (Cons ch)) (string_body t)"
  by (subst string_body.simps(2)) simp

lemma esc_char_cases:
  "(\<exists>e. esc_char ch = [backslash, e] \<and> simple_esc e = Some ch)
   \<or> (esc_char ch = [backslash, CHR ''u'', CHR ''0'', CHR ''0'', hex_digit (of_char ch div 16), hex_digit (of_char ch mod 16)]
      \<and> (of_char ch :: nat) < 128)
   \<or> (esc_char ch = [ch] \<and> ch \<noteq> quote_char \<and> ch \<noteq> backslash \<and> \<not> (of_char ch :: nat) < 32)"
  by (auto simp: esc_char_def simple_esc_def quote_char_def backslash_def)

lemma string_body_esc: "string_body (esc_char ch @ t) = map_option (apfst (Cons ch)) (string_body t)"
  using esc_char_cases [of ch]
proof (elim disjE conjE exE)
  assume e: "esc_char ch = [backslash, CHR ''u'', CHR ''0'', CHR ''0'', hex_digit (of_char ch div 16), hex_digit (of_char ch mod 16)]"
    and s: "(of_char ch :: nat) < 128"
  have "append (utf8 (of_char ch)) = Cons ch" using utf8_ascii [OF s] by auto
  with string_body_u [OF hex4_ascii [OF s]] e s show ?thesis by simp
qed (simp_all add: string_body_simple string_body_plain)

lemma string_body_quote: "string_body (concat (map esc_char s) @ quote_char # r) = Some (s, r)"
  by (induction s) (simp_all add: string_body_esc string_body.simps(2))

subsection \<open>Numbers\<close>

definition num_ok :: "string \<Rightarrow> bool" where
  "num_ok s \<longleftrightarrow> scan_number s = Some (s, [])"

text \<open>What may follow a value inside a printed text.\<close>

definition delim :: "string \<Rightarrow> bool" where
  "delim r \<longleftrightarrow> (case r of [] \<Rightarrow> True | ch # _ \<Rightarrow> ch = CHR '','' \<or> ch = CHR '']'' \<or> ch = CHR ''}'')"

lemma delim_simps [simp]:
  "delim []" "delim (CHR '','' # r)" "delim (CHR '']'' # r)" "delim (CHR ''}'' # r)"
  by (simp_all add: delim_def)

lemma delim_hd: "delim (x # t) \<Longrightarrow> x = CHR '','' \<or> x = CHR '']'' \<or> x = CHR ''}''"
  by (simp add: delim_def)

lemma is_digit_delims [simp]: "\<not> is_digit CHR '',''" "\<not> is_digit CHR '']''" "\<not> is_digit CHR ''}''"
  "\<not> is_digit CHR ''-''"
  by (simp_all add: is_digit_def)

lemma delim_digits: "delim r \<Longrightarrow> takeWhile is_digit r = [] \<and> dropWhile is_digit r = r"
  by (cases r) (auto dest: delim_hd)

lemma digits_append:
  assumes "delim r"
  shows "takeWhile is_digit (t @ r) = takeWhile is_digit t" "dropWhile is_digit (t @ r) = dropWhile is_digit t @ r"
  using delim_digits [OF assms] by (induction t) auto

lemma scan_append:
  assumes "delim r"
  shows "scan_int (t @ r) = map_option (apsnd (\<lambda>u. u @ r)) (scan_int t)"
    "scan_frac (t @ r) = map_option (apsnd (\<lambda>u. u @ r)) (scan_frac t)"
    "scan_exp (t @ r) = map_option (apsnd (\<lambda>u. u @ r)) (scan_exp t)"
proof -
  note d = digits_append [OF assms] delim_digits [OF assms]
  show "scan_int (t @ r) = map_option (apsnd (\<lambda>u. u @ r)) (scan_int t)"
  proof (cases t)
    case Nil
    with assms show ?thesis by (cases r) (auto simp: scan_int_def dest: delim_hd)
  qed (simp add: scan_int_def d)
  show "scan_frac (t @ r) = map_option (apsnd (\<lambda>u. u @ r)) (scan_frac t)"
  proof (cases t)
    case Nil
    with assms show ?thesis by (cases r) (auto simp: scan_frac_def dest: delim_hd)
  qed (simp add: scan_frac_def d)
  show "scan_exp (t @ r) = map_option (apsnd (\<lambda>u. u @ r)) (scan_exp t)"
  proof (cases t)
    case Nil
    with assms show ?thesis by (cases r) (auto simp: scan_exp_def dest: delim_hd)
  next
    case (Cons e u)
    show ?thesis
    proof (cases u)
      case Nil
      with Cons assms d(3) show ?thesis by (cases r) (auto simp: scan_exp_def dest: delim_hd)
    next
      case (Cons y w)
      with \<open>t = e # u\<close> d(1,2) [of w] d(1,2) [of u] show ?thesis by (simp add: scan_exp_def Let_def)
    qed
  qed
qed

lemma scan_number_append:
  assumes "delim r"
  shows "scan_number (s @ r) = map_option (apsnd (\<lambda>u. u @ r)) (scan_number s)"
proof -
  have "(case s @ r of x # _ \<Rightarrow> if x = CHR ''-'' then [x] else [] | [] \<Rightarrow> [])
      = (case s of x # _ \<Rightarrow> if x = CHR ''-'' then [x] else [] | [] \<Rightarrow> [])"
    using assms by (cases s; cases r) (auto dest: delim_hd)
  moreover have "drop (length sg) (s @ r) = drop (length sg) s @ r"
    if "sg = (case s of x # _ \<Rightarrow> if x = CHR ''-'' then [x] else [] | [] \<Rightarrow> [])" for sg
    using that by (cases s) auto
  ultimately show ?thesis
    by (simp add: scan_number_def Let_def scan_append [OF assms] split: option.split)
qed

lemma num_ok_append: "num_ok s \<Longrightarrow> delim r \<Longrightarrow> scan_number (s @ r) = Some (s, r)"
  by (simp add: num_ok_def scan_number_append)

lemma num_ok_first: "num_ok s \<Longrightarrow> \<exists>ch t. s = ch # t \<and> (ch = CHR ''-'' \<or> is_digit ch)"
  by (cases s) (auto simp: num_ok_def scan_number_def scan_int_def is_digit_def [of "CHR ''0''"] Let_def split: if_splits)

subsection \<open>Values\<close>

fun json_wf :: "json \<Rightarrow> bool" where
  "json_wf (JNum s) = num_ok s"
| "json_wf (JArr xs) = (\<forall>x \<in> set xs. json_wf x)"
| "json_wf (JObj kvs) = (\<forall>(k, v) \<in> set kvs. json_wf v)"
| "json_wf _ = True"

definition starts_value :: "string \<Rightarrow> bool" where
  "starts_value s \<longleftrightarrow> (case s of [] \<Rightarrow> False | ch # _ \<Rightarrow> \<not> is_ws ch \<and> ch \<noteq> CHR '']'' \<and> ch \<noteq> CHR ''}'')"

lemma starts_value_skip: "starts_value s \<Longrightarrow> skip_ws (s @ r) = s @ r"
  by (cases s) (auto simp: starts_value_def skip_ws_def)

lemma json_print_starts: "json_wf j \<Longrightarrow> starts_value (json_print j)"
proof (cases j)
  case (JNum s)
  assume "json_wf j"
  with JNum have "num_ok s" by simp
  from num_ok_first [OF this] obtain ch t where "s = ch # t" "ch = CHR ''-'' \<or> is_digit ch"
    by blast
  moreover have "is_digit ch \<Longrightarrow> \<not> is_ws ch \<and> ch \<noteq> CHR '']'' \<and> ch \<noteq> CHR ''}''"
    by (auto simp: is_digit_def is_ws_def)
  ultimately show ?thesis using JNum by (auto simp: starts_value_def is_ws_def)
qed (auto simp: starts_value_def is_ws_def json_quote_def quote_char_def)

lemma skip_ws_delims [simp]:
  "skip_ws (CHR '']'' # r) = CHR '']'' # r" "skip_ws (CHR ''}'' # r) = CHR ''}'' # r"
  "skip_ws (CHR '','' # r) = CHR '','' # r" "skip_ws (CHR '':'' # r) = CHR '':'' # r" "skip_ws [] = []"
  by (simp_all add: skip_ws_def is_ws_def)

text \<open>A reader that inverts the printer on one value, in any printed context.\<close>

definition reads_back :: "json \<Rightarrow> bool" where
  "reads_back j \<longleftrightarrow> starts_value (json_print j) \<and>
     (\<forall>n r. delim r \<longrightarrow> 2 * length (json_print j) < n \<longrightarrow> json_value n (json_print j @ r) = Some (j, r))"

lemma join_with_starts: "xs \<noteq> [] \<Longrightarrow> starts_value (hd xs) \<Longrightarrow> starts_value (join_with ch xs)"
  by (cases "(ch, xs)" rule: join_with.cases) (auto simp: starts_value_def split: list.splits)

lemma json_elems_print:
  assumes "xs \<noteq> []" and "\<And>x. x \<in> set xs \<Longrightarrow> reads_back x"
    and "2 * length (join_with CHR '','' (map json_print xs)) + 1 < n"
  shows "json_elems n (join_with CHR '','' (map json_print xs) @ CHR '']'' # r) = Some (xs, r)"
  using assms
proof (induction xs arbitrary: n)
  case Nil
  then show ?case by simp
next
  case (Cons x xs)
  obtain n' where n: "n = Suc n'" using Cons.prems(3) by (cases n) auto
  have x: "reads_back x" using Cons.prems by simp
  show ?case
  proof (cases xs)
    case Nil
    with x Cons.prems(3) n show ?thesis by (simp add: reads_back_def)
  next
    case (Cons y ys)
    let ?rest = "join_with CHR '','' (map json_print xs) @ CHR '']'' # r"
    have len: "2 * (length (json_print x) + 1 + length (join_with CHR '','' (map json_print xs))) + 1 < n"
      using Cons.prems(3) Cons by simp
    have "json_value n' (json_print x @ CHR '','' # ?rest) = Some (x, CHR '','' # ?rest)"
      using x len n by (simp add: reads_back_def)
    moreover have "skip_ws ?rest = ?rest"
      using Cons.prems(2) Cons by (intro starts_value_skip join_with_starts) (auto simp: reads_back_def)
    moreover have "json_elems n' ?rest = Some (xs, r)"
      using Cons.IH [of n'] Cons.prems(2) Cons len n by simp
    ultimately show ?thesis using n Cons by simp
  qed
qed

lemma json_members_print:
  assumes "kvs \<noteq> []" and "\<And>k v. (k, v) \<in> set kvs \<Longrightarrow> reads_back v"
    and "2 * length (join_with CHR '','' (map (\<lambda>(k, v). json_quote k @ '':'' @ json_print v) kvs)) + 1 < n"
  shows "json_members n (join_with CHR '','' (map (\<lambda>(k, v). json_quote k @ '':'' @ json_print v) kvs) @ CHR ''}'' # r)
    = Some (map (\<lambda>(k, v). (k, json_print v, v)) kvs, r)"
  using assms
proof (induction kvs arbitrary: n)
  case Nil
  then show ?case by simp
next
  case (Cons kv kvs)
  obtain k v where kv: "kv = (k, v)" by (cases kv)
  obtain n' where n: "n = Suc n'" using Cons.prems(3) by (cases n) auto
  have v: "reads_back v" using Cons.prems(2) [of k v] kv by simp
  let ?pr = "\<lambda>(k, v). json_quote k @ '':'' @ json_print v"
  have val: "json_value n' (json_print v @ t) = Some (v, t)" "skip_ws (json_print v @ t) = json_print v @ t"
    if "delim t" "2 * length (json_print v) < n'" for t
    using v that starts_value_skip by (auto simp: reads_back_def)
  show ?case
  proof (cases kvs)
    case Nil
    then show ?thesis
      using Cons.prems(3) n kv val
      by (simp add: json_quote_def string_body_quote Let_def)
  next
    case (Cons y ys)
    let ?rest = "join_with CHR '','' (map ?pr kvs) @ CHR ''}'' # r"
    have len: "2 * (length (json_quote k) + 1 + length (json_print v) + 1 + length (join_with CHR '','' (map ?pr kvs))) + 1 < n"
      using Cons.prems(3) Cons kv by simp
    have rest: "skip_ws ?rest = ?rest"
      using Cons
      by (intro starts_value_skip join_with_starts)
        (auto simp: starts_value_def json_quote_def is_ws_def quote_char_def split: prod.splits)
    have "json_members n' ?rest = Some (map (\<lambda>(k, v). (k, json_print v, v)) kvs, r)"
    proof (rule Cons.IH)
      show "\<And>k v. (k, v) \<in> set kvs \<Longrightarrow> reads_back v" using Cons.prems(2) by (meson list.set_intros(2))
    qed (use Cons len n in simp_all)
    then show ?thesis
      using val [of "CHR '','' # ?rest"] rest len n Cons kv
      by (simp add: json_quote_def string_body_quote Let_def)
  qed
qed

lemma quote_char_neq: "quote_char \<noteq> CHR ''f''" "quote_char \<noteq> CHR ''t''" "quote_char \<noteq> CHR ''n''"
  by (simp_all add: quote_char_def)

lemma json_reads_back: "json_wf j \<Longrightarrow> reads_back j"
proof (induction j)
  case (JArr xs)
  show ?case
  proof (cases "xs = []")
    case True
    have "json_value n (''[]'' @ r) = Some (JArr [], r)" if "4 < n" for n r
      using that by (cases n) (auto simp: quote_char_def)
    with True show ?thesis by (simp add: reads_back_def starts_value_def is_ws_def)
  next
    case False
    have all: "reads_back x" if "x \<in> set xs" for x using JArr that by simp
    let ?b = "join_with CHR '','' (map json_print xs)"
    have st: "starts_value ?b"
      using False all by (intro join_with_starts) (auto simp: reads_back_def hd_map)
    have "json_value n (''['' @ ?b @ '']'' @ r) = Some (JArr xs, r)" if lt: "2 * (length ?b + 2) < n" for n r
    proof -
      obtain n' where n: "n = Suc n'" using lt by (cases n) auto
      have el: "json_elems n' (?b @ CHR '']'' # r) = Some (xs, r)"
        using False all lt n by (intro json_elems_print) auto
      obtain ch t where b: "?b @ CHR '']'' # r = ch # t" "ch \<noteq> CHR '']''"
        using st by (cases ?b) (auto simp: starts_value_def)
      have "skip_ws (?b @ CHR '']'' # r) = ?b @ CHR '']'' # r" using st by (rule starts_value_skip)
      with el b show ?thesis unfolding n by (simp add: quote_char_def)
    qed
    then show ?thesis by (simp add: reads_back_def starts_value_def is_ws_def)
  qed
next
  case (JObj kvs)
  show ?case
  proof (cases "kvs = []")
    case True
    have "json_value n (''{}'' @ r) = Some (JObj [], r)" if "4 < n" for n r
      using that by (cases n) (auto simp: quote_char_def)
    with True show ?thesis by (simp add: reads_back_def starts_value_def is_ws_def)
  next
    case False
    have all: "reads_back v" if "(k, v) \<in> set kvs" for k v
      using JObj.IH [of "(k, v)" v] JObj.prems that by auto
    let ?b = "join_with CHR '','' (map (\<lambda>(k, v). json_quote k @ '':'' @ json_print v) kvs)"
    have st: "starts_value ?b"
      using False
      by (intro join_with_starts)
        (auto simp: starts_value_def json_quote_def is_ws_def quote_char_def hd_map split: prod.splits)
    have "json_value n (''{'' @ ?b @ ''}'' @ r) = Some (JObj kvs, r)" if lt: "2 * (length ?b + 2) < n" for n r
    proof -
      obtain n' where n: "n = Suc n'" using lt by (cases n) auto
      have el: "json_members n' (?b @ CHR ''}'' # r) = Some (map (\<lambda>(k, v). (k, json_print v, v)) kvs, r)"
        using False all lt n by (intro json_members_print) auto
      obtain ch t where b: "?b @ CHR ''}'' # r = ch # t" "ch \<noteq> CHR ''}''"
        using st by (cases ?b) (auto simp: starts_value_def)
      have "skip_ws (?b @ CHR ''}'' # r) = ?b @ CHR ''}'' # r" using st by (rule starts_value_skip)
      with el b show ?thesis unfolding n by (simp add: quote_char_def comp_def case_prod_unfold)
    qed
    then show ?thesis by (simp add: reads_back_def starts_value_def is_ws_def)
  qed
next
  case (JNum s)
  then obtain ch t where s: "s = ch # t" "ch = CHR ''-'' \<or> is_digit ch"
    using num_ok_first [of s] by (metis json_wf.simps(1))
  have no: "ch \<noteq> CHR ''n'' \<and> ch \<noteq> CHR ''t'' \<and> ch \<noteq> CHR ''f'' \<and> ch \<noteq> quote_char \<and> ch \<noteq> CHR ''['' \<and> ch \<noteq> CHR ''{''"
    using s(2) by (auto simp: is_digit_def quote_char_def)
  have "json_value n (s @ r) = Some (JNum s, r)" if del: "delim r" and lt: "0 < n" for n r
  proof -
    obtain n' where n: "n = Suc n'" using lt by (cases n) auto
    show ?thesis using num_ok_append [of s r] JNum del no s(1) unfolding n by simp
  qed
  with JNum json_print_starts [of "JNum s"] show ?case by (auto simp: reads_back_def)
next
  case (JStr s)
  have "json_value n (json_quote s @ r) = Some (JStr s, r)" if "0 < n" for n r
    using that by (cases n) (simp_all add: json_quote_def string_body_quote quote_char_neq)
  with json_print_starts [of "JStr s"] show ?case by (simp add: reads_back_def)
next
  case (JBool b)
  have "json_value n (json_print (JBool b) @ r) = Some (JBool b, r)" if "0 < n" for n r
    using that by (cases n) (simp_all add: strip_lit_def HasPrefix_def quote_char_def)
  with json_print_starts [of "JBool b"] show ?case by (simp add: reads_back_def)
next
  case JNull
  have "json_value n (json_print JNull @ r) = Some (JNull, r)" if "0 < n" for n r
    using that by (cases n) (simp_all add: strip_lit_def HasPrefix_def quote_char_def)
  with json_print_starts [of JNull] show ?case by (simp add: reads_back_def)
qed

lemma delim_Nil: "delim []"
  by (simp add: delim_def)

lemma json_prefix_print:
  assumes "json_wf j"
  shows "json_prefix (json_print j) = Some (j, [])"
proof -
  have "starts_value (json_print j)"
    and "json_value (2 * length (json_print j) + 1) (json_print j @ []) = Some (j, [])"
    using json_reads_back [OF assms] delim_Nil lessI [of "2 * length (json_print j)"]
    unfolding reads_back_def Suc_eq_plus1 by blast+
  with starts_value_skip [of "json_print j" "[]"] show ?thesis
    unfolding json_prefix_def append_Nil2 by metis
qed

theorem json_parse_print: "json_wf j \<Longrightarrow> json_parse (json_print j) = Some j"
  by (simp add: json_parse_def json_prefix_print)

lemma print_members_obj:
  "print_members (map (apsnd json_print) kvs) = json_print (JObj kvs)"
  by (simp add: print_members_def comp_def case_prod_unfold)

text \<open>What struct decoding sees of a printed struct.\<close>

lemma members_of_print:
  assumes "\<And>k v. (k, v) \<in> set kvs \<Longrightarrow> json_wf v"
  shows "members_of (print_members (map (apsnd json_print) kvs)) = Some (map (apsnd json_print) kvs)"
proof (cases "kvs = []")
  case True
  then show ?thesis by (simp add: print_members_def members_of_def skip_ws_def is_ws_def)
next
  case False
  let ?b = "join_with CHR '','' (map (\<lambda>(k, v). json_quote k @ '':'' @ json_print v) kvs)"
  have st: "starts_value ?b"
    using False
    by (intro join_with_starts)
      (auto simp: starts_value_def json_quote_def is_ws_def quote_char_def hd_map split: prod.splits)
  define js where "js = json_print (JObj kvs)"
  have len: "length js = length ?b + 2" by (simp add: js_def)
  have el: "json_members (2 * length js + 2) (?b @ CHR ''}'' # []) = Some (map (\<lambda>(k, v). (k, json_print v, v)) kvs, [])"
    unfolding len using False assms json_reads_back by (intro json_members_print) auto
  obtain ch t where b: "?b @ CHR ''}'' # [] = ch # t" "ch \<noteq> CHR ''}''"
    using st by (cases ?b) (auto simp: starts_value_def)
  have rest: "skip_ws (?b @ CHR ''}'' # []) = ?b @ CHR ''}'' # []" using st by (rule starts_value_skip)
  have "skip_ws js = CHR ''{'' # (?b @ CHR ''}'' # [])" by (simp add: js_def skip_ws_def is_ws_def)
  then have "members_of js = map_option (\<lambda>(ms, _). map (\<lambda>(k, raw, _). (k, raw)) ms)
      (json_members (2 * length js + 2) (?b @ CHR ''}'' # []))"
    using rest b by (simp add: members_of_def del: json_members.simps)
  then have "members_of js = Some (map (apsnd json_print) kvs)"
    unfolding el by (simp add: case_prod_unfold apsnd_def map_prod_def)
  then show ?thesis unfolding print_members_obj js_def .
qed

theorem struct_members_print:
  assumes "\<And>k v. (k, v) \<in> set kvs \<Longrightarrow> json_wf v"
  shows "struct_members (print_members (map (apsnd json_print) kvs)) = Some (map (apsnd json_print) kvs)"
proof -
  have "json_parse (print_members (map (apsnd json_print) kvs)) = Some (JObj kvs)"
    unfolding print_members_obj using assms by (intro json_parse_print) auto
  with members_of_print [OF assms] show ?thesis by (simp add: struct_members_def)
qed

end
