(* ===== verification/Go_Struct.thy ===== *)
theory Go_Struct
  imports Go_Time Go_Json
begin

text \<open>
  How \<^verbatim>\<open>encoding/json\<close> fills the fields of a struct from the members of an object, for the field
  types the sources use.
\<close>

section \<open>Struct fields\<close>

text \<open>
  Which member names \<^verbatim>\<open>encoding/json\<close> takes for a field: names are compared under Unicode case
  folding, in which the Kelvin sign folds to K and the long s to S.
\<close>

fun fold_name :: "string \<Rightarrow> string" where
  "fold_name [] = []"
| "fold_name (a # r) =
     (case r of
        b # c # r' \<Rightarrow>
          if a = CHR 0xE2 \<and> b = CHR 0x84 \<and> c = CHR 0xAA then CHR ''K'' # fold_name r'
          else if a = CHR 0xC5 \<and> b = CHR 0xBF then CHR ''S'' # fold_name (c # r')
          else (if 97 \<le> (of_char a :: nat) \<and> (of_char a :: nat) \<le> 122 then char_of (of_char a - 32 :: nat) else a) # fold_name r
      | [b] \<Rightarrow>
          if a = CHR 0xC5 \<and> b = CHR 0xBF then ''S''
          else (if 97 \<le> (of_char a :: nat) \<and> (of_char a :: nat) \<le> 122 then char_of (of_char a - 32 :: nat) else a) # fold_name r
      | [] \<Rightarrow> [if 97 \<le> (of_char a :: nat) \<and> (of_char a :: nat) \<le> 122 then char_of (of_char a - 32 :: nat) else a])"

text \<open>
  A field is assigned once per member of that name, in order: \<open>asg raw v\<close> is the value after
  the member's text \<open>raw\<close>, or \<open>None\<close> when the text has the wrong type.
\<close>

fun read_field :: "string \<Rightarrow> (string \<Rightarrow> 'v \<Rightarrow> 'v option) \<Rightarrow> (string \<times> string) list \<Rightarrow> 'v \<Rightarrow> 'v option" where
  "read_field name asg [] v = Some v"
| "read_field name asg ((k, raw) # ms) v =
     (if fold_name k = fold_name name
      then Option.bind (asg raw v) (read_field name asg ms)
      else read_field name asg ms v)"

definition set_string :: "string \<Rightarrow> string \<Rightarrow> string option" where
  "set_string raw v =
     (case json_parse raw of Some (JStr s) \<Rightarrow> Some s | Some JNull \<Rightarrow> Some v | _ \<Rightarrow> None)"

text \<open>\<^verbatim>\<open>Time.UnmarshalJSON\<close>: the text between the quotes is not unescaped.\<close>

definition set_time :: "string \<Rightarrow> time \<Rightarrow> time option" where
  "set_time raw v =
     (if raw = ''null'' then Some v
      else if length raw < 2 \<or> hd raw \<noteq> quote_char \<or> List.last raw \<noteq> quote_char then None
      else Parse_RFC3339 (butlast (List.tl raw)))"

section \<open>Reading a printed field back\<close>

lemma set_string_print [simp]: "set_string (json_print (JStr s)) v = Some s"
  by (simp add: set_string_def json_parse_print del: json_print.simps)

text \<open>No character of a formatted time needs an escape.\<close>

definition plain_char :: "char \<Rightarrow> bool" where
  "plain_char ch \<longleftrightarrow> esc_char ch = [ch]"

lemma json_quote_plain: "\<forall>ch \<in> set s. plain_char ch \<Longrightarrow> json_quote s = quote_char # s @ [quote_char]"
  by (induction s) (auto simp: json_quote_def plain_char_def)

lemma special_not_digit:
  "\<not> is_digit quote_char" "\<not> is_digit backslash" "\<not> is_digit CHR 0x08" "\<not> is_digit CHR 0x0C"
  "\<not> is_digit CHR 0x0A" "\<not> is_digit CHR 0x0D" "\<not> is_digit CHR 0x09"
  "\<not> is_digit CHR ''<''" "\<not> is_digit CHR ''>''" "\<not> is_digit CHR 0x26"
  by (simp_all add: is_digit_def quote_char_def backslash_def)

lemma digit_plain:
  assumes "is_digit ch"
  shows "plain_char ch"
proof -
  have "\<not> (of_char ch :: nat) < 32" using assms by (simp add: is_digit_def)
  moreover have "ch \<noteq> quote_char" "ch \<noteq> backslash" "ch \<noteq> CHR 0x08" "ch \<noteq> CHR 0x0C" "ch \<noteq> CHR 0x0A"
    "ch \<noteq> CHR 0x0D" "ch \<noteq> CHR 0x09" "ch \<noteq> CHR ''<''" "ch \<noteq> CHR ''>''" "ch \<noteq> CHR 0x26"
    using assms special_not_digit by blast+
  ultimately show ?thesis unfolding plain_char_def esc_char_def by (simp only: if_False simp_thms)
qed

lemma marks_plain:
  "plain_char CHR ''-''" "plain_char CHR '':''" "plain_char CHR ''T''" "plain_char CHR ''.''" "plain_char CHR ''Z''"
  by (simp_all add: plain_char_def esc_char_def quote_char_def backslash_def)

lemma pad2_plain:
  assumes "0 \<le> n" and "n < 100" and "ch \<in> set (pad2 n)"
  shows "plain_char ch"
proof -
  from assms(1,2) have "is_digit (digit (n div 10))" "is_digit (digit (n mod 10))"
    by (intro is_digit_digit; auto)+
  with assms(3) show ?thesis by (auto simp: pad2_def digit_plain)
qed

lemma format_secs_plain:
  assumes "year_ok t" and "ch \<in> set (format_secs t)"
  shows "plain_char ch"
proof -
  obtain y m d where ymd: "date_at t = (y, m, d)" by (cases "date_at t")
  have y: "0 \<le> y div 100" "y div 100 < 100" "0 \<le> y mod 100" "y mod 100 < 100"
    using assms(1) ymd by (auto simp: year_ok_def)
  have md: "0 \<le> m" "m < 100" "0 \<le> d" "d < 100" using date_at_valid [OF ymd] by auto
  have c: "secs t mod 86400 div 3600 < 100" "secs t mod 86400 mod 3600 div 60 < 100" "secs t mod 86400 mod 60 < 100"
    using clock_fields [of t] by linarith+
  note p = pad2_plain [OF y(1,2)] pad2_plain [OF y(3,4)] pad2_plain [OF md(1,2)] pad2_plain [OF md(3,4)]
    pad2_plain [OF conjunct1 [OF clock_fields(1)] c(1)] pad2_plain [OF conjunct1 [OF clock_fields(2)] c(2)]
    pad2_plain [OF conjunct1 [OF clock_fields(3)] c(3)]
  from assms(2) show ?thesis
    unfolding format_secs_pads [OF assms(1) ymd] set_append Un_iff set_simps insert_iff
    using p marks_plain by blast
qed

lemma FormatNano_plain:
  assumes "year_ok t" and "ch \<in> set (Format_RFC3339Nano t)"
  shows "plain_char ch"
proof -
  have "t mod second < 10 ^ 9" by (simp add: second_def)
  then have "\<forall>ch \<in> set (frac_digits 9 (t mod second)). is_digit ch"
    by (intro frac_digits_digits) (simp_all add: second_def)
  with assms format_secs_plain [OF assms(1)] show ?thesis
    by (auto simp: Format_RFC3339Nano_def digit_plain marks_plain split: if_splits)
qed

lemma set_time_print:
  assumes "year_ok t"
  shows "set_time (json_print (JStr (Format_RFC3339Nano t))) v = Some t"
proof -
  have "json_print (JStr (Format_RFC3339Nano t)) = quote_char # Format_RFC3339Nano t @ [quote_char]"
    using FormatNano_plain [OF assms] by (simp add: json_quote_plain)
  then show ?thesis
    using Parse_FormatNano [OF assms] by (simp add: set_time_def quote_char_def del: json_print.simps)
qed

end
