(* ===== verification/Go_Base64.thy ===== *)
theory Go_Base64
  imports Puls_Prelude
begin

text \<open>
  \<^verbatim>\<open>base64.RawURLEncoding\<close> of Go's package \<^verbatim>\<open>encoding/base64\<close> on byte strings: the URL
  alphabet without padding. Decoding skips line breaks, rejects bytes outside the alphabet
  and a last group of one symbol, and ignores the unused bits of a last group, as the
  library does. Decoding inverts encoding.
\<close>

definition b64_sym :: "nat \<Rightarrow> char" where
  "b64_sym n =
     (if n < 26 then char_of (n + 65) else if n < 52 then char_of (n + 71)
      else if n < 62 then char_of (n - 4) else if n = 62 then CHR ''-'' else CHR ''_'')"

definition b64_val :: "char \<Rightarrow> nat option" where
  "b64_val ch =
     (let k = of_char ch
      in if 65 \<le> k \<and> k \<le> 90 then Some (k - 65)
         else if 97 \<le> k \<and> k \<le> 122 then Some (k - 71)
         else if 48 \<le> k \<and> k \<le> 57 then Some (k + 4)
         else if k = 45 then Some 62 else if k = 95 then Some 63 else None)"

lemma b64_val_sym: "n < 64 \<Longrightarrow> b64_val (b64_sym n) = Some n"
  by (auto simp: b64_val_def b64_sym_def Let_def)

fun b64_encode :: "string \<Rightarrow> string" where
  "b64_encode [] = []"
| "b64_encode [a] =
     (let x = of_char a in [b64_sym (x div 4), b64_sym (x mod 4 * 16)])"
| "b64_encode [a, b] =
     (let x = of_char a; y = of_char b
      in [b64_sym (x div 4), b64_sym (x mod 4 * 16 + y div 16), b64_sym (y mod 16 * 4)])"
| "b64_encode (a # b # c # r) =
     (let x = of_char a; y = of_char b; z = of_char c
      in b64_sym (x div 4) # b64_sym (x mod 4 * 16 + y div 16) # b64_sym (y mod 16 * 4 + z div 64) #
         b64_sym (z mod 64) # b64_encode r)"

fun b64_groups :: "nat list \<Rightarrow> string option" where
  "b64_groups [] = Some []"
| "b64_groups [_] = None"
| "b64_groups [p, q] = Some [char_of (p * 4 + q div 16)]"
| "b64_groups [p, q, s] = Some [char_of (p * 4 + q div 16), char_of (q mod 16 * 16 + s div 4)]"
| "b64_groups (p # q # s # t # r) =
     map_option (\<lambda>bs. char_of (p * 4 + q div 16) # char_of (q mod 16 * 16 + s div 4) #
                      char_of (s mod 4 * 64 + t) # bs) (b64_groups r)"

definition b64_decode :: "string \<Rightarrow> string option" where
  "b64_decode s =
     Option.bind (those (map b64_val (filter (\<lambda>ch. ch \<noteq> CHR 0x0A \<and> ch \<noteq> CHR 0x0D) s))) b64_groups"

text \<open>The symbols of an encoding, as numbers.\<close>

fun b64_nums :: "string \<Rightarrow> nat list" where
  "b64_nums [] = []"
| "b64_nums [a] = (let x = of_char a in [x div 4, x mod 4 * 16])"
| "b64_nums [a, b] = (let x = of_char a; y = of_char b in [x div 4, x mod 4 * 16 + y div 16, y mod 16 * 4])"
| "b64_nums (a # b # c # r) =
     (let x = of_char a; y = of_char b; z = of_char c
      in x div 4 # (x mod 4 * 16 + y div 16) # (y mod 16 * 4 + z div 64) # (z mod 64) # b64_nums r)"

lemma byte_parts [simp]:
  "(of_char ch :: nat) div 4 < 64" "(of_char ch :: nat) div 16 < 16" "(of_char ch :: nat) div 64 < 4"
  using nat_of_char_less_256 [of ch] by linarith+

lemma byte_mixed [simp]:
  "(of_char a :: nat) mod 4 * 16 + of_char b div 16 < 64" "(of_char a :: nat) mod 16 * 4 + of_char b div 64 < 64"
  using byte_parts [of b] by linarith+

lemma b64_nums_bound: "n \<in> set (b64_nums s) \<Longrightarrow> n < 64"
proof (induction s rule: b64_nums.induct)
  case (4 a b c r)
  then show ?case by (auto simp: Let_def simp del: byte_parts byte_mixed intro: byte_parts byte_mixed)
qed (auto simp: Let_def)

lemma b64_encode_nums: "b64_encode s = map b64_sym (b64_nums s)"
  by (induction s rule: b64_encode.induct) (auto simp: Let_def)

lemma byte_join [simp]:
  "((of_char a :: nat) mod 4 * 16 + of_char b div 16) div 16 = of_char a mod 4"
  "((of_char a :: nat) mod 4 * 16 + of_char b div 16) mod 16 = of_char b div 16"
  "((of_char a :: nat) mod 16 * 4 + of_char b div 64) div 4 = of_char a mod 16"
  "((of_char a :: nat) mod 16 * 4 + of_char b div 64) mod 4 = of_char b div 64"
  by simp_all

lemma b64_groups_nums: "b64_groups (b64_nums s) = Some s"
  by (induction s rule: b64_nums.induct) (simp_all add: Let_def)

lemma those_map_Some: "(\<And>x. x \<in> set xs \<Longrightarrow> f x = Some (g x)) \<Longrightarrow> those (map f xs) = Some (map g xs)"
  by (induction xs) auto

lemma b64_sym_no_break: "n < 64 \<Longrightarrow> b64_sym n \<noteq> CHR 0x0A \<and> b64_sym n \<noteq> CHR 0x0D"
proof -
  assume "n < 64"
  then have "b64_val (b64_sym n) \<noteq> None" by (simp add: b64_val_sym)
  moreover have "b64_val (CHR 0x0A) = None" "b64_val (CHR 0x0D) = None" by (simp_all add: b64_val_def)
  ultimately show ?thesis by metis
qed

theorem b64_roundtrip: "b64_decode (b64_encode s) = Some s"
proof -
  have "filter (\<lambda>ch. ch \<noteq> CHR 0x0A \<and> ch \<noteq> CHR 0x0D) (b64_encode s) = b64_encode s"
    using b64_nums_bound b64_sym_no_break by (auto simp: b64_encode_nums filter_id_conv)
  moreover have "those (map b64_val (b64_encode s)) = Some (b64_nums s)"
    using those_map_Some [of "b64_nums s" "b64_val \<circ> b64_sym" id] b64_nums_bound b64_val_sym
    by (simp add: b64_encode_nums)
  ultimately show ?thesis by (simp add: b64_decode_def b64_groups_nums)
qed

lemma b64_encode_Nil_iff: "b64_encode s = [] \<longleftrightarrow> s = []"
  by (cases s rule: b64_encode.cases) (auto simp: Let_def)

end
