(* ===== verification/Cursor.thy ===== *)
theory Cursor
  imports Go_Struct Go_Base64
begin

text \<open>
  The opaque page cursor of the device list (\<^verbatim>\<open>internal/store/cursor.go\<close>): the JSON text of
  the position's registration time and id, in URL-safe base64. Decoding inverts encoding,
  and every text it refuses is reported as \<^verbatim>\<open>ErrInvalidCursor\<close>. The label of a \<open>Wrap\<close> is the
  format text of the \<^verbatim>\<open>fmt.Errorf\<close> call.
\<close>

section \<open>Cursors\<close>

record deviceCursor =
  cur_RegisteredAt :: time
  cur_ID :: string

text \<open>\<^verbatim>\<open>json.Marshal\<close> of a cursor fails on a year outside 0 to 9999; then there are no bytes.\<close>

definition encodeDeviceCursor :: "time \<Rightarrow> string \<Rightarrow> string" where
  "encodeDeviceCursor registeredAt i =
     b64_encode
       (if year_ok registeredAt
        then print_members [(''r'', json_print (JStr (Format_RFC3339Nano registeredAt))), (''i'', json_print (JStr i))]
        else [])"

definition unmarshal_cursor :: "string \<Rightarrow> deviceCursor option" where
  "unmarshal_cursor raw = do {
     ms \<leftarrow> struct_members raw;
     r \<leftarrow> read_field ''r'' set_time ms zero_time;
     i \<leftarrow> read_field ''i'' set_string ms [];
     Some \<lparr> cur_RegisteredAt = r, cur_ID = i \<rparr> }"

definition decodeDeviceCursor :: "string \<Rightarrow> (time \<times> string) res" where
  "decodeDeviceCursor cursor =
     (case b64_decode cursor of
        None \<Rightarrow> Err (Wrap ''%w: %v'' ErrInvalidCursor)
      | Some raw \<Rightarrow>
          (case unmarshal_cursor raw of
             None \<Rightarrow> Err (Wrap ''%w: %v'' ErrInvalidCursor)
           | Some c \<Rightarrow>
               if cur_ID c = [] \<or> cur_RegisteredAt c = zero_time
               then Err (Wrap ''%w: missing fields'' ErrInvalidCursor)
               else Ok (cur_RegisteredAt c, cur_ID c)))"

section \<open>Round trip\<close>

lemma unmarshal_print_cursor:
  assumes "year_ok t"
  shows "unmarshal_cursor (print_members [(''r'', json_print (JStr (Format_RFC3339Nano t))), (''i'', json_print (JStr i))])
    = Some \<lparr> cur_RegisteredAt = t, cur_ID = i \<rparr>"
proof -
  let ?kvs = "[(''r'', JStr (Format_RFC3339Nano t)), (''i'', JStr i)]"
  have "struct_members (print_members (map (apsnd json_print) ?kvs)) = Some (map (apsnd json_print) ?kvs)"
    by (rule struct_members_print) auto
  then show ?thesis
    using set_time_print [OF assms] by (simp add: unmarshal_cursor_def del: json_print.simps)
qed

lemma decode_encode_cursor:
  assumes "year_ok t" and "t \<noteq> zero_time" and "i \<noteq> []"
  shows "decodeDeviceCursor (encodeDeviceCursor t i) = Ok (t, i)"
  using assms unmarshal_print_cursor [OF assms(1)]
  by (simp add: encodeDeviceCursor_def decodeDeviceCursor_def b64_roundtrip)

lemma encode_cursor_nonempty: "year_ok t \<Longrightarrow> encodeDeviceCursor t i \<noteq> []"
  by (simp add: encodeDeviceCursor_def b64_encode_Nil_iff print_members_def)

lemma decode_cursor_error:
  "decodeDeviceCursor c = Err e \<Longrightarrow> errors_is e ErrInvalidCursor"
  by (auto simp: decodeDeviceCursor_def split: option.splits if_splits)

lemma decode_cursor_no_panic: "decodeDeviceCursor c \<noteq> Panic m"
  by (auto simp: decodeDeviceCursor_def split: option.splits)

text \<open>C14: A cursor decodes to the registration time and the id it was made from, for every
  non-empty id and every time of the years 0 to 9999 but the zero time.\<close>

theorem cursor_roundtrip:
  assumes "year_ok t" and "t \<noteq> zero_time" and "i \<noteq> []"
  shows "decodeDeviceCursor (encodeDeviceCursor t i) = Ok (t, i)"
  using assms by (rule decode_encode_cursor)

theorem cursor_roundtrip_witness:
  "decodeDeviceCursor (encodeDeviceCursor 1714564800123456000 ''d-1'') = Ok (1714564800123456000, ''d-1'')"
proof -
  have "year_ok 1714564800123456000" and "(1714564800123456000 :: time) \<noteq> zero_time"
    by code_simp+
  from cursor_roundtrip [OF this] show ?thesis by simp
qed

end
