(* ===== verification/Store_Common.thy ===== *)
theory Store_Common
  imports Sql_Db Cursor
begin

text \<open>
  What the two stores share: \<^verbatim>\<open>collect\<close> of \<^verbatim>\<open>internal/store/scan.go\<close>, reading a single row, and the
  end of \<^verbatim>\<open>ListDevices\<close>, which cuts the extra row off and makes the next cursor of it.
\<close>

fun res_bind :: "'a res \<Rightarrow> ('a \<Rightarrow> 'b res) \<Rightarrow> 'b res" where
  "res_bind (Ok x) f = f x"
| "res_bind (Err e) f = Err e"
| "res_bind (Panic m) f = Panic m"

fun wrap_err :: "string \<Rightarrow> 'a res \<Rightarrow> 'a res" where
  "wrap_err m (Err e) = Err (Wrap m e)"
| "wrap_err m r = r"

text \<open>A row scanner gives a row's columns or an error; the scan helpers turn it into a value.\<close>

fun collect :: "('row res \<Rightarrow> 'a res) \<Rightarrow> 'row list \<Rightarrow> 'a list res" where
  "collect fn [] = Ok []"
| "collect fn (r # rs) = res_bind (fn (Ok r)) (\<lambda>v. res_bind (collect fn rs) (\<lambda>vs. Ok (v # vs)))"

definition first_row :: "'row list \<Rightarrow> 'row res" where
  "first_row rows = (case rows of [] \<Rightarrow> Err ErrNoRows | r # _ \<Rightarrow> Ok r)"

definition no_rows_not_found :: "'a res \<Rightarrow> 'a res" where
  "no_rows_not_found r = (case r of Err e \<Rightarrow> if errors_is e ErrNoRows then Err ErrNotFound else r | _ \<Rightarrow> r)"

definition not_found_if_none :: "nat \<Rightarrow> unit res" where
  "not_found_if_none n = (if n = 0 then Err ErrNotFound else Ok ())"

text \<open>How both scan helpers read the nullable payload column.\<close>

definition payload_of :: "string option \<Rightarrow> string option" where
  "payload_of c = (case c of Some p \<Rightarrow> if p \<noteq> [] then Some p else None | None \<Rightarrow> None)"

text \<open>
  The end of \<^verbatim>\<open>ListDevices\<close>. Slicing to a negative limit and indexing the last element of an
  empty slice panic.
\<close>

definition cut_page :: "int \<Rightarrow> Device list \<Rightarrow> (Device list \<times> string) res" where
  "cut_page limit devices =
     (if int (length devices) > limit then
        if limit < 0 then Panic ''slice bounds out of range''
        else let ds = take (nat limit) devices
             in if ds = [] then Panic ''index out of range''
                else Ok (ds, encodeDeviceCursor (dev_RegisteredAt (List.last ds)) (dev_ID (List.last ds)))
      else Ok (devices, []))"

lemma collect_Ok:
  assumes "\<And>r. r \<in> set rs \<Longrightarrow> fn (Ok r) = Ok (g r)"
  shows "collect fn rs = Ok (map g rs)"
  using assms by (induction rs) auto

lemma wrap_err_Ok_iff [simp]: "wrap_err m r = Ok v \<longleftrightarrow> r = Ok v"
  by (cases r) auto

text \<open>The page of \<open>n\<close> devices at the front of a listing, and the cursor to go on from.\<close>

definition page_of :: "int \<Rightarrow> Device list \<Rightarrow> Device list \<times> string" where
  "page_of n ds =
     (take (nat n) ds,
      if int (length ds) > n
      then encodeDeviceCursor (dev_RegisteredAt (ds ! nat (n - 1))) (dev_ID (ds ! nat (n - 1))) else [])"

lemma cut_page_take:
  assumes "0 < n"
  shows "cut_page n (take (nat (n + 1)) ds) = Ok (page_of n ds)"
proof (cases "int (length ds) > n")
  case True
  then have len: "int (length (take (nat (n + 1)) ds)) > n" and n: "nat n \<le> length ds" "0 < nat n"
    using assms by auto
  have t: "take (nat n) (take (nat (n + 1)) ds) = take (nat n) ds" by (simp add: min_def)
  have "take (nat n) ds \<noteq> []" using n by auto
  moreover have "List.last (take (nat n) ds) = ds ! nat (n - 1)"
    using n by (subst last_conv_nth) (auto simp: nat_diff_distrib)
  ultimately show ?thesis
    using len True assms by (simp add: cut_page_def page_of_def t)
next
  case False
  then have "take (nat (n + 1)) ds = ds" "take (nat n) ds = ds" using assms by auto
  with False assms show ?thesis by (simp add: cut_page_def page_of_def)
qed

end
