(* ===== verification/Store_Spec.thy ===== *)
theory Store_Spec
  imports Store_Common
begin

text \<open>
  What the interface \<^verbatim>\<open>Store\<close> (\<^verbatim>\<open>internal/store/store.go\<close>) promises its callers, as a locale over
  an abstract state: finite maps of devices and diagnostic requests and the heartbeats
  received. An operation has its whole effect or none; one that returns without an error has
  had it. A quiet state is one whose next driver calls all succeed. The locale's lemmas are what
  the server relies on, whichever store it was given.
\<close>

record store_state =
  st_devices :: "string \<Rightarrow> Device option"
  st_heartbeats :: "Heartbeat list"
  st_diagnostics :: "string \<Rightarrow> DiagnosticResult option"

section \<open>Effects\<close>

definition new_device :: "string \<Rightarrow> time \<Rightarrow> RegisterRequest \<Rightarrow> Device" where
  "new_device i t req =
     \<lparr> dev_ID = i, dev_Name = req_Name req, dev_OS = req_OS req, dev_Arch = req_Arch req,
       dev_Status = StatusUnknown, dev_RegisteredAt = t, dev_LastSeenAt = None \<rparr>"

definition add_device :: "Device \<Rightarrow> store_state \<Rightarrow> store_state" where
  "add_device d a = a\<lparr>st_devices := (st_devices a)(dev_ID d \<mapsto> d)\<rparr>"

definition change_device :: "string \<Rightarrow> (Device \<Rightarrow> Device) \<Rightarrow> store_state \<Rightarrow> store_state" where
  "change_device i f a = a\<lparr>st_devices := (st_devices a)(i := map_option f (st_devices a i))\<rparr>"

definition seen_at :: "time \<Rightarrow> Device \<Rightarrow> Device" where
  "seen_at t d = d\<lparr>dev_LastSeenAt := Some t, dev_Status := StatusOnline\<rparr>"

definition add_heartbeat :: "Heartbeat \<Rightarrow> store_state \<Rightarrow> store_state" where
  "add_heartbeat hb a = a\<lparr>st_heartbeats := st_heartbeats a @ [hb]\<rparr>"

definition new_diagnostic :: "int \<Rightarrow> time \<Rightarrow> string \<Rightarrow> string \<Rightarrow> DiagnosticScope \<Rightarrow> DiagnosticResult" where
  "new_diagnostic n t deviceID requestID scope =
     \<lparr> diag_ID = n, diag_DeviceID = deviceID, diag_RequestID = requestID, diag_Scope = scope,
       diag_RequestedAt = t, diag_ReceivedAt = None, diag_Payload = None, diag_Status = [] \<rparr>"

definition add_diagnostic :: "DiagnosticResult \<Rightarrow> store_state \<Rightarrow> store_state" where
  "add_diagnostic d a = a\<lparr>st_diagnostics := (st_diagnostics a)(diag_RequestID d \<mapsto> d)\<rparr>"

definition drop_diagnostic :: "string \<Rightarrow> store_state \<Rightarrow> store_state" where
  "drop_diagnostic r a = a\<lparr>st_diagnostics := (st_diagnostics a)(r := None)\<rparr>"

definition answered :: "time \<Rightarrow> string \<Rightarrow> DiagnosticResult \<Rightarrow> DiagnosticResult" where
  "answered t payload d =
     d\<lparr>diag_ReceivedAt := Some t, diag_Payload := (if payload = [] then None else Some payload)\<rparr>"

definition change_diagnostic :: "string \<Rightarrow> (DiagnosticResult \<Rightarrow> DiagnosticResult) \<Rightarrow> store_state \<Rightarrow> store_state" where
  "change_diagnostic r f a = a\<lparr>st_diagnostics := (st_diagnostics a)(r := map_option f (st_diagnostics a r))\<rparr>"

text \<open>The newest \<open>n\<close> of some items, newest first, ties in any order; a negative \<open>n\<close> is left open.\<close>

definition newest :: "('a \<Rightarrow> time) \<Rightarrow> int \<Rightarrow> 'a multiset \<Rightarrow> 'a list \<Rightarrow> bool" where
  "newest tm n M xs \<longleftrightarrow>
     (\<exists>ys. mset ys = M \<and> sorted_wrt (\<lambda>a b. tm b \<le> tm a) ys \<and> (0 \<le> n \<longrightarrow> xs = take (nat n) ys))"

text \<open>An operation that is atomic under every fault of the driver.\<close>

definition all_or_nothing :: "('s \<Rightarrow> 'a) \<Rightarrow> 's \<Rightarrow> 'r res \<times> 's \<Rightarrow> ('r \<Rightarrow> 'a \<Rightarrow> bool) \<Rightarrow> bool" where
  "all_or_nothing view s out eff \<longleftrightarrow>
     (case fst out of
        Ok v \<Rightarrow> eff v (view (snd out))
      | Err e \<Rightarrow> view (snd out) = view s \<or> (\<exists>v. eff v (view (snd out)))
      | Panic m \<Rightarrow> False)"

section \<open>The contract\<close>

locale store_contract =
  fixes inv :: "'s \<Rightarrow> bool" and quiet :: "'s \<Rightarrow> bool" and view :: "'s \<Rightarrow> store_state"
    and rnd :: "'s \<Rightarrow> time \<Rightarrow> time" and time_ok :: "'s \<Rightarrow> time \<Rightarrow> bool" and hash_ok :: "'s \<Rightarrow> string \<Rightarrow> bool"
    and create :: "string \<Rightarrow> time \<Rightarrow> RegisterRequest \<Rightarrow> 's \<Rightarrow> Device res \<times> 's"
    and get :: "string \<Rightarrow> 's \<Rightarrow> Device res \<times> 's"
    and set_status :: "string \<Rightarrow> DeviceStatus \<Rightarrow> 's \<Rightarrow> unit res \<times> 's"
    and update_seen :: "time \<Rightarrow> string \<Rightarrow> 's \<Rightarrow> unit res \<times> 's"
    and insert_hb :: "time \<Rightarrow> Heartbeat \<Rightarrow> 's \<Rightarrow> unit res \<times> 's"
    and list_hb :: "string \<Rightarrow> int \<Rightarrow> 's \<Rightarrow> Heartbeat list res \<times> 's"
    and create_diag :: "time \<Rightarrow> string \<Rightarrow> string \<Rightarrow> DiagnosticScope \<Rightarrow> 's \<Rightarrow> DiagnosticResult res \<times> 's"
    and delete_diag :: "string \<Rightarrow> 's \<Rightarrow> unit res \<times> 's"
    and save_diag :: "time \<Rightarrow> string \<Rightarrow> string \<Rightarrow> 's \<Rightarrow> unit res \<times> 's"
    and list_diag :: "string \<Rightarrow> int \<Rightarrow> 's \<Rightarrow> DiagnosticResult list res \<times> 's"
    and get_diag :: "string \<Rightarrow> 's \<Rightarrow> DiagnosticResult res \<times> 's"
  assumes keyed: "inv s \<Longrightarrow> st_devices (view s) i = Some d \<Longrightarrow> dev_ID d = i"
    and keyed_diag: "inv s \<Longrightarrow> st_diagnostics (view s) r = Some g \<Longrightarrow> diag_RequestID g = r"
    and inv_create: "inv s \<Longrightarrow> time_ok s now \<Longrightarrow> i \<noteq> [] \<Longrightarrow> inv (snd (create i now req s))"
    and inv_get: "inv s \<Longrightarrow> inv (snd (get i s)) \<and> view (snd (get i s)) = view s"
    and inv_set_status: "inv s \<Longrightarrow> inv (snd (set_status i st s))"
    and inv_update_seen: "inv s \<Longrightarrow> time_ok s now \<Longrightarrow> inv (snd (update_seen now i s))"
    and inv_insert_hb: "inv s \<Longrightarrow> time_ok s now \<Longrightarrow> inv (snd (insert_hb now hb s))"
    and inv_list_hb: "inv s \<Longrightarrow> inv (snd (list_hb i n s)) \<and> view (snd (list_hb i n s)) = view s"
    and inv_create_diag: "inv s \<Longrightarrow> time_ok s now \<Longrightarrow> inv (snd (create_diag now i r sc s))"
    and inv_delete_diag: "inv s \<Longrightarrow> inv (snd (delete_diag r s))"
    and inv_save_diag: "inv s \<Longrightarrow> time_ok s now \<Longrightarrow> inv (snd (save_diag now r p s))"
    and inv_list_diag: "inv s \<Longrightarrow> inv (snd (list_diag i n s)) \<and> view (snd (list_diag i n s)) = view s"
    and inv_get_diag: "inv s \<Longrightarrow> inv (snd (get_diag r s)) \<and> view (snd (get_diag r s)) = view s"
    and eff_create: "inv s \<Longrightarrow> time_ok s now \<Longrightarrow> i \<noteq> [] \<Longrightarrow>
      all_or_nothing view s (create i now req s)
        (\<lambda>d a. d = new_device i now req \<and> st_devices (view s) i = None \<and> a = add_device (new_device i (rnd s now) req) (view s))"
    and eff_set_status: "inv s \<Longrightarrow>
      all_or_nothing view s (set_status i st s)
        (\<lambda>_ a. st_devices (view s) i \<noteq> None \<and> a = change_device i (\<lambda>d. d\<lparr>dev_Status := st\<rparr>) (view s))"
    and eff_update_seen: "inv s \<Longrightarrow> time_ok s now \<Longrightarrow>
      all_or_nothing view s (update_seen now i s) (\<lambda>_ a. a = change_device i (seen_at (rnd s now)) (view s))"
    and eff_insert_hb: "inv s \<Longrightarrow> time_ok s now \<Longrightarrow>
      all_or_nothing view s (insert_hb now hb s)
        (\<lambda>_ a. st_devices (view s) (hb_DeviceID hb) \<noteq> None \<and>
           (\<exists>n. n \<notin> hb_ID ` set (st_heartbeats (view s)) \<and>
             a = add_heartbeat (hb\<lparr>hb_ID := n, hb_ReceivedAt := rnd s now\<rparr>) (view s)))"
    and eff_create_diag: "inv s \<Longrightarrow> time_ok s now \<Longrightarrow>
      all_or_nothing view s (create_diag now i r sc s)
        (\<lambda>g a. g = new_diagnostic 0 now i r sc \<and> st_devices (view s) i \<noteq> None \<and> st_diagnostics (view s) r = None \<and>
           (\<exists>n. a = add_diagnostic (new_diagnostic n (rnd s now) i r sc) (view s)))"
    and eff_delete_diag: "inv s \<Longrightarrow> all_or_nothing view s (delete_diag r s) (\<lambda>_ a. a = drop_diagnostic r (view s))"
    and eff_save_diag: "inv s \<Longrightarrow> time_ok s now \<Longrightarrow>
      all_or_nothing view s (save_diag now r p s)
        (\<lambda>_ a. st_diagnostics (view s) r \<noteq> None \<and> a = change_diagnostic r (answered (rnd s now) p) (view s))"
    and get_Ok: "inv s \<Longrightarrow> fst (get i s) = Ok d \<Longrightarrow> st_devices (view s) i = Some d"
    and get_Err: "inv s \<Longrightarrow> fst (get i s) = Err e \<Longrightarrow> errors_is e ErrNotFound \<Longrightarrow> st_devices (view s) i = None"
    and get_diag_Ok: "inv s \<Longrightarrow> fst (get_diag r s) = Ok g \<Longrightarrow> st_diagnostics (view s) r = Some g"
    and get_diag_Err: "inv s \<Longrightarrow> fst (get_diag r s) = Err e \<Longrightarrow> errors_is e ErrNotFound \<Longrightarrow> st_diagnostics (view s) r = None"
    and set_status_Err: "inv s \<Longrightarrow> fst (set_status i st s) = Err e \<Longrightarrow> errors_is e ErrNotFound \<Longrightarrow> st_devices (view s) i = None"
    and save_diag_Err: "inv s \<Longrightarrow> fst (save_diag now r p s) = Err e \<Longrightarrow> errors_is e ErrNotFound \<Longrightarrow> st_diagnostics (view s) r = None"
    and list_hb_Ok: "inv s \<Longrightarrow> fst (list_hb i n s) = Ok hbs \<Longrightarrow>
      newest hb_ReceivedAt n (mset (filter (\<lambda>h. hb_DeviceID h = i) (st_heartbeats (view s)))) hbs"
    and list_diag_Ok: "inv s \<Longrightarrow> 0 \<le> n \<Longrightarrow> fst (list_diag i n s) = Ok gs \<Longrightarrow>
      set gs \<subseteq> {g. \<exists>r. st_diagnostics (view s) r = Some g \<and> diag_DeviceID g = i} \<and>
      distinct (map diag_RequestID gs) \<and> sorted_wrt (\<lambda>a b. diag_RequestedAt b \<le> diag_RequestedAt a) gs \<and>
      (int (length gs) < n \<longrightarrow> set gs = {g. \<exists>r. st_diagnostics (view s) r = Some g \<and> diag_DeviceID g = i})"
    and quiet_get: "inv s \<Longrightarrow> quiet s \<Longrightarrow> (\<exists>r. get i s = (r, s) \<and> (st_devices (view s) i \<noteq> None \<longrightarrow> is_ok r) \<and>
        (st_devices (view s) i = None \<longrightarrow> r = Err ErrNotFound))"
    and quiet_get_diag: "inv s \<Longrightarrow> quiet s \<Longrightarrow> (\<exists>q. get_diag r s = (q, s) \<and> (st_diagnostics (view s) r \<noteq> None \<longrightarrow> is_ok q) \<and>
        (st_diagnostics (view s) r = None \<longrightarrow> q = Err ErrNotFound))"
    and quiet_create: "inv s \<Longrightarrow> quiet s \<Longrightarrow> time_ok s now \<Longrightarrow> hash_ok s (req_Secret req) \<Longrightarrow> st_devices (view s) i = None \<Longrightarrow>
        is_ok (fst (create i now req s))"
    and quiet_set_status: "inv s \<Longrightarrow> quiet s \<Longrightarrow>
        fst (set_status i st s) = (if st_devices (view s) i = None then Err ErrNotFound else Ok ())"
    and quiet_update_seen: "inv s \<Longrightarrow> quiet s \<Longrightarrow> fst (update_seen now i s) = Ok ()"
    and quiet_insert_hb: "inv s \<Longrightarrow> quiet s \<Longrightarrow>
        is_ok (fst (insert_hb now hb s)) \<longleftrightarrow> st_devices (view s) (hb_DeviceID hb) \<noteq> None"
    and quiet_list_hb: "inv s \<Longrightarrow> quiet s \<Longrightarrow> 0 \<le> n \<Longrightarrow> is_ok (fst (list_hb i n s))"
    and quiet_create_diag: "inv s \<Longrightarrow> quiet s \<Longrightarrow>
        is_ok (fst (create_diag now i r sc s)) \<longleftrightarrow> st_devices (view s) i \<noteq> None \<and> st_diagnostics (view s) r = None"
    and quiet_delete_diag: "inv s \<Longrightarrow> quiet s \<Longrightarrow> fst (delete_diag r s) = Ok ()"
    and quiet_save_diag: "inv s \<Longrightarrow> quiet s \<Longrightarrow>
        fst (save_diag now r p s) = (if st_diagnostics (view s) r = None then Err ErrNotFound else Ok ())"
    and quiet_list_diag: "inv s \<Longrightarrow> quiet s \<Longrightarrow> 0 \<le> n \<Longrightarrow> is_ok (fst (list_diag i n s))"
    and quiet_keeps: "quiet s \<Longrightarrow> quiet (snd (create i now req s)) \<and> quiet (snd (set_status i st s)) \<and>
        quiet (snd (update_seen now i s)) \<and> quiet (snd (insert_hb now hb s)) \<and>
        quiet (snd (create_diag now i r sc s)) \<and> quiet (snd (delete_diag r s)) \<and> quiet (snd (save_diag now r p s)) \<and>
        quiet (snd (list_hb i n s)) \<and> quiet (snd (list_diag i n s))"
begin

lemma get_exact:
  assumes "inv s" and "quiet s"
  shows "get i s = ((case st_devices (view s) i of None \<Rightarrow> Err ErrNotFound | Some d \<Rightarrow> Ok d), s)"
  using quiet_get [OF assms, of i] get_Ok [OF assms(1), of i] by (auto simp: is_ok_iff split: option.splits)

lemma get_diag_exact:
  assumes "inv s" and "quiet s"
  shows "get_diag r s = ((case st_diagnostics (view s) r of None \<Rightarrow> Err ErrNotFound | Some g \<Rightarrow> Ok g), s)"
  using quiet_get_diag [OF assms, of r] get_diag_Ok [OF assms(1), of r] by (auto simp: is_ok_iff split: option.splits)

text \<open>A device that was registered is found, as unknown, and nothing else changes.\<close>

lemma create_then_get:
  assumes "inv s" "quiet s" "time_ok s now" "i \<noteq> []" and ok: "create i now req s = (Ok d, s')"
  shows "fst (get k s') = (if k = i then Ok (new_device i (rnd s now) req) else fst (get k s))"
proof -
  have a: "st_devices (view s) i = None" "view s' = add_device (new_device i (rnd s now) req) (view s)"
    using eff_create [OF assms(1,3,4), of req] ok by (auto simp: all_or_nothing_def)
  have s': "inv s'" "quiet s'"
    using inv_create [OF assms(1,3,4), of req] quiet_keeps [OF assms(2)] ok by (metis snd_conv)+
  show ?thesis
    unfolding get_exact [OF s'] get_exact [OF assms(1,2)] a(2)
    by (simp add: add_device_def new_device_def)
qed

text \<open>A request goes from pending to answered exactly when a result for it is saved.\<close>

lemma request_then_answer:
  assumes "inv s" "quiet s" "time_ok s t0" "time_ok s1 t1" "p \<noteq> []"
    and req: "create_diag t0 i r sc s = (Ok g, s1)" and ans: "save_diag t1 r p s1 = (Ok u, s2)"
  shows "\<exists>n. fst (get_diag r s1) = Ok (new_diagnostic n (rnd s t0) i r sc) \<and>
    fst (get_diag r s2) = Ok ((new_diagnostic n (rnd s t0) i r sc)\<lparr>diag_ReceivedAt := Some (rnd s1 t1), diag_Payload := Some p\<rparr>)"
proof -
  obtain n where s1: "view s1 = add_diagnostic (new_diagnostic n (rnd s t0) i r sc) (view s)"
    using eff_create_diag [OF assms(1,3), of i r sc] req by (auto simp: all_or_nothing_def)
  have i1: "inv s1" "quiet s1"
    using inv_create_diag [OF assms(1,3), of i r sc] quiet_keeps [OF assms(2)] req by (metis snd_conv)+
  have s2: "view s2 = change_diagnostic r (answered (rnd s1 t1) p) (view s1)"
    using eff_save_diag [OF i1(1) assms(4), of r p] ans by (auto simp: all_or_nothing_def)
  have i2: "inv s2" "quiet s2"
    using inv_save_diag [OF i1(1) assms(4), of r p] quiet_keeps [OF i1(2)] ans by (metis snd_conv)+
  show ?thesis
    unfolding get_diag_exact [OF i1] get_diag_exact [OF i2] s2 s1
    using assms(5) by (auto simp: add_diagnostic_def change_diagnostic_def new_diagnostic_def answered_def)
qed

lemma delete_then_get:
  assumes "inv s" "quiet s" "delete_diag r s = (Ok u, s')"
  shows "fst (get_diag k s') = (if k = r then Err ErrNotFound else fst (get_diag k s))"
proof -
  have a: "view s' = drop_diagnostic r (view s)"
    using eff_delete_diag [OF assms(1), of r] assms(3) by (auto simp: all_or_nothing_def)
  have s': "inv s'" "quiet s'"
    using inv_delete_diag [OF assms(1), of r] quiet_keeps [OF assms(2)] assms(3) by (metis snd_conv)+
  show ?thesis
    unfolding get_diag_exact [OF s'] get_diag_exact [OF assms(1,2)] a by (simp add: drop_diagnostic_def)
qed

end

end
