(* ===== verification/Sql_View.thy ===== *)
theory Sql_View
  imports Store_Spec
begin

text \<open>
  The abstract state that the tables represent, given how a timestamp column is read, the
  invariant of the tables, and the effect of every statement on both, also when the driver
  fails. The two stores prove the contract from these lemmas.
\<close>

section \<open>Representation\<close>

definition dev_of :: "('t \<Rightarrow> time) \<Rightarrow> 't device_row \<Rightarrow> Device" where
  "dev_of dec r =
     \<lparr> dev_ID = r_id r, dev_Name = r_name r, dev_OS = r_os r, dev_Arch = r_arch r, dev_Status = r_status r,
       dev_RegisteredAt = dec (r_registered_at r), dev_LastSeenAt = map_option dec (r_last_seen_at r) \<rparr>"

definition hb_of :: "('t \<Rightarrow> time) \<Rightarrow> 't heartbeat_row \<Rightarrow> Heartbeat" where
  "hb_of dec r =
     \<lparr> hb_ID = h_id r, hb_DeviceID = h_device_id r, hb_ReceivedAt = dec (h_received_at r),
       hb_CPUPercent = h_cpu_percent r, hb_MemoryPercent = h_memory_percent r, hb_DiskPercent = h_disk_percent r,
       hb_UptimeSeconds = h_uptime_seconds r, hb_OSVersion = h_os_version r \<rparr>"

definition diag_of :: "('t \<Rightarrow> time) \<Rightarrow> 't diagnostic_row \<Rightarrow> DiagnosticResult" where
  "diag_of dec r =
     \<lparr> diag_ID = g_id r, diag_DeviceID = g_device_id r, diag_RequestID = g_request_id r,
       diag_Scope = g_scope r, diag_RequestedAt = dec (g_requested_at r),
       diag_ReceivedAt = map_option dec (g_received_at r), diag_Payload = payload_of (g_payload r), diag_Status = [] \<rparr>"

definition db_view :: "('t \<Rightarrow> time) \<Rightarrow> ('t, 'z) db_scheme \<Rightarrow> store_state" where
  "db_view dec s =
     \<lparr> st_devices = map_of (map (\<lambda>r. (r_id r, dev_of dec r)) (t_devices s)),
       st_heartbeats = map (hb_of dec) (t_heartbeats s),
       st_diagnostics = map_of (map (\<lambda>r. (g_request_id r, diag_of dec r)) (t_diagnostics s)) \<rparr>"

fun opt_all :: "('a \<Rightarrow> bool) \<Rightarrow> 'a option \<Rightarrow> bool" where
  "opt_all P None = True"
| "opt_all P (Some x) = P x"

definition device_row_ok :: "('t \<Rightarrow> bool) \<Rightarrow> 't device_row \<Rightarrow> bool" where
  "device_row_ok stamp r \<longleftrightarrow> r_id r \<noteq> [] \<and> stamp (r_registered_at r) \<and> opt_all stamp (r_last_seen_at r)"

definition diagnostic_row_ok :: "('t \<Rightarrow> bool) \<Rightarrow> 't diagnostic_row \<Rightarrow> bool" where
  "diagnostic_row_ok stamp r \<longleftrightarrow> stamp (g_requested_at r) \<and> opt_all stamp (g_received_at r)"

definition db_inv :: "('t \<Rightarrow> bool) \<Rightarrow> ('t, 'z) db_scheme \<Rightarrow> bool" where
  "db_inv stamp s \<longleftrightarrow>
     has_table s ''devices'' \<and> has_table s ''heartbeats'' \<and> has_table s ''diagnostic_results'' \<and>
     distinct (map r_id (t_devices s)) \<and> list_all (device_row_ok stamp) (t_devices s) \<and>
     distinct (map h_id (t_heartbeats s)) \<and>
     list_all (\<lambda>h. stamp (h_received_at h) \<and> h_id h \<le> hb_seq s \<and> h_device_id h \<in> r_id ` set (t_devices s)) (t_heartbeats s) \<and>
     distinct (map g_request_id (t_diagnostics s)) \<and> distinct (map g_id (t_diagnostics s)) \<and>
     list_all (\<lambda>g. diagnostic_row_ok stamp g \<and> g_id g \<le> diag_seq s \<and> g_device_id g \<in> r_id ` set (t_devices s)) (t_diagnostics s)"

lemma has_table_faults [simp]: "has_table (s\<lparr>faults := fs\<rparr>) t = has_table s t"
  by (simp add: has_table_def)

lemma db_view_faults [simp]: "db_view dec (s\<lparr>faults := fs\<rparr>) = db_view dec s"
  by (simp add: db_view_def)

lemma db_inv_faults [simp]: "db_inv stamp (s\<lparr>faults := fs\<rparr>) = db_inv stamp s"
  by (simp add: db_inv_def)

lemma db_inv_tables:
  "db_inv stamp s \<Longrightarrow> has_table s ''devices'' \<and> has_table s ''heartbeats'' \<and> has_table s ''diagnostic_results''"
  by (simp add: db_inv_def)

lemma map_of_key_None: "map_of (map (\<lambda>r. (k r, f r)) rs) i = None \<longleftrightarrow> i \<notin> k ` set rs"
  by (induction rs) auto

lemma map_of_key_Some: "map_of (map (\<lambda>r. (k r, f r)) rs) i = Some v \<Longrightarrow> \<exists>r \<in> set rs. k r = i \<and> f r = v"
  by (drule map_of_SomeD) auto

lemma map_of_key_in:
  "distinct (map k rs) \<Longrightarrow> r \<in> set rs \<Longrightarrow> map_of (map (\<lambda>r. (k r, f r)) rs) (k r) = Some (f r)"
  by (induction rs) (auto, metis image_eqI)

lemma db_view_device_None: "st_devices (db_view dec s) i = None \<longleftrightarrow> i \<notin> r_id ` set (t_devices s)"
  by (simp add: db_view_def map_of_key_None)

lemma db_view_diagnostic_None: "st_diagnostics (db_view dec s) i = None \<longleftrightarrow> i \<notin> g_request_id ` set (t_diagnostics s)"
  by (simp add: db_view_def map_of_key_None)

lemma db_view_keyed: "st_devices (db_view dec s) i = Some d \<Longrightarrow> dev_ID d = i"
  unfolding db_view_def by (auto simp: dev_of_def dest!: map_of_key_Some)

lemma db_view_keyed_diag: "st_diagnostics (db_view dec s) r = Some g \<Longrightarrow> diag_RequestID g = r"
  unfolding db_view_def by (auto simp: diag_of_def dest!: map_of_key_Some)

section \<open>Faults\<close>

lemma run_inv:
  assumes "db_inv stamp s" and "\<And>u. db_inv stamp u \<Longrightarrow> db_inv stamp (snd (st u))"
  shows "db_inv stamp (snd (run st s))"
  using assms by (intro run_invariant [where I = "db_inv stamp"]) auto

lemma same_faults: "faults s = fs \<Longrightarrow> s\<lparr>faults := fs\<rparr> = s"
  by (cases s) simp

lemma run_all_or_nothing:
  assumes "\<And>fs. all_or_nothing (db_view dec) s (st (s\<lparr>faults := fs\<rparr>)) eff" and "\<And>fs m. fst (st (s\<lparr>faults := fs\<rparr>)) \<noteq> Panic m"
  shows "all_or_nothing (db_view dec) s (run st s) eff"
proof (cases "faults s")
  case Nil
  then have "run st s = st (s\<lparr>faults := []\<rparr>)" by (simp add: run_def same_faults)
  with assms(1) show ?thesis by simp
next
  case (Cons f fs)
  then show ?thesis
    using assms(1) [of fs] assms(2) [of fs]
    by (cases f) (auto simp: run_def Let_def all_or_nothing_def split: res.splits)
qed

text \<open>An error of a run that is not the statement's own is the driver's text.\<close>

lemma run_result:
  obtains fs where "run st s = st (s\<lparr>faults := fs\<rparr>)"
  | m where "fst (run st s) = Err (ErrText m)"
proof (cases "faults s")
  case Nil
  then have "run st s = st (s\<lparr>faults := []\<rparr>)" by (simp add: run_def same_faults)
  then show ?thesis by (rule that(1))
next
  case (Cons f fs)
  then show ?thesis
    using that by (cases f) (auto simp: run_def Let_def)
qed

lemma run_read:
  assumes "\<And>u. snd (st u) = u"
  shows "db_view dec (snd (run st s)) = db_view dec s" and "db_inv stamp (snd (run st s)) = db_inv stamp s"
  using assms by (simp_all add: run_def Let_def split: list.split fault.split)

section \<open>Effects of the statements\<close>

lemma image_ids_map: "(\<And>r. k (f r) = k r) \<Longrightarrow> k ` set (map (\<lambda>r. if k r = i then f r else r) rs) = k ` set rs"
  by (induction rs) auto

lemma map_ids_map: "(\<And>r. k (f r) = k r) \<Longrightarrow> map k (map (\<lambda>r. if k r = i then f r else r) rs) = map k rs"
  by (induction rs) auto

lemma map_of_map_changed:
  assumes "\<And>r. k (f r) = k r" and "\<And>r. v (f r) = g (v r)"
  shows "map_of (map (\<lambda>r. (k r, v r)) (map (\<lambda>r. if k r = i then f r else r) rs)) =
    (map_of (map (\<lambda>r. (k r, v r)) rs))(i := map_option g (map_of (map (\<lambda>r. (k r, v r)) rs) i))"
  by (rule ext, induction rs) (auto simp: assms)

lemma map_of_snoc:
  "k r \<notin> k ` set rs \<Longrightarrow> map_of (map (\<lambda>r. (k r, v r)) (rs @ [r])) = (map_of (map (\<lambda>r. (k r, v r)) rs))(k r \<mapsto> v r)"
  using map_of_key_None [of k v rs "k r"] by (intro ext) (auto simp: map_add_def split: option.splits)

subsection \<open>Devices\<close>

lemma insert_device_inv:
  assumes "db_inv stamp s" and "device_row_ok stamp row"
  shows "db_inv stamp (snd (insert_device row s))"
  using assms by (auto simp: insert_device_def db_inv_def has_table_def list_all_iff)

lemma insert_device_effect:
  assumes "db_inv stamp s"
  shows "insert_device row s =
    (if st_devices (db_view dec s) (r_id row) = None then (Ok (), s\<lparr>t_devices := t_devices s @ [row]\<rparr>)
     else (Err (ErrText ''unique constraint failed''), s))"
    and "st_devices (db_view dec s) (r_id row) = None \<Longrightarrow>
      db_view dec (s\<lparr>t_devices := t_devices s @ [row]\<rparr>) = add_device (dev_of dec row) (db_view dec s)"
proof -
  show "insert_device row s =
    (if st_devices (db_view dec s) (r_id row) = None then (Ok (), s\<lparr>t_devices := t_devices s @ [row]\<rparr>)
     else (Err (ErrText ''unique constraint failed''), s))"
    using db_inv_tables [OF assms] by (auto simp: insert_device_def db_view_device_None)
  assume "st_devices (db_view dec s) (r_id row) = None"
  then have "r_id row \<notin> r_id ` set (t_devices s)" by (simp add: db_view_device_None)
  from map_of_snoc [OF this] show "db_view dec (s\<lparr>t_devices := t_devices s @ [row]\<rparr>) = add_device (dev_of dec row) (db_view dec s)"
    by (simp add: db_view_def add_device_def dev_of_def)
qed

lemma update_devices_inv:
  assumes "db_inv stamp s" and "\<And>r. r_id (f r) = r_id r" and "\<And>r. device_row_ok stamp r \<Longrightarrow> device_row_ok stamp (f r)"
  shows "db_inv stamp (snd (update_devices f i s))"
proof -
  define rs where "rs = map (\<lambda>r. if r_id r = i then f r else r) (t_devices s)"
  have "list_all (device_row_ok stamp) rs"
    using assms by (auto simp: rs_def db_inv_def list_all_iff)
  moreover have "r_id ` set rs = r_id ` set (t_devices s)" "map r_id rs = map r_id (t_devices s)"
    unfolding rs_def using assms(2) by (rule image_ids_map, rule map_ids_map)
  ultimately show ?thesis
    using assms(1) unfolding update_devices_def rs_def [symmetric] by (simp add: db_inv_def has_table_def)
qed

lemma update_devices_effect:
  assumes "db_inv stamp s" and "\<And>r. r_id (f r) = r_id r" and "\<And>r. dev_of dec (f r) = g (dev_of dec r)"
  shows "\<exists>n. fst (update_devices f i s) = Ok n \<and> (n = 0 \<longleftrightarrow> st_devices (db_view dec s) i = None)"
    and "db_view dec (snd (update_devices f i s)) = change_device i g (db_view dec s)"
proof -
  show "\<exists>n. fst (update_devices f i s) = Ok n \<and> (n = 0 \<longleftrightarrow> st_devices (db_view dec s) i = None)"
    using db_inv_tables [OF assms(1)] by (auto simp: update_devices_def db_view_device_None filter_empty_conv)
  show "db_view dec (snd (update_devices f i s)) = change_device i g (db_view dec s)"
    using db_inv_tables [OF assms(1)] map_of_map_changed [of r_id f "dev_of dec" g, OF assms(2,3)]
    by (simp add: update_devices_def db_view_def change_device_def)
qed

subsection \<open>Heartbeats\<close>

lemma insert_heartbeat_inv:
  assumes "db_inv stamp s" and "\<And>i. h_id (row i) = i" and "\<And>i. stamp (h_received_at (row i))"
  shows "db_inv stamp (snd (insert_heartbeat True burn row s))"
  using assms
  by (force simp: insert_heartbeat_def db_inv_def has_table_def list_all_iff Let_def)

lemma insert_heartbeat_effect:
  assumes "db_inv stamp s" and "\<And>i. h_id (row i) = i"
  defines "n \<equiv> hb_seq s + 1"
  shows "insert_heartbeat True burn row s =
    (if st_devices (db_view dec s) (h_device_id (row n)) \<noteq> None
     then (Ok (), s\<lparr>t_heartbeats := t_heartbeats s @ [row n], hb_seq := n\<rparr>)
     else (Err (ErrText ''foreign key constraint failed''), if burn then s\<lparr>hb_seq := n\<rparr> else s))"
    and "db_view dec (s\<lparr>t_heartbeats := t_heartbeats s @ [row n], hb_seq := n\<rparr>) =
      add_heartbeat (hb_of dec (row n)) (db_view dec s)"
    and "n \<notin> hb_ID ` set (st_heartbeats (db_view dec s))"
proof -
  show "insert_heartbeat True burn row s =
    (if st_devices (db_view dec s) (h_device_id (row n)) \<noteq> None
     then (Ok (), s\<lparr>t_heartbeats := t_heartbeats s @ [row n], hb_seq := n\<rparr>)
     else (Err (ErrText ''foreign key constraint failed''), if burn then s\<lparr>hb_seq := n\<rparr> else s))"
    using db_inv_tables [OF assms(1)]
    unfolding insert_heartbeat_def Let_def n_def [symmetric] db_view_device_None by simp
  show "db_view dec (s\<lparr>t_heartbeats := t_heartbeats s @ [row n], hb_seq := n\<rparr>) =
      add_heartbeat (hb_of dec (row n)) (db_view dec s)"
    by (simp add: db_view_def add_heartbeat_def)
  show "n \<notin> hb_ID ` set (st_heartbeats (db_view dec s))"
    using assms(1) by (force simp: db_view_def db_inv_def list_all_iff hb_of_def n_def)
qed

lemma db_view_seq [simp]:
  "db_view dec (s\<lparr>hb_seq := n\<rparr>) = db_view dec s" "db_view dec (s\<lparr>diag_seq := n\<rparr>) = db_view dec s"
  by (simp_all add: db_view_def)

subsection \<open>Diagnostics\<close>

lemma insert_diagnostic_inv:
  assumes "db_inv stamp s" and "\<And>i. g_id (row i) = i" and "\<And>i. diagnostic_row_ok stamp (row i)"
  shows "db_inv stamp (snd (insert_diagnostic True burn row s))"
  using assms
  by (force simp: insert_diagnostic_def db_inv_def has_table_def list_all_iff Let_def)

lemma insert_diagnostic_effect:
  assumes "db_inv stamp s" and "\<And>i. g_request_id (row i) = r" and "\<And>i. g_device_id (row i) = d"
  defines "n \<equiv> diag_seq s + 1"
  shows "st_devices (db_view dec s) d \<noteq> None \<and> st_diagnostics (db_view dec s) r = None \<Longrightarrow>
      insert_diagnostic True burn row s = (Ok (), s\<lparr>t_diagnostics := t_diagnostics s @ [row n], diag_seq := n\<rparr>)"
    and "\<not> (st_devices (db_view dec s) d \<noteq> None \<and> st_diagnostics (db_view dec s) r = None) \<Longrightarrow>
      \<exists>m. fst (insert_diagnostic True burn row s) = Err (ErrText m) \<and>
          db_view dec (snd (insert_diagnostic True burn row s)) = db_view dec s"
    and "st_diagnostics (db_view dec s) r = None \<Longrightarrow>
      db_view dec (s\<lparr>t_diagnostics := t_diagnostics s @ [row n], diag_seq := n\<rparr>) = add_diagnostic (diag_of dec (row n)) (db_view dec s)"
proof -
  show "st_devices (db_view dec s) d \<noteq> None \<and> st_diagnostics (db_view dec s) r = None \<Longrightarrow>
      insert_diagnostic True burn row s = (Ok (), s\<lparr>t_diagnostics := t_diagnostics s @ [row n], diag_seq := n\<rparr>)"
    using db_inv_tables [OF assms(1)] assms(2,3)
    by (simp add: insert_diagnostic_def Let_def n_def db_view_device_None db_view_diagnostic_None)
  show "\<not> (st_devices (db_view dec s) d \<noteq> None \<and> st_diagnostics (db_view dec s) r = None) \<Longrightarrow>
      \<exists>m. fst (insert_diagnostic True burn row s) = Err (ErrText m) \<and>
          db_view dec (snd (insert_diagnostic True burn row s)) = db_view dec s"
    using db_inv_tables [OF assms(1)] assms(2,3)
    by (auto simp: insert_diagnostic_def Let_def db_view_device_None db_view_diagnostic_None)
  assume "st_diagnostics (db_view dec s) r = None"
  then have "g_request_id (row n) \<notin> g_request_id ` set (t_diagnostics s)"
    by (simp add: db_view_diagnostic_None assms(2))
  from map_of_snoc [OF this] show "db_view dec (s\<lparr>t_diagnostics := t_diagnostics s @ [row n], diag_seq := n\<rparr>) =
      add_diagnostic (diag_of dec (row n)) (db_view dec s)"
    by (simp add: db_view_def add_diagnostic_def diag_of_def)
qed

lemma update_diagnostics_inv:
  assumes "db_inv stamp s" and "\<And>r. g_request_id (f r) = g_request_id r" "\<And>r. g_id (f r) = g_id r" "\<And>r. g_device_id (f r) = g_device_id r"
    and "\<And>r. diagnostic_row_ok stamp r \<Longrightarrow> diagnostic_row_ok stamp (f r)"
  shows "db_inv stamp (snd (update_diagnostics f i s))"
proof -
  define rs where "rs = map (\<lambda>r. if g_request_id r = i then f r else r) (t_diagnostics s)"
  have "list_all (\<lambda>g. diagnostic_row_ok stamp g \<and> g_id g \<le> diag_seq s \<and> g_device_id g \<in> r_id ` set (t_devices s)) rs"
    using assms by (auto simp: rs_def db_inv_def list_all_iff)
  moreover have "map g_request_id rs = map g_request_id (t_diagnostics s)" "map g_id rs = map g_id (t_diagnostics s)"
    unfolding rs_def using assms(2,3) by auto
  ultimately show ?thesis
    using assms(1) unfolding update_diagnostics_def rs_def [symmetric] by (simp add: db_inv_def has_table_def)
qed

lemma update_diagnostics_effect:
  assumes "db_inv stamp s" and "\<And>r. g_request_id (f r) = g_request_id r" and "\<And>r. diag_of dec (f r) = g (diag_of dec r)"
  shows "\<exists>n. fst (update_diagnostics f i s) = Ok n \<and> (n = 0 \<longleftrightarrow> st_diagnostics (db_view dec s) i = None)"
    and "db_view dec (snd (update_diagnostics f i s)) = change_diagnostic i g (db_view dec s)"
proof -
  show "\<exists>n. fst (update_diagnostics f i s) = Ok n \<and> (n = 0 \<longleftrightarrow> st_diagnostics (db_view dec s) i = None)"
    using db_inv_tables [OF assms(1)] by (auto simp: update_diagnostics_def db_view_diagnostic_None filter_empty_conv)
  show "db_view dec (snd (update_diagnostics f i s)) = change_diagnostic i g (db_view dec s)"
    using db_inv_tables [OF assms(1)] map_of_map_changed [of g_request_id f "diag_of dec" g, OF assms(2,3)]
    by (simp add: update_diagnostics_def db_view_def change_diagnostic_def)
qed

lemma map_of_filter_keys: "map_of (map (\<lambda>r. (k r, v r)) (filter (\<lambda>r. k r \<noteq> i) rs)) = (map_of (map (\<lambda>r. (k r, v r)) rs))(i := None)"
  by (rule ext, induction rs) auto

lemma delete_diagnostics_effect:
  assumes "db_inv stamp s"
  shows "fst (delete_diagnostics i s) = Ok ()"
    and "db_view dec (snd (delete_diagnostics i s)) = drop_diagnostic i (db_view dec s)"
    and "db_inv stamp (snd (delete_diagnostics i s))"
proof -
  show "fst (delete_diagnostics i s) = Ok ()"
    using db_inv_tables [OF assms] by (simp add: delete_diagnostics_def)
  show "db_view dec (snd (delete_diagnostics i s)) = drop_diagnostic i (db_view dec s)"
    using db_inv_tables [OF assms] by (simp add: delete_diagnostics_def db_view_def drop_diagnostic_def map_of_filter_keys)
  show "db_inv stamp (snd (delete_diagnostics i s))"
    using assms by (auto simp: delete_diagnostics_def db_inv_def has_table_def list_all_iff distinct_map_filter)
qed

section \<open>Queries\<close>

lemma select_snd [simp]:
  "snd (select_devices q s) = s" "snd (select_heartbeats q2 s) = s" "snd (select_diagnostics q3 s) = s"
  by (simp_all add: select_devices_def select_heartbeats_def select_diagnostics_def)

lemma first_row_filter:
  "first_row (filter (\<lambda>r. k r = i) rs) = (case map_of (map (\<lambda>r. (k r, r)) rs) i of None \<Rightarrow> Err ErrNoRows | Some r \<Rightarrow> Ok r)"
  by (induction rs) (auto simp: first_row_def)

lemma map_of_key_val: "map_of (map (\<lambda>r. (k r, v r)) rs) i = map_option v (map_of (map (\<lambda>r. (k r, r)) rs) i)"
  by (induction rs) auto

text \<open>An ordered and limited query, read through \<open>v\<close>, gives the newest rows.\<close>

lemma newest_order_by:
  assumes "scans_all f" and "weak_order lt"
    and "\<And>a b. a \<in> set rs \<Longrightarrow> b \<in> set rs \<Longrightarrow> \<not> lt b a \<Longrightarrow> tm (v b) \<le> tm (v a)"
  shows "newest tm n (mset (map v (filter P rs))) (map v (limit_rows n (order_by lt (filter P (f rs)))))"
proof -
  let ?o = "order_by lt (filter P (f rs))"
  have ms: "mset ?o = mset (filter P rs)" using assms(1) by (simp add: scans_all_def)
  then have "set ?o = set (filter P rs)" by (rule mset_eq_setD)
  then have "set ?o \<subseteq> set rs" by (simp del: set_order_by)
  have "sorted_wrt (\<lambda>a b. tm (v b) \<le> tm (v a)) ?o"
  proof (rule sorted_wrt_mono_rel [rotated])
    show "sorted_wrt (\<lambda>a b. \<not> lt b a) ?o" using assms(2) by (rule order_by_sorted)
    show "tm (v b) \<le> tm (v a)" if "a \<in> set ?o" "b \<in> set ?o" "\<not> lt b a" for a b
      using that \<open>set ?o \<subseteq> set rs\<close> assms(3) by blast
  qed
  then have "sorted_wrt (\<lambda>a b. tm b \<le> tm a) (map v ?o)" by (simp add: sorted_wrt_map)
  moreover have "mset (map v ?o) = mset (map v (filter P rs))" using ms by simp
  ultimately show ?thesis
    unfolding newest_def by (intro exI [of _ "map v ?o"]) (auto simp: limit_rows_def take_map)
qed

section \<open>Whole operations\<close>

text \<open>
  A statement run under faults, followed by what its caller makes of the result: if the
  statement is atomic and the caller only reports, the operation is atomic.
\<close>

lemma with_result_all_or_nothing:
  assumes "all_or_nothing v s out eff0"
    and "\<And>x a. eff0 x a \<Longrightarrow> (case g x of Ok w \<Rightarrow> eff w a | Err e \<Rightarrow> a = v s \<or> (\<exists>w. eff w a) | Panic m \<Rightarrow> False)"
  shows "all_or_nothing v s (with_result out f g) eff"
proof -
  have dn: "a = v s \<or> (\<exists>w. eff w a)" if "eff0 x a" for x a
    using assms(2) [OF that] by (auto split: res.splits)
  show ?thesis
  proof (cases "fst out")
    case (Ok x)
    then show ?thesis
      using assms(1) assms(2) [of x "v (snd out)"] by (auto simp: all_or_nothing_def with_result_def split: res.splits)
  next
    case (Err e)
    then show ?thesis
      using assms(1) dn by (auto simp: all_or_nothing_def with_result_def)
  qed (use assms(1) in \<open>simp add: all_or_nothing_def\<close>)
qed

lemma all_or_nothing_Ok: "fst out = Ok x \<Longrightarrow> eff x (v (snd out)) \<Longrightarrow> all_or_nothing v s out eff"
  by (simp add: all_or_nothing_def)

lemma all_or_nothing_Err: "fst out = Err e \<Longrightarrow> v (snd out) = v s \<Longrightarrow> all_or_nothing v s out eff"
  by (simp add: all_or_nothing_def)

lemma run_quiet: "faults s = [] \<Longrightarrow> run st s = st s"
  by (simp add: run_def)

lemma device_insertion:
  assumes "db_inv stamp s" and "dev_of dec row = d'"
  shows "all_or_nothing (db_view dec) s (with_result (run (insert_device row) s) f (\<lambda>_. Ok d))
      (\<lambda>v a. v = d \<and> st_devices (db_view dec s) (dev_ID d') = None \<and> a = add_device d' (db_view dec s))"
    and "faults s = [] \<Longrightarrow> st_devices (db_view dec s) (dev_ID d') = None \<Longrightarrow>
      fst (with_result (run (insert_device row) s) f (\<lambda>_. Ok d)) = Ok d"
proof -
  have i: "r_id row = dev_ID d'" using assms(2) by (auto simp: dev_of_def)
  have "all_or_nothing (db_view dec) s (run (insert_device row) s)
      (\<lambda>_ a. st_devices (db_view dec s) (dev_ID d') = None \<and> a = add_device d' (db_view dec s))"
  proof (rule run_all_or_nothing)
    fix fs
    have inv': "db_inv stamp (s\<lparr>faults := fs\<rparr>)" using assms(1) by simp
    from insert_device_effect [OF inv', where row = row and dec = dec]
    show "all_or_nothing (db_view dec) s (insert_device row (s\<lparr>faults := fs\<rparr>))
      (\<lambda>_ a. st_devices (db_view dec s) (dev_ID d') = None \<and> a = add_device d' (db_view dec s))"
      by (simp add: i assms(2) all_or_nothing_def)
    show "fst (insert_device row (s\<lparr>faults := fs\<rparr>)) \<noteq> Panic m" for m
      by (simp add: insert_device_def no_table_def)
  qed
  then show "all_or_nothing (db_view dec) s (with_result (run (insert_device row) s) f (\<lambda>_. Ok d))
      (\<lambda>v a. v = d \<and> st_devices (db_view dec s) (dev_ID d') = None \<and> a = add_device d' (db_view dec s))"
    by (rule with_result_all_or_nothing) simp
  show "fst (with_result (run (insert_device row) s) f (\<lambda>_. Ok d)) = Ok d"
    if "faults s = []" "st_devices (db_view dec s) (dev_ID d') = None"
    using insert_device_effect(1) [OF assms(1), where row = row and dec = dec] that
    by (simp add: run_quiet with_result_def i)
qed

lemma device_update:
  assumes "db_inv stamp s" and "\<And>r. r_id (h r) = r_id r" and "\<And>r. dev_of dec (h r) = g (dev_of dec r)"
  shows "all_or_nothing (db_view dec) s (run (update_devices h i) s)
      (\<lambda>n a. (n = 0 \<longleftrightarrow> st_devices (db_view dec s) i = None) \<and> a = change_device i g (db_view dec s))"
    and "faults s = [] \<Longrightarrow> \<exists>n. fst (run (update_devices h i) s) = Ok n \<and> (n = 0 \<longleftrightarrow> st_devices (db_view dec s) i = None)"
proof -
  have E: "\<exists>n. fst (update_devices h i (s\<lparr>faults := fs\<rparr>)) = Ok n \<and> (n = 0 \<longleftrightarrow> st_devices (db_view dec s) i = None)"
    "db_view dec (snd (update_devices h i (s\<lparr>faults := fs\<rparr>))) = change_device i g (db_view dec s)" for fs
    using update_devices_effect [of stamp "s\<lparr>faults := fs\<rparr>" h dec g i] assms by simp_all
  show "all_or_nothing (db_view dec) s (run (update_devices h i) s)
      (\<lambda>n a. (n = 0 \<longleftrightarrow> st_devices (db_view dec s) i = None) \<and> a = change_device i g (db_view dec s))"
  proof (rule run_all_or_nothing)
    fix fs
    obtain n where n: "fst (update_devices h i (s\<lparr>faults := fs\<rparr>)) = Ok n" "n = 0 \<longleftrightarrow> st_devices (db_view dec s) i = None"
      using E(1) [of fs] by (elim exE conjE)
    show "all_or_nothing (db_view dec) s (update_devices h i (s\<lparr>faults := fs\<rparr>))
      (\<lambda>n a. (n = 0 \<longleftrightarrow> st_devices (db_view dec s) i = None) \<and> a = change_device i g (db_view dec s))"
      using n(2) E(2) by (intro all_or_nothing_Ok [OF n(1)] conjI)
    show "fst (update_devices h i (s\<lparr>faults := fs\<rparr>)) \<noteq> Panic m" for m
      unfolding n(1) by simp
  qed
  show "\<exists>n. fst (run (update_devices h i) s) = Ok n \<and> (n = 0 \<longleftrightarrow> st_devices (db_view dec s) i = None)" if "faults s = []"
    using update_devices_effect(1) [OF assms, of i] that by (simp add: run_quiet)
qed

lemma change_device_none: "st_devices a i = None \<Longrightarrow> change_device i g a = a"
  by (cases a) (simp add: change_device_def fun_upd_idem)

lemma change_diagnostic_none: "st_diagnostics a i = None \<Longrightarrow> change_diagnostic i g a = a"
  by (cases a) (simp add: change_diagnostic_def fun_upd_idem)

text \<open>An update that reports \<^verbatim>\<open>ErrNotFound\<close> when it affects no row.\<close>

lemma device_update_or_missing:
  assumes "db_inv stamp s" and "\<And>r. r_id (h r) = r_id r" and "\<And>r. dev_of dec (h r) = g (dev_of dec r)"
  shows "all_or_nothing (db_view dec) s (with_result (run (update_devices h i) s) (Wrap m) not_found_if_none)
      (\<lambda>_ a. st_devices (db_view dec s) i \<noteq> None \<and> a = change_device i g (db_view dec s))"
    and "faults s = [] \<Longrightarrow> fst (with_result (run (update_devices h i) s) (Wrap m) not_found_if_none) =
      (if st_devices (db_view dec s) i = None then Err ErrNotFound else Ok ())"
    and "fst (with_result (run (update_devices h i) s) (Wrap m) not_found_if_none) = Err e \<Longrightarrow> errors_is e ErrNotFound \<Longrightarrow>
      st_devices (db_view dec s) i = None"
proof -
  note U = device_update [OF assms, of i]
  show "all_or_nothing (db_view dec) s (with_result (run (update_devices h i) s) (Wrap m) not_found_if_none)
      (\<lambda>_ a. st_devices (db_view dec s) i \<noteq> None \<and> a = change_device i g (db_view dec s))"
    by (rule with_result_all_or_nothing [OF U(1)]) (auto simp: not_found_if_none_def change_device_none)
  show "fst (with_result (run (update_devices h i) s) (Wrap m) not_found_if_none) =
      (if st_devices (db_view dec s) i = None then Err ErrNotFound else Ok ())" if "faults s = []"
    using U(2) [OF that] by (auto simp: with_result_def not_found_if_none_def)
  show "st_devices (db_view dec s) i = None"
    if "fst (with_result (run (update_devices h i) s) (Wrap m) not_found_if_none) = Err e" "errors_is e ErrNotFound"
  proof (rule run_result [of "update_devices h i" s])
    show ?thesis if "run (update_devices h i) s = update_devices h i (s\<lparr>faults := fs\<rparr>)" for fs
      using update_devices_effect(1) [of stamp "s\<lparr>faults := fs\<rparr>" h dec g i] assms
        \<open>fst _ = Err e\<close> that by (auto simp: with_result_def not_found_if_none_def split: if_splits)
    show ?thesis if "fst (run (update_devices h i) s) = Err (ErrText t)" for t
      using \<open>fst _ = Err e\<close> \<open>errors_is e ErrNotFound\<close> that by (auto simp: with_result_def)
  qed
qed

subsection \<open>Heartbeats and diagnostics\<close>

lemma heartbeat_insertion:
  assumes "db_inv stamp s" and "\<And>n. h_id (row n) = n" and "\<And>n. hb_of dec (row n) = hb\<lparr>hb_ID := n, hb_ReceivedAt := t\<rparr>"
  shows "all_or_nothing (db_view dec) s (with_result (run (insert_heartbeat True burn row) s) id (\<lambda>_. Ok ()))
      (\<lambda>_ a. st_devices (db_view dec s) (hb_DeviceID hb) \<noteq> None \<and>
         (\<exists>n. n \<notin> hb_ID ` set (st_heartbeats (db_view dec s)) \<and>
           a = add_heartbeat (hb\<lparr>hb_ID := n, hb_ReceivedAt := t\<rparr>) (db_view dec s)))"
    and "faults s = [] \<Longrightarrow> is_ok (fst (with_result (run (insert_heartbeat True burn row) s) id (\<lambda>_. Ok ()))) \<longleftrightarrow>
      st_devices (db_view dec s) (hb_DeviceID hb) \<noteq> None"
proof -
  let ?n = "hb_seq s + 1"
  have d: "h_device_id (row n) = hb_DeviceID hb" for n
    using arg_cong [OF assms(3) [of n], of hb_DeviceID] by (simp add: hb_of_def)
  let ?eff = "\<lambda>a. st_devices (db_view dec s) (hb_DeviceID hb) \<noteq> None \<and>
         (\<exists>n. n \<notin> hb_ID ` set (st_heartbeats (db_view dec s)) \<and>
           a = add_heartbeat (hb\<lparr>hb_ID := n, hb_ReceivedAt := t\<rparr>) (db_view dec s))"
  have "all_or_nothing (db_view dec) s (run (insert_heartbeat True burn row) s) (\<lambda>_ a. ?eff a)"
  proof (rule run_all_or_nothing)
    fix fs
    let ?u = "s\<lparr>faults := fs\<rparr>"
    have u: "db_inv stamp ?u" using assms(1) by simp
    note I = insert_heartbeat_effect [where row = row and dec = dec, OF u assms(2)]
    show "all_or_nothing (db_view dec) s (insert_heartbeat True burn row ?u) (\<lambda>_ a. ?eff a)"
    proof (cases "st_devices (db_view dec s) (hb_DeviceID hb) = None")
      case True
      then have "insert_heartbeat True burn row ?u =
          (Err (ErrText ''foreign key constraint failed''), if burn then ?u\<lparr>hb_seq := ?n\<rparr> else ?u)"
        using I(1) by (simp add: d)
      then show ?thesis by (simp add: all_or_nothing_def)
    next
      case False
      then have "insert_heartbeat True burn row ?u = (Ok (), ?u\<lparr>t_heartbeats := t_heartbeats s @ [row ?n], hb_seq := ?n\<rparr>)"
        using I(1) by (simp add: d)
      moreover have "?eff (db_view dec (?u\<lparr>t_heartbeats := t_heartbeats s @ [row ?n], hb_seq := ?n\<rparr>))"
        using False I(2,3) assms(3) by (intro conjI exI [of _ ?n]) simp_all
      ultimately show ?thesis by (intro all_or_nothing_Ok) simp_all
    qed
    show "fst (insert_heartbeat True burn row ?u) \<noteq> Panic m" for m
      by (simp add: insert_heartbeat_def no_table_def Let_def)
  qed
  then show "all_or_nothing (db_view dec) s (with_result (run (insert_heartbeat True burn row) s) id (\<lambda>_. Ok ())) (\<lambda>_ a. ?eff a)"
    by (rule with_result_all_or_nothing) simp
  show "is_ok (fst (with_result (run (insert_heartbeat True burn row) s) id (\<lambda>_. Ok ()))) \<longleftrightarrow>
      st_devices (db_view dec s) (hb_DeviceID hb) \<noteq> None" if "faults s = []"
    using insert_heartbeat_effect(1) [where row = row and dec = dec and burn = burn, OF assms(1,2)] that
    by (simp add: run_quiet with_result_def d)
qed

lemma diagnostic_insertion:
  assumes "db_inv stamp s" and row: "\<And>n. diag_of dec (row n) = new_diagnostic n t i r sc"
  shows "all_or_nothing (db_view dec) s (with_result (run (insert_diagnostic True burn row) s) f (\<lambda>_. Ok g))
      (\<lambda>v a. v = g \<and> st_devices (db_view dec s) i \<noteq> None \<and> st_diagnostics (db_view dec s) r = None \<and>
         (\<exists>n. a = add_diagnostic (new_diagnostic n t i r sc) (db_view dec s)))"
    and "faults s = [] \<Longrightarrow> is_ok (fst (with_result (run (insert_diagnostic True burn row) s) f (\<lambda>_. Ok g))) \<longleftrightarrow>
      st_devices (db_view dec s) i \<noteq> None \<and> st_diagnostics (db_view dec s) r = None"
proof -
  have g: "g_request_id (row n) = r" "g_device_id (row n) = i" for n
    using arg_cong [OF row [of n], of diag_RequestID] arg_cong [OF row [of n], of diag_DeviceID]
    by (simp_all add: diag_of_def new_diagnostic_def)
  let ?pre = "st_devices (db_view dec s) i \<noteq> None \<and> st_diagnostics (db_view dec s) r = None"
  let ?eff = "\<lambda>a. ?pre \<and> (\<exists>n. a = add_diagnostic (new_diagnostic n t i r sc) (db_view dec s))"
  note I = insert_diagnostic_effect [where row = row and r = r and d = i and dec = dec, OF _ g]
  have "all_or_nothing (db_view dec) s (run (insert_diagnostic True burn row) s) (\<lambda>_ a. ?eff a)"
  proof (rule run_all_or_nothing)
    fix fs
    let ?u = "s\<lparr>faults := fs\<rparr>"
    have u: "db_inv stamp ?u" using assms(1) by simp
    show "all_or_nothing (db_view dec) s (insert_diagnostic True burn row ?u) (\<lambda>_ a. ?eff a)"
    proof (cases ?pre)
      case True
      let ?n = "diag_seq ?u + 1"
      have "insert_diagnostic True burn row ?u = (Ok (), ?u\<lparr>t_diagnostics := t_diagnostics ?u @ [row ?n], diag_seq := ?n\<rparr>)"
        using True by (intro I(1) [OF u]) simp
      moreover have "?eff (db_view dec (?u\<lparr>t_diagnostics := t_diagnostics ?u @ [row ?n], diag_seq := ?n\<rparr>))"
        using True I(3) [OF u] row by (intro conjI exI [of _ ?n]) simp_all
      ultimately show ?thesis by (intro all_or_nothing_Ok) simp_all
    next
      case False
      from I(2) [OF u, of burn, unfolded db_view_faults, OF this]
      obtain m where "fst (insert_diagnostic True burn row ?u) = Err (ErrText m)"
          "db_view dec (snd (insert_diagnostic True burn row ?u)) = db_view dec s"
        by (elim exE conjE)
      then show ?thesis by (rule all_or_nothing_Err)
    qed
    show "fst (insert_diagnostic True burn row ?u) \<noteq> Panic m" for m
      by (simp add: insert_diagnostic_def no_table_def Let_def)
  qed
  from with_result_all_or_nothing [OF this, where f = f and g = "\<lambda>_. Ok g" and eff = "\<lambda>v a. v = g \<and> ?eff a"]
  show "all_or_nothing (db_view dec) s (with_result (run (insert_diagnostic True burn row) s) f (\<lambda>_. Ok g))
      (\<lambda>v a. v = g \<and> st_devices (db_view dec s) i \<noteq> None \<and> st_diagnostics (db_view dec s) r = None \<and>
         (\<exists>n. a = add_diagnostic (new_diagnostic n t i r sc) (db_view dec s)))"
    by (simp only: conj_assoc) simp
  show "is_ok (fst (with_result (run (insert_diagnostic True burn row) s) f (\<lambda>_. Ok g))) \<longleftrightarrow> ?pre" if "faults s = []"
  proof (cases ?pre)
    case True
    with I(1) [OF assms(1)] that show ?thesis by (simp add: run_quiet with_result_def)
  next
    case False
    with I(2) [OF assms(1), of burn] that show ?thesis by (auto simp: run_quiet with_result_def)
  qed
qed

lemma diagnostic_update_or_missing:
  assumes "db_inv stamp s" and "\<And>r. g_request_id (h r) = g_request_id r" and "\<And>r. diag_of dec (h r) = g (diag_of dec r)"
  shows "all_or_nothing (db_view dec) s (with_result (run (update_diagnostics h i) s) (Wrap m) not_found_if_none)
      (\<lambda>_ a. st_diagnostics (db_view dec s) i \<noteq> None \<and> a = change_diagnostic i g (db_view dec s))"
    and "faults s = [] \<Longrightarrow> fst (with_result (run (update_diagnostics h i) s) (Wrap m) not_found_if_none) =
      (if st_diagnostics (db_view dec s) i = None then Err ErrNotFound else Ok ())"
    and "fst (with_result (run (update_diagnostics h i) s) (Wrap m) not_found_if_none) = Err e \<Longrightarrow> errors_is e ErrNotFound \<Longrightarrow>
      st_diagnostics (db_view dec s) i = None"
proof -
  have E: "\<exists>n. fst (update_diagnostics h i (s\<lparr>faults := fs\<rparr>)) = Ok n \<and> (n = 0 \<longleftrightarrow> st_diagnostics (db_view dec s) i = None)"
    "db_view dec (snd (update_diagnostics h i (s\<lparr>faults := fs\<rparr>))) = change_diagnostic i g (db_view dec s)" for fs
    using update_diagnostics_effect [of stamp "s\<lparr>faults := fs\<rparr>" h dec g i] assms by simp_all
  have U: "all_or_nothing (db_view dec) s (run (update_diagnostics h i) s)
      (\<lambda>n a. (n = 0 \<longleftrightarrow> st_diagnostics (db_view dec s) i = None) \<and> a = change_diagnostic i g (db_view dec s))"
  proof (rule run_all_or_nothing)
    fix fs
    obtain n where n: "fst (update_diagnostics h i (s\<lparr>faults := fs\<rparr>)) = Ok n" "n = 0 \<longleftrightarrow> st_diagnostics (db_view dec s) i = None"
      using E(1) [of fs] by (elim exE conjE)
    show "all_or_nothing (db_view dec) s (update_diagnostics h i (s\<lparr>faults := fs\<rparr>))
      (\<lambda>n a. (n = 0 \<longleftrightarrow> st_diagnostics (db_view dec s) i = None) \<and> a = change_diagnostic i g (db_view dec s))"
      using n(2) E(2) by (intro all_or_nothing_Ok [OF n(1)] conjI)
    show "fst (update_diagnostics h i (s\<lparr>faults := fs\<rparr>)) \<noteq> Panic m" for m
      unfolding n(1) by simp
  qed
  show "all_or_nothing (db_view dec) s (with_result (run (update_diagnostics h i) s) (Wrap m) not_found_if_none)
      (\<lambda>_ a. st_diagnostics (db_view dec s) i \<noteq> None \<and> a = change_diagnostic i g (db_view dec s))"
    by (rule with_result_all_or_nothing [OF U]) (auto simp: not_found_if_none_def change_diagnostic_none)
  show "fst (with_result (run (update_diagnostics h i) s) (Wrap m) not_found_if_none) =
      (if st_diagnostics (db_view dec s) i = None then Err ErrNotFound else Ok ())" if "faults s = []"
    using update_diagnostics_effect(1) [OF assms, of i] that by (auto simp: run_quiet with_result_def not_found_if_none_def)
  show "st_diagnostics (db_view dec s) i = None"
    if "fst (with_result (run (update_diagnostics h i) s) (Wrap m) not_found_if_none) = Err e" "errors_is e ErrNotFound"
  proof (rule run_result [of "update_diagnostics h i" s])
    show ?thesis if "run (update_diagnostics h i) s = update_diagnostics h i (s\<lparr>faults := fs\<rparr>)" for fs
      using E(1) [of fs] \<open>fst _ = Err e\<close> that by (auto simp: with_result_def not_found_if_none_def split: if_splits)
    show ?thesis if "fst (run (update_diagnostics h i) s) = Err (ErrText t)" for t
      using \<open>fst _ = Err e\<close> \<open>errors_is e ErrNotFound\<close> that by (auto simp: with_result_def)
  qed
qed

lemma diagnostic_deletion:
  assumes "db_inv stamp s"
  shows "all_or_nothing (db_view dec) s (with_result (run (delete_diagnostics r) s) f (\<lambda>_. Ok ()))
      (\<lambda>_ a. a = drop_diagnostic r (db_view dec s))"
    and "faults s = [] \<Longrightarrow> fst (with_result (run (delete_diagnostics r) s) f (\<lambda>_. Ok ())) = Ok ()"
proof -
  have "all_or_nothing (db_view dec) s (run (delete_diagnostics r) s) (\<lambda>_ a. a = drop_diagnostic r (db_view dec s))"
    using delete_diagnostics_effect [where s = "s\<lparr>faults := _\<rparr>" and i = r] assms
    by (intro run_all_or_nothing) (simp_all add: all_or_nothing_def)
  then show "all_or_nothing (db_view dec) s (with_result (run (delete_diagnostics r) s) f (\<lambda>_. Ok ()))
      (\<lambda>_ a. a = drop_diagnostic r (db_view dec s))"
    by (rule with_result_all_or_nothing) simp
  show "fst (with_result (run (delete_diagnostics r) s) f (\<lambda>_. Ok ())) = Ok ()" if "faults s = []"
    using delete_diagnostics_effect(1) [OF assms] that by (simp add: run_quiet with_result_def)
qed

subsection \<open>Reading\<close>

text \<open>One row by its key: \<^verbatim>\<open>QueryRow\<close>, a scan helper, and \<^verbatim>\<open>ErrNoRows\<close> turned into \<^verbatim>\<open>ErrNotFound\<close>.\<close>

lemma read_one:
  assumes "\<And>r. r \<in> set rows \<Longrightarrow> scan (Ok r) = Ok (v r)" and "\<And>e. scan (Err e) = Err (Wrap m e)"
  shows "no_rows_not_found (scan (first_row (filter (\<lambda>r. k r = i) rows))) =
    (case map_of (map (\<lambda>r. (k r, v r)) rows) i of None \<Rightarrow> Err ErrNotFound | Some d \<Rightarrow> Ok d)"
proof (cases "map_of (map (\<lambda>r. (k r, r)) rows) i")
  case None
  then show ?thesis
    using assms(2) by (simp add: first_row_filter map_of_key_val [of k v] no_rows_not_found_def)
next
  case (Some r)
  then have "r \<in> set rows" by (auto dest!: map_of_key_Some)
  with Some assms(1) show ?thesis
    by (simp add: first_row_filter map_of_key_val [of k v] no_rows_not_found_def)
qed

lemma get_device:
  fixes i :: string
  assumes "db_inv stamp s" and "\<And>r. device_row_ok stamp r \<Longrightarrow> scan (Ok r) = Ok (dev_of dec r)" and "\<And>e. scan (Err e) = Err (Wrap m e)"
  defines "out \<equiv> no_rows_not_found (scan (res_bind (fst (run (select_devices (filter (\<lambda>r. r_id r = i))) s)) first_row))"
  shows "out = (case st_devices (db_view dec s) i of None \<Rightarrow> Err ErrNotFound | Some d \<Rightarrow> Ok d) \<or>
      (\<exists>t. out = Err (Wrap m (ErrText t)))"
    and "faults s = [] \<Longrightarrow> out = (case st_devices (db_view dec s) i of None \<Rightarrow> Err ErrNotFound | Some d \<Rightarrow> Ok d)"
proof -
  have rows: "scan (Ok r) = Ok (dev_of dec r)" if "r \<in> set (t_devices s)" for r
    using assms(1,2) that by (auto simp: db_inv_def list_all_iff)
  have sel: "no_rows_not_found (scan (res_bind (fst (select_devices (filter (\<lambda>r. r_id r = i)) (s\<lparr>faults := fs\<rparr>))) first_row)) =
      (case st_devices (db_view dec s) i of None \<Rightarrow> Err ErrNotFound | Some d \<Rightarrow> Ok d)" for fs
    using db_inv_tables [OF assms(1)] read_one [OF rows assms(3), of _ r_id i]
    by (simp add: select_devices_def db_view_def)
  show "out = (case st_devices (db_view dec s) i of None \<Rightarrow> Err ErrNotFound | Some d \<Rightarrow> Ok d) \<or>
      (\<exists>t. out = Err (Wrap m (ErrText t)))"
  proof (rule run_result [of "select_devices (filter (\<lambda>r. r_id r = i))" s])
    fix t assume "fst (run (select_devices (filter (\<lambda>r. r_id r = i))) s) = Err (ErrText t)"
    then have "out = Err (Wrap m (ErrText t))"
      by (simp add: out_def assms(3) no_rows_not_found_def)
    then show ?thesis by blast
  qed (simp add: out_def sel)
  show "out = (case st_devices (db_view dec s) i of None \<Rightarrow> Err ErrNotFound | Some d \<Rightarrow> Ok d)" if "faults s = []"
    using sel [of "[]"] that by (simp add: out_def run_quiet same_faults)
qed

lemma get_diagnostic:
  fixes i :: string
  assumes "db_inv stamp s" and "\<And>r. diagnostic_row_ok stamp r \<Longrightarrow> scan (Ok r) = Ok (diag_of dec r)" and "\<And>e. scan (Err e) = Err (Wrap m e)"
  defines "out \<equiv> no_rows_not_found (scan (res_bind (fst (run (select_diagnostics (filter (\<lambda>r. g_request_id r = i))) s)) first_row))"
  shows "out = (case st_diagnostics (db_view dec s) i of None \<Rightarrow> Err ErrNotFound | Some d \<Rightarrow> Ok d) \<or>
      (\<exists>t. out = Err (Wrap m (ErrText t)))"
    and "faults s = [] \<Longrightarrow> out = (case st_diagnostics (db_view dec s) i of None \<Rightarrow> Err ErrNotFound | Some d \<Rightarrow> Ok d)"
proof -
  have rows: "scan (Ok r) = Ok (diag_of dec r)" if "r \<in> set (t_diagnostics s)" for r
    using assms(1,2) that by (auto simp: db_inv_def list_all_iff)
  have sel: "no_rows_not_found (scan (res_bind (fst (select_diagnostics (filter (\<lambda>r. g_request_id r = i)) (s\<lparr>faults := fs\<rparr>))) first_row)) =
      (case st_diagnostics (db_view dec s) i of None \<Rightarrow> Err ErrNotFound | Some d \<Rightarrow> Ok d)" for fs
    using db_inv_tables [OF assms(1)] read_one [OF rows assms(3), of _ g_request_id i]
    by (simp add: select_diagnostics_def db_view_def)
  show "out = (case st_diagnostics (db_view dec s) i of None \<Rightarrow> Err ErrNotFound | Some d \<Rightarrow> Ok d) \<or>
      (\<exists>t. out = Err (Wrap m (ErrText t)))"
  proof (rule run_result [of "select_diagnostics (filter (\<lambda>r. g_request_id r = i))" s])
    fix t assume "fst (run (select_diagnostics (filter (\<lambda>r. g_request_id r = i))) s) = Err (ErrText t)"
    then have "out = Err (Wrap m (ErrText t))"
      by (simp add: out_def assms(3) no_rows_not_found_def)
    then show ?thesis by blast
  qed (simp add: out_def sel)
  show "out = (case st_diagnostics (db_view dec s) i of None \<Rightarrow> Err ErrNotFound | Some d \<Rightarrow> Ok d)" if "faults s = []"
    using sel [of "[]"] that by (simp add: out_def run_quiet same_faults)
qed

text \<open>A list of rows: an error, or what the rows mean.\<close>

lemma with_result_collect:
  assumes "\<And>fs. \<exists>rs. fst (st (s\<lparr>faults := fs\<rparr>)) = Ok (q rs) \<and> rs = (rows :: 'r list)"
    and "\<And>r. r \<in> set (q rows) \<Longrightarrow> scan (Ok r) = Ok (v r)"
  shows "fst (with_result (run st s) (Wrap m) (collect scan)) = Ok (map v (q rows)) \<or>
      (\<exists>t. fst (with_result (run st s) (Wrap m) (collect scan)) = Err (Wrap m (ErrText t)))"
    and "faults s = [] \<Longrightarrow> fst (with_result (run st s) (Wrap m) (collect scan)) = Ok (map v (q rows))"
proof -
  have c: "collect scan (q rows) = Ok (map v (q rows))" using assms(2) by (rule collect_Ok)
  have sel: "fst (st (s\<lparr>faults := fs\<rparr>)) = Ok (q rows)" for fs using assms(1) by blast
  show "fst (with_result (run st s) (Wrap m) (collect scan)) = Ok (map v (q rows)) \<or>
      (\<exists>t. fst (with_result (run st s) (Wrap m) (collect scan)) = Err (Wrap m (ErrText t)))"
  proof (rule run_result [of st s])
    show ?thesis if "run st s = st (s\<lparr>faults := fs\<rparr>)" for fs
      using sel [of fs] c that by (simp add: with_result_def)
    show ?thesis if "fst (run st s) = Err (ErrText t)" for t
      using that by (simp add: with_result_def)
  qed
  show "fst (with_result (run st s) (Wrap m) (collect scan)) = Ok (map v (q rows))" if "faults s = []"
    using sel [of "[]"] c that by (simp add: run_quiet with_result_def same_faults)
qed

lemma set_limit_rows: "set (limit_rows n xs) \<subseteq> set xs"
  by (auto simp: limit_rows_def dest: in_set_takeD)

lemma set_scans_all: "scans_all f \<Longrightarrow> set (f xs) = set xs"
  by (metis scans_all_def mset_eq_setD)

text \<open>The newest diagnostic requests of a device, each once.\<close>

lemma newest_diagnostics:
  assumes "newest diag_RequestedAt n (mset (map (diag_of dec) (filter (\<lambda>g. g_device_id g = i) (t_diagnostics s)))) gs"
    and "db_inv stamp s" and "0 \<le> n"
  defines "S \<equiv> {g. \<exists>r. st_diagnostics (db_view dec s) r = Some g \<and> diag_DeviceID g = i}"
  shows "set gs \<subseteq> S \<and> distinct (map diag_RequestID gs) \<and>
    sorted_wrt (\<lambda>a b. diag_RequestedAt b \<le> diag_RequestedAt a) gs \<and> (int (length gs) < n \<longrightarrow> set gs = S)"
proof -
  let ?rs = "filter (\<lambda>g. g_device_id g = i) (t_diagnostics s)"
  obtain ys where ys: "mset ys = mset (map (diag_of dec) ?rs)" "sorted_wrt (\<lambda>a b. diag_RequestedAt b \<le> diag_RequestedAt a) ys"
    "gs = take (nat n) ys"
    using assms(1,3) by (auto simp: newest_def)
  have d: "distinct (map g_request_id (t_diagnostics s))" using assms(2) by (simp add: db_inv_def)
  have S: "S = set ys"
  proof -
    have "set ys = diag_of dec ` set ?rs" using mset_eq_setD [OF ys(1)] by simp
    moreover have "S = diag_of dec ` set ?rs"
    proof (intro equalityI subsetI)
      fix g assume "g \<in> S"
      then obtain r where "r \<in> set (t_diagnostics s)" "diag_of dec r = g" "diag_DeviceID g = i"
        by (auto simp: S_def db_view_def dest!: map_of_key_Some)
      then show "g \<in> diag_of dec ` set ?rs" by (auto simp: diag_of_def)
    next
      fix g assume "g \<in> diag_of dec ` set ?rs"
      then obtain r where r: "r \<in> set (t_diagnostics s)" "g_device_id r = i" "g = diag_of dec r" by auto
      then have "st_diagnostics (db_view dec s) (g_request_id r) = Some g"
        using map_of_key_in [OF d, of r "diag_of dec"] by (simp add: db_view_def)
      with r show "g \<in> S" by (auto simp: S_def diag_of_def)
    qed
    ultimately show ?thesis by simp
  qed
  have "mset (map diag_RequestID ys) = mset (map g_request_id ?rs)"
  proof -
    have "mset (map diag_RequestID ys) = image_mset diag_RequestID (mset (map (diag_of dec) ?rs))"
      using ys(1) by (simp only: mset_map)
    then show ?thesis by (simp add: multiset.map_comp comp_def diag_of_def)
  qed
  then have "distinct (map diag_RequestID ys)"
    using d by (metis distinct_map_filter mset_eq_imp_distinct_iff)
  then show ?thesis
    unfolding ys(3) S using ys(2) set_take_subset [of "nat n" ys]
    by (auto simp: sorted_wrt_take take_map [symmetric] not_less)
qed

lemma weak_order_key: "weak_order (\<lambda>a b. k b < (k a :: 'k :: linorder))"
  by (auto simp: weak_order_def)

lemma stmt_faults:
  "faults (snd (insert_device row s)) = faults s" "faults (snd (update_devices f i s)) = faults s"
  "faults (snd (insert_heartbeat b c hrow s)) = faults s" "faults (snd (insert_diagnostic b c grow s)) = faults s"
  "faults (snd (update_diagnostics g i s)) = faults s" "faults (snd (delete_diagnostics i s)) = faults s"
  by (simp_all add: insert_device_def update_devices_def insert_heartbeat_def insert_diagnostic_def
      update_diagnostics_def delete_diagnostics_def Let_def)

lemma run_cases:
  obtains fs where "run st s = st (s\<lparr>faults := fs\<rparr>)"
  | m fs where "run st s = (Err (ErrText m), s\<lparr>faults := fs\<rparr>)"
  | m fs where "run st s = (Err (ErrText m), snd (st (s\<lparr>faults := fs\<rparr>)))"
proof (cases "faults s")
  case Nil
  then have "run st s = st (s\<lparr>faults := []\<rparr>)" by (simp add: run_def same_faults)
  then show ?thesis by (rule that(1))
next
  case (Cons f fs)
  then show ?thesis using that by (cases f) (auto simp: run_def Let_def)
qed

end
