(* ===== verification/Store_Pages.thy ===== *)
theory Store_Pages
  imports Store_Common
begin

text \<open>
  Reading the whole device list page by page, as a client of \<^verbatim>\<open>ListDevices\<close> does: it passes each
  page's cursor to the next call until a page comes without one. The store may change between
  the calls. The locale says what a page is; its lemmas say what such a walk returns.
\<close>

type_synonym device_key = "time \<times> string"

definition key_of :: "Device \<Rightarrow> device_key" where
  "key_of d = (dev_RegisteredAt d, dev_ID d)"

definition cursor_of :: "Device \<Rightarrow> string" where
  "cursor_of d = encodeDeviceCursor (dev_RegisteredAt d) (dev_ID d)"

lemma page_of_cursor:
  "page_of n ds = (take (nat n) ds, if int (length ds) > n then cursor_of (ds ! nat (n - 1)) else [])"
  by (simp add: page_of_def cursor_of_def)

lemma pair_less_iff: "((a :: 'a :: linorder), (b :: 'b :: linorder)) < (c, d) \<longleftrightarrow> a < c \<or> a = c \<and> b < d"
  by (auto simp: less_prod_def less_eq_prod_def)

text \<open>One call per state of the list; the states are those the calls find.\<close>

fun walk :: "('s \<Rightarrow> int \<Rightarrow> string \<Rightarrow> (Device list \<times> string) res) \<Rightarrow> int \<Rightarrow> 's list \<Rightarrow> string \<Rightarrow> (Device list \<times> string) res" where
  "walk page n [] c = Ok ([], c)"
| "walk page n (s # ss) c =
     res_bind (page s n c) (\<lambda>(ds, c').
       if c' = [] then Ok (ds, [])
       else res_bind (walk page n ss c') (\<lambda>(ds', e). Ok (ds @ ds', e)))"

locale keyset_pager =
  fixes inv :: "'s \<Rightarrow> bool"
    and page :: "'s \<Rightarrow> int \<Rightarrow> string \<Rightarrow> (Device list \<times> string) res"
    and listing :: "'s \<Rightarrow> Device list"
    and before :: "device_key \<Rightarrow> device_key \<Rightarrow> bool"
  assumes before_trans: "before a b \<Longrightarrow> before b c \<Longrightarrow> before a c"
    and before_irrefl: "\<not> before a a"
    and listing_sorted: "inv s \<Longrightarrow> sorted_wrt (\<lambda>x y. before (key_of x) (key_of y)) (listing s)"
    and page_first: "inv s \<Longrightarrow> 0 < n \<Longrightarrow> page s n [] = Ok (page_of n (listing s))"
    and page_next: "inv s \<Longrightarrow> inv u \<Longrightarrow> 0 < n \<Longrightarrow> d \<in> set (listing u) \<Longrightarrow>
      page s n (cursor_of d) = Ok (page_of n (filter (\<lambda>x. before (key_of d) (key_of x)) (listing s)))"
    and cursor_nonempty: "inv s \<Longrightarrow> d \<in> set (listing s) \<Longrightarrow> cursor_of d \<noteq> []"
begin

text \<open>A position in the listing: the start, or after a device that some valid state lists.\<close>

definition at_pos :: "string \<Rightarrow> device_key option \<Rightarrow> bool" where
  "at_pos c pos \<longleftrightarrow>
     (case pos of None \<Rightarrow> c = [] | Some k \<Rightarrow> \<exists>u d. inv u \<and> d \<in> set (listing u) \<and> c = cursor_of d \<and> k = key_of d)"

definition past :: "device_key option \<Rightarrow> device_key \<Rightarrow> bool" where
  "past pos k \<longleftrightarrow> (case pos of None \<Rightarrow> True | Some j \<Rightarrow> before j k)"

lemma past_Some: "past (Some j) k \<longleftrightarrow> before j k"
  by (simp add: past_def)

lemma past_trans: "past pos a \<Longrightarrow> before a b \<Longrightarrow> past pos b"
  by (cases pos) (simp_all add: past_def before_trans [of _ a b])

lemma page_at:
  assumes "inv s" and "0 < n" and "at_pos c pos"
  shows "page s n c = Ok (page_of n (filter (\<lambda>x. past pos (key_of x)) (listing s)))"
proof (cases pos)
  case None
  with assms page_first show ?thesis by (simp add: at_pos_def past_def)
next
  case (Some k)
  with assms(3) obtain u d where "inv u" "d \<in> set (listing u)" "c = cursor_of d" "k = key_of d"
    by (auto simp: at_pos_def simp del: split_paired_Ex)
  with page_next [OF assms(1) _ assms(2)] Some show ?thesis by (simp add: past_def)
qed

lemma rest_sorted:
  "inv s \<Longrightarrow> sorted_wrt (\<lambda>x y. before (key_of x) (key_of y)) (filter (\<lambda>x. past pos (key_of x)) (listing s))"
  using listing_sorted by (rule sorted_wrt_filter)

lemma take_before_nth:
  assumes "sorted_wrt (\<lambda>x y. before (key_of x) (key_of y)) xs" and "m < length xs" and "x \<in> set xs"
  shows "x \<in> set (take (Suc m) xs) \<and> (key_of x = key_of (xs ! m) \<or> before (key_of x) (key_of (xs ! m))) \<or>
    before (key_of (xs ! m)) (key_of x)"
proof -
  from assms(3) obtain j where j: "j < length xs" "x = xs ! j" by (auto simp: in_set_conv_nth)
  show ?thesis
  proof (cases j m rule: linorder_cases)
    case less
    then have "x \<in> set (take (Suc m) xs)" using j by (auto simp: in_set_conv_nth intro!: exI [of _ j])
    with less j assms(1,2) show ?thesis by (auto simp: sorted_wrt_iff_nth_less)
  next
    case equal
    then have "x \<in> set (take (Suc m) xs)" using j by (auto simp: in_set_conv_nth intro!: exI [of _ j])
    with equal j show ?thesis by simp
  next
    case greater
    with j assms(1,2) show ?thesis by (auto simp: sorted_wrt_iff_nth_less)
  qed
qed

lemma take_le_nth:
  assumes "sorted_wrt (\<lambda>x y. before (key_of x) (key_of y)) xs" and "m < length xs" and "x \<in> set (take (Suc m) xs)"
  shows "key_of x = key_of (xs ! m) \<or> before (key_of x) (key_of (xs ! m))"
proof -
  from assms(3) obtain j where j: "j \<le> m" "x = xs ! j" by (auto simp: in_set_conv_nth less_Suc_eq_le)
  with assms(1,2) show ?thesis by (cases "j = m") (auto simp: sorted_wrt_iff_nth_less)
qed

lemma walk_from:
  assumes "\<forall>s \<in> set ss. inv s" and "0 < n" and "at_pos c pos"
  shows "\<exists>ds e. walk page n ss c = Ok (ds, e) \<and>
    sorted_wrt (\<lambda>x y. before (key_of x) (key_of y)) ds \<and>
    (\<forall>d \<in> set ds. past pos (key_of d) \<and> (\<exists>s \<in> set ss. d \<in> set (listing s))) \<and>
    (ss \<noteq> [] \<and> e = [] \<longrightarrow> (\<forall>k. past pos k \<longrightarrow> (\<forall>s \<in> set ss. k \<in> key_of ` set (listing s)) \<longrightarrow> k \<in> key_of ` set ds))"
  using assms
proof (induction ss arbitrary: c pos)
  case Nil
  then show ?case by simp
next
  case (Cons s ss)
  let ?xs = "filter (\<lambda>x. past pos (key_of x)) (listing s)"
  have inv: "inv s" using Cons.prems(1) by simp
  have invs: "\<forall>s \<in> set ss. inv s" using Cons.prems(1) by simp
  have p: "page s n c = Ok (page_of n ?xs)" using inv Cons.prems(2,3) by (rule page_at)
  have srt: "sorted_wrt (\<lambda>x y. before (key_of x) (key_of y)) ?xs" using inv by (rule rest_sorted)
  show ?case
  proof (cases "int (length ?xs) > n")
    case False
    then have "walk page n (s # ss) c = Ok (?xs, [])" using p Cons.prems(2) by (simp add: page_of_cursor)
    then show ?thesis using srt by fastforce
  next
    case True
    define m where "m = nat (n - 1)"
    define z where "z = ?xs ! m"
    have m: "m < length ?xs" "Suc m = nat n" using True Cons.prems(2) by (auto simp: m_def)
    have z: "z \<in> set ?xs" unfolding z_def using m(1) by (rule nth_mem)
    then have zl: "z \<in> set (listing s)" "past pos (key_of z)" by simp_all
    have at': "at_pos (cursor_of z) (Some (key_of z))" using inv zl by (auto simp: at_pos_def)
    obtain ds' e where ih: "walk page n ss (cursor_of z) = Ok (ds', e)"
      "sorted_wrt (\<lambda>x y. before (key_of x) (key_of y)) ds'"
      "\<forall>d \<in> set ds'. before (key_of z) (key_of d) \<and> (\<exists>s \<in> set ss. d \<in> set (listing s))"
      "ss \<noteq> [] \<and> e = [] \<longrightarrow> (\<forall>k. before (key_of z) k \<longrightarrow> (\<forall>s \<in> set ss. k \<in> key_of ` set (listing s)) \<longrightarrow> k \<in> key_of ` set ds')"
      using Cons.IH [OF invs Cons.prems(2) at', unfolded past_Some] by (elim exE conjE)
    let ?ds = "take (nat n) ?xs @ ds'"
    have w: "walk page n (s # ss) c = Ok (?ds, e)"
      using p True ih(1) cursor_nonempty [OF inv zl(1)] by (simp add: page_of_cursor z_def m_def)
    have up: "key_of x = key_of z \<or> before (key_of x) (key_of z)" if "x \<in> set (take (nat n) ?xs)" for x
      unfolding z_def using take_le_nth [OF srt m(1)] that unfolding m(2) by blast
    have "sorted_wrt (\<lambda>x y. before (key_of x) (key_of y)) ?ds"
    proof (subst sorted_wrt_append, intro conjI ballI)
      fix x y assume x: "x \<in> set (take (nat n) ?xs)" and y: "y \<in> set ds'"
      have "before (key_of z) (key_of y)" using ih(3) y by blast
      with up [OF x] before_trans show "before (key_of x) (key_of y)" by metis
    qed (use srt ih(2) sorted_wrt_take in auto)
    moreover have "past pos (key_of d) \<and> (\<exists>s \<in> set (s # ss). d \<in> set (listing s))" if "d \<in> set ?ds" for d
    proof (cases "d \<in> set (take (nat n) ?xs)")
      case True
      then have "d \<in> set ?xs" by (rule in_set_takeD)
      then show ?thesis by simp
    next
      case False
      with that ih(3) have b: "before (key_of z) (key_of d)" "\<exists>s \<in> set ss. d \<in> set (listing s)" by auto
      have "past pos (key_of d)" using zl(2) b(1) by (rule past_trans)
      with b show ?thesis by auto
    qed
    moreover have "k \<in> key_of ` set ?ds"
      if e: "e = []" and k: "past pos k" "\<forall>u \<in> set (s # ss). k \<in> key_of ` set (listing u)" for k
    proof -
      from k have "k \<in> key_of ` set (listing s)" by simp
      with k(1) obtain x where x: "x \<in> set ?xs" "k = key_of x" by auto
      have ne: "ss \<noteq> []"
      proof
        assume "ss = []"
        with ih(1) e cursor_nonempty [OF inv zl(1)] show False by simp
      qed
      from take_before_nth [OF srt m(1) x(1)] consider "x \<in> set (take (nat n) ?xs)" | "before (key_of z) (key_of x)"
        unfolding m(2) z_def by blast
      then show ?thesis
      proof cases
        case 1
        with x show ?thesis by auto
      next
        case 2
        then have "k \<in> key_of ` set ds'"
          using ih(4) [rule_format, OF conjI [OF ne e], of k] k(2) x(2) by simp
        then show ?thesis by auto
      qed
    qed
    ultimately show ?thesis using w by blast
  qed
qed

text \<open>Nothing changes between the calls: enough of them return the listing.\<close>

lemma filter_after_nth:
  assumes "sorted_wrt (\<lambda>x y. before (key_of x) (key_of y)) xs" and "m < length xs"
  shows "filter (\<lambda>x. before (key_of (xs ! m)) (key_of x)) xs = drop (Suc m) xs"
proof -
  let ?P = "\<lambda>x. before (key_of (xs ! m)) (key_of x)"
  have "\<not> ?P x" if "x \<in> set (take (Suc m) xs)" for x
  proof
    assume P: "?P x"
    from that obtain j where j: "j \<le> m" "j < length xs" "x = xs ! j" by (auto simp: in_set_conv_nth less_Suc_eq_le)
    show False
    proof (cases "j = m")
      case True
      with P j before_irrefl show False by simp
    next
      case False
      with j assms have "before (key_of x) (key_of (xs ! m))" by (auto simp: sorted_wrt_iff_nth_less)
      with P before_trans before_irrefl show False by blast
    qed
  qed
  moreover have "?P x" if "x \<in> set (drop (Suc m) xs)" for x
  proof -
    from that obtain j where "j < length xs - Suc m" "x = xs ! (Suc m + j)" by (auto simp: in_set_conv_nth)
    with assms show ?thesis by (auto simp: sorted_wrt_iff_nth_less)
  qed
  ultimately have "filter ?P (take (Suc m) xs @ drop (Suc m) xs) = drop (Suc m) xs"
    unfolding filter_append by simp
  then show ?thesis by simp
qed

lemma walk_static:
  assumes "inv s" and "0 < n" and "at_pos c pos"
    and "int (length (filter (\<lambda>x. past pos (key_of x)) (listing s))) \<le> int (Suc m) * n"
  shows "walk page n (replicate (Suc m) s) c = Ok (filter (\<lambda>x. past pos (key_of x)) (listing s), [])"
  using assms(3,4)
proof (induction m arbitrary: c pos)
  case 0
  then show ?case using page_at [OF assms(1,2) 0(1)] assms(2) by (simp add: page_of_cursor)
next
  case (Suc m)
  let ?xs = "filter (\<lambda>x. past pos (key_of x)) (listing s)"
  have p: "page s n c = Ok (page_of n ?xs)" using assms(1,2) Suc.prems(1) by (rule page_at)
  show ?case
  proof (cases "int (length ?xs) > n")
    case False
    then show ?thesis using p assms(2) by (simp add: page_of_cursor)
  next
    case True
    define k where "k = nat (n - 1)"
    define z where "z = ?xs ! k"
    have k: "k < length ?xs" "Suc k = nat n" using True assms(2) by (auto simp: k_def)
    have "z \<in> set ?xs" unfolding z_def using k(1) by (rule nth_mem)
    then have z: "z \<in> set (listing s)" "past pos (key_of z)" by simp_all
    have at': "at_pos (cursor_of z) (Some (key_of z))" using assms(1) z by (auto simp: at_pos_def)
    have "filter (\<lambda>x. past (Some (key_of z)) (key_of x)) (listing s) = filter (\<lambda>x. before (key_of z) (key_of x)) ?xs"
      unfolding filter_filter past_Some using past_trans [OF z(2)] by (intro filter_cong refl) blast
    also have "\<dots> = drop (nat n) ?xs"
      unfolding z_def using filter_after_nth [OF rest_sorted [OF assms(1)] k(1)] k(2) by simp
    finally have r: "filter (\<lambda>x. past (Some (key_of z)) (key_of x)) (listing s) = drop (nat n) ?xs" .
    have "int (length (drop (nat n) ?xs)) \<le> int (Suc m) * n"
      using Suc.prems(2) True assms(2) by (simp add: of_nat_diff algebra_simps)
    then have "walk page n (replicate (Suc m) s) (cursor_of z) = Ok (drop (nat n) ?xs, [])"
      using Suc.IH [OF at'] unfolding r by blast
    then show ?thesis
      using p True cursor_nonempty [OF assms(1) z(1)] by (simp add: page_of_cursor z_def k_def)
  qed
qed

end

end
