(* ===== verification/SQLite_Store.thy ===== *)
theory SQLite_Store
  imports Sql_View Store_Pages
begin

text \<open>
  The SQLite store (\<^verbatim>\<open>internal/store/sqlite.go\<close>): timestamps are RFC 3339 texts, the schema
  version is \<^verbatim>\<open>PRAGMA user_version\<close>, and the pool has one connection. \<open>now\<close> and \<open>new_id\<close> are the
  results of \<^verbatim>\<open>time.Now().UTC()\<close> and \<^verbatim>\<open>uuid.New().String()\<close>.
\<close>

record sqlite = "string db" +
  user_version :: int
  foreign_keys :: bool
  pragmas :: "string list"

section \<open>Migrations\<close>

datatype ddl =
    CreateTable string
  | CreateIndex string string
  | PragmaInTx

text \<open>
  The statements of \<^verbatim>\<open>schema.sql\<close> and \<^verbatim>\<open>schema_v2.sql\<close>; \<^verbatim>\<open>PRAGMA foreign_keys\<close> has no effect inside a
  transaction.
\<close>

definition schemaV1 :: "ddl list" where
  "schemaV1 = [PragmaInTx, CreateTable ''devices'', CreateTable ''heartbeats'', CreateTable ''diagnostic_results'']"

definition schemaV2 :: "ddl list" where
  "schemaV2 = [CreateIndex ''idx_devices_registered_at_id'' ''devices'']"

definition migrations :: "(int \<times> ddl list) list" where
  "migrations = [(1, schemaV1), (2, schemaV2)]"

definition add_object :: "string \<Rightarrow> ('t, 'z) db_scheme \<Rightarrow> ('t, 'z) db_scheme" where
  "add_object n s = (if has_table s n then s else s\<lparr>schema_objects := schema_objects s @ [n]\<rparr>)"

fun exec_ddl :: "ddl list \<Rightarrow> (('t, 'z) db_scheme, unit) stmt" where
  "exec_ddl [] s = (Ok (), s)"
| "exec_ddl (CreateTable n # ds) s = exec_ddl ds (add_object n s)"
| "exec_ddl (CreateIndex n t # ds) s =
     (if has_table s t then exec_ddl ds (add_object n s) else (no_table, s))"
| "exec_ddl (PragmaInTx # ds) s = exec_ddl ds s"

definition exec_pragma :: "string \<Rightarrow> (sqlite, unit) stmt" where
  "exec_pragma p s =
     (Ok (), s\<lparr>pragmas := pragmas s @ [p],
               foreign_keys := (if p = ''PRAGMA foreign_keys = ON'' then True else foreign_keys s)\<rparr>)"

fun apply_each_pragma :: "string list \<Rightarrow> (sqlite, unit) stmt" where
  "apply_each_pragma [] s = (Ok (), s)"
| "apply_each_pragma (p # ps) s =
     (case run (exec_pragma p) s of
        (Ok _, s') \<Rightarrow> apply_each_pragma ps s'
      | (r, s') \<Rightarrow> (wrap_err ''store: %q: %w'' r, s'))"

definition applyPragmas :: "(sqlite, unit) stmt" where
  "applyPragmas = apply_each_pragma
     [''PRAGMA busy_timeout = 5000'', ''PRAGMA journal_mode = WAL'', ''PRAGMA synchronous = NORMAL'',
      ''PRAGMA foreign_keys = ON'']"

text \<open>A transaction that is rolled back, or whose commit is refused, leaves the contents it found.\<close>

definition rollback :: "sqlite \<Rightarrow> sqlite \<Rightarrow> sqlite" where
  "rollback s0 s = s0\<lparr>faults := faults s\<rparr>"

definition begin_tx :: "(sqlite, unit) stmt" where
  "begin_tx s = (Ok (), s)"

definition commit_tx :: "sqlite \<Rightarrow> (sqlite, unit) stmt" where
  "commit_tx s0 s =
     (case faults s of
        [] \<Rightarrow> (Ok (), s)
      | Fine # fs \<Rightarrow> (Ok (), s\<lparr>faults := fs\<rparr>)
      | Refused m # fs \<Rightarrow> (Err (ErrText m), rollback s0 (s\<lparr>faults := fs\<rparr>))
      | Unacked m # fs \<Rightarrow> (Err (ErrText m), s\<lparr>faults := fs\<rparr>)
      | Interrupted m # fs \<Rightarrow> (Err (ErrText m), rollback s0 (s\<lparr>faults := fs\<rparr>)))"

definition set_user_version :: "int \<Rightarrow> (sqlite, unit) stmt" where
  "set_user_version v s = (Ok (), s\<lparr>user_version := v\<rparr>)"

definition migration_step :: "int \<times> ddl list \<Rightarrow> (sqlite, unit) stmt" where
  "migration_step m s =
     (case run begin_tx s of
        (Ok _, s1) \<Rightarrow>
          (case run (exec_ddl (snd m)) s1 of
             (Ok _, s2) \<Rightarrow>
               (case run (set_user_version (fst m)) s2 of
                  (Ok _, s3) \<Rightarrow>
                    (case commit_tx s1 s3 of
                       (Ok _, s4) \<Rightarrow> (Ok (), s4)
                     | (r, s4) \<Rightarrow> (wrap_err ''store: commit migration %d: %w'' r, s4))
                | (r, s3) \<Rightarrow> (wrap_err ''store: set version %d: %w'' r, rollback s1 s3))
           | (r, s2) \<Rightarrow> (wrap_err ''store: apply migration %d: %w'' r, rollback s1 s2))
      | (r, s1) \<Rightarrow> (wrap_err ''store: begin migration %d: %w'' r, s1))"

fun migrate_from :: "int \<Rightarrow> (int \<times> ddl list) list \<Rightarrow> (sqlite, unit) stmt" where
  "migrate_from current [] s = (Ok (), s)"
| "migrate_from current (m # ms) s =
     (if fst m \<le> current then migrate_from current ms s
      else case migration_step m s of
             (Ok _, s') \<Rightarrow> migrate_from current ms s'
           | (r, s') \<Rightarrow> (r, s'))"

definition query_user_version :: "(sqlite, int) stmt" where
  "query_user_version s = (Ok (user_version s), s)"

definition migrate :: "(sqlite, unit) stmt" where
  "migrate s =
     (case run query_user_version s of
        (Ok current, s') \<Rightarrow> migrate_from current migrations s'
      | (Err e, s') \<Rightarrow> (Err (Wrap ''store: read schema version: %w'' e), s')
      | (Panic m, s') \<Rightarrow> (Panic m, s'))"

definition NewSQLite :: "(sqlite, unit) stmt" where
  "NewSQLite s = (case applyPragmas s of (Ok _, s') \<Rightarrow> migrate s' | (r, s') \<Rightarrow> (r, s'))"

section \<open>Scanning\<close>

datatype sql_value = NullV | TextV string | OtherV

definition rfc3339Time_Scan :: "sql_value \<Rightarrow> time res" where
  "rfc3339Time_Scan src =
     (case src of
        TextV s \<Rightarrow> (case Parse_RFC3339 s of Some t \<Rightarrow> Ok t | None \<Rightarrow> Err (ErrText ''rfc3339Time: %w''))
      | _ \<Rightarrow> Err (ErrText ''rfc3339Time: expected string, got %T''))"

definition nullRFC3339Time_Scan :: "sql_value \<Rightarrow> time option res" where
  "nullRFC3339Time_Scan src =
     (case src of
        NullV \<Rightarrow> Ok None
      | TextV s \<Rightarrow> (case Parse_RFC3339 s of Some t \<Rightarrow> Ok (Some t) | None \<Rightarrow> Err (ErrText ''nullRFC3339Time: %w''))
      | OtherV \<Rightarrow> Err (ErrText ''nullRFC3339Time: expected string or nil, got %T''))"

definition null_text :: "string option \<Rightarrow> sql_value" where
  "null_text c = (case c of None \<Rightarrow> NullV | Some s \<Rightarrow> TextV s)"

definition scanDevice :: "string device_row res \<Rightarrow> Device res" where
  "scanDevice row =
     wrap_err ''store: scan device: %w''
       (res_bind row (\<lambda>r.
        res_bind (rfc3339Time_Scan (TextV (r_registered_at r))) (\<lambda>reg.
        res_bind (nullRFC3339Time_Scan (null_text (r_last_seen_at r))) (\<lambda>seen.
        Ok \<lparr> dev_ID = r_id r, dev_Name = r_name r, dev_OS = r_os r, dev_Arch = r_arch r, dev_Status = r_status r,
             dev_RegisteredAt = reg, dev_LastSeenAt = seen \<rparr>))))"

definition scanHeartbeat :: "string heartbeat_row res \<Rightarrow> Heartbeat res" where
  "scanHeartbeat row =
     wrap_err ''store: scan heartbeat: %w''
       (res_bind row (\<lambda>r.
        res_bind (rfc3339Time_Scan (TextV (h_received_at r))) (\<lambda>received.
        Ok \<lparr> hb_ID = h_id r, hb_DeviceID = h_device_id r, hb_ReceivedAt = received,
             hb_CPUPercent = h_cpu_percent r, hb_MemoryPercent = h_memory_percent r,
             hb_DiskPercent = h_disk_percent r, hb_UptimeSeconds = h_uptime_seconds r,
             hb_OSVersion = h_os_version r \<rparr>)))"

definition scanDiagnostic :: "string diagnostic_row res \<Rightarrow> DiagnosticResult res" where
  "scanDiagnostic row =
     wrap_err ''store: scan diagnostic: %w''
       (res_bind row (\<lambda>r.
        res_bind (rfc3339Time_Scan (TextV (g_requested_at r))) (\<lambda>requested.
        res_bind (nullRFC3339Time_Scan (null_text (g_received_at r))) (\<lambda>received.
        Ok \<lparr> diag_ID = g_id r, diag_DeviceID = g_device_id r, diag_RequestID = g_request_id r,
             diag_Scope = g_scope r, diag_RequestedAt = requested, diag_ReceivedAt = received,
             diag_Payload = payload_of (g_payload r), diag_Status = [] \<rparr>))))"

section \<open>Operations\<close>

definition SQLite_Ping :: "(sqlite, unit) stmt" where
  "SQLite_Ping s = run ping s"

definition SQLite_CreateDevice ::
    "string deps \<Rightarrow> string \<Rightarrow> time \<Rightarrow> RegisterRequest \<Rightarrow> (sqlite, Device) stmt" where
  "SQLite_CreateDevice p new_id now req s =
     (case bcrypt p (req_Secret req) 12 of
        Inl e \<Rightarrow> (Err (Wrap ''store: hash secret: %w'' e), s)
      | Inr hash \<Rightarrow>
          with_result
            (run (insert_device
               \<lparr> r_id = new_id, r_name = req_Name req, r_os = req_OS req, r_arch = req_Arch req, r_secret_hash = hash,
                 r_status = ''unknown'', r_registered_at = Format_RFC3339 now, r_last_seen_at = None \<rparr>) s)
            (Wrap ''store: create device: %w'')
            (\<lambda>_. Ok \<lparr> dev_ID = new_id, dev_Name = req_Name req, dev_OS = req_OS req, dev_Arch = req_Arch req,
                       dev_Status = StatusUnknown, dev_RegisteredAt = now, dev_LastSeenAt = None \<rparr>))"

definition SQLite_GetDevice :: "string \<Rightarrow> (sqlite, Device) stmt" where
  "SQLite_GetDevice i s =
     (let (rows, s') = run (select_devices (filter (\<lambda>r. r_id r = i))) s
      in (no_rows_not_found (scanDevice (res_bind rows first_row)), s'))"

text \<open>\<^verbatim>\<open>ORDER BY registered_at DESC, id DESC\<close>, on texts in byte order.\<close>

definition newer :: "string device_row \<Rightarrow> string device_row \<Rightarrow> bool" where
  "newer a b \<longleftrightarrow> (r_registered_at b, r_id b) < (r_registered_at a, r_id a)"

definition SQLite_ListDevices ::
    "string deps \<Rightarrow> int \<Rightarrow> string \<Rightarrow> (sqlite, Device list \<times> string) stmt" where
  "SQLite_ListDevices p limit cursor s =
     (let query = \<lambda>cond.
        with_result
          (run (select_devices (\<lambda>rows. limit_rows (limit + 1) (order_by newer (filter cond (scan_devices p rows))))) s)
          (Wrap ''store: list devices: %w'')
          (\<lambda>rows. res_bind (collect scanDevice rows) (cut_page limit))
      in if cursor \<noteq> [] then
           (case decodeDeviceCursor cursor of
              Err e \<Rightarrow> (Err e, s)
            | Panic m \<Rightarrow> (Panic m, s)
            | Ok (registeredAt, i) \<Rightarrow>
                (let ts = Format_RFC3339 registeredAt
                 in query (\<lambda>r. r_registered_at r < ts \<or> r_registered_at r = ts \<and> r_id r < i)))
         else query (\<lambda>_. True))"

definition SQLite_SetDeviceStatus :: "string \<Rightarrow> DeviceStatus \<Rightarrow> (sqlite, unit) stmt" where
  "SQLite_SetDeviceStatus i status s =
     with_result (run (update_devices (\<lambda>r. r\<lparr>r_status := status\<rparr>) i) s)
       (Wrap ''store: set device status: %w'') not_found_if_none"

definition SQLite_UpdateLastSeen :: "time \<Rightarrow> string \<Rightarrow> (sqlite, unit) stmt" where
  "SQLite_UpdateLastSeen now i s =
     with_result
       (run (update_devices (\<lambda>r. r\<lparr>r_last_seen_at := Some (Format_RFC3339 now), r_status := ''online''\<rparr>) i) s)
       id (\<lambda>_. Ok ())"

definition SQLite_InsertHeartbeat :: "time \<Rightarrow> Heartbeat \<Rightarrow> (sqlite, unit) stmt" where
  "SQLite_InsertHeartbeat now hb s =
     with_result
       (run (insert_heartbeat (foreign_keys s) False
          (\<lambda>i. \<lparr> h_id = i, h_device_id = hb_DeviceID hb, h_received_at = Format_RFC3339 now,
                 h_cpu_percent = hb_CPUPercent hb, h_memory_percent = hb_MemoryPercent hb,
                 h_disk_percent = hb_DiskPercent hb, h_uptime_seconds = hb_UptimeSeconds hb,
                 h_os_version = hb_OSVersion hb \<rparr>)) s)
       id (\<lambda>_. Ok ())"

definition SQLite_ListHeartbeats :: "string deps \<Rightarrow> string \<Rightarrow> int \<Rightarrow> (sqlite, Heartbeat list) stmt" where
  "SQLite_ListHeartbeats p deviceID limit s =
     with_result
       (run (select_heartbeats (\<lambda>rows. limit_rows limit (order_by (\<lambda>a b. h_received_at b < h_received_at a)
          (filter (\<lambda>r. h_device_id r = deviceID) (scan_heartbeats p rows))))) s)
       (Wrap ''store: list heartbeats: %w'') (collect scanHeartbeat)"

definition SQLite_CreateDiagnosticRequest ::
    "time \<Rightarrow> string \<Rightarrow> string \<Rightarrow> DiagnosticScope \<Rightarrow> (sqlite, DiagnosticResult) stmt" where
  "SQLite_CreateDiagnosticRequest now deviceID requestID scope s =
     with_result
       (run (insert_diagnostic (foreign_keys s) False
          (\<lambda>i. \<lparr> g_id = i, g_device_id = deviceID, g_request_id = requestID, g_scope = scope,
                 g_requested_at = Format_RFC3339 now, g_received_at = None, g_payload = None \<rparr>)) s)
       (Wrap ''store: create diagnostic request: %w'')
       (\<lambda>_. Ok \<lparr> diag_ID = 0, diag_DeviceID = deviceID, diag_RequestID = requestID, diag_Scope = scope,
                  diag_RequestedAt = now, diag_ReceivedAt = None, diag_Payload = None, diag_Status = [] \<rparr>)"

definition SQLite_DeleteDiagnosticRequest :: "string \<Rightarrow> (sqlite, unit) stmt" where
  "SQLite_DeleteDiagnosticRequest requestID s =
     with_result (run (delete_diagnostics requestID) s)
       (Wrap ''store: delete diagnostic request: %w'') (\<lambda>_. Ok ())"

definition SQLite_SaveDiagnosticResult :: "time \<Rightarrow> string \<Rightarrow> string \<Rightarrow> (sqlite, unit) stmt" where
  "SQLite_SaveDiagnosticResult now requestID payload s =
     with_result
       (run (update_diagnostics
          (\<lambda>r. r\<lparr>g_received_at := Some (Format_RFC3339 now), g_payload := Some payload\<rparr>) requestID) s)
       (Wrap ''store: save diagnostic result: %w'') not_found_if_none"

definition SQLite_ListDiagnosticResults ::
    "string deps \<Rightarrow> string \<Rightarrow> int \<Rightarrow> (sqlite, DiagnosticResult list) stmt" where
  "SQLite_ListDiagnosticResults p deviceID limit s =
     with_result
       (run (select_diagnostics (\<lambda>rows. limit_rows limit (order_by (\<lambda>a b. g_requested_at b < g_requested_at a)
          (filter (\<lambda>r. g_device_id r = deviceID) (scan_diagnostics p rows))))) s)
       (Wrap ''store: list diagnostics: %w'') (collect scanDiagnostic)"

definition SQLite_GetDiagnosticResult :: "string \<Rightarrow> (sqlite, DiagnosticResult) stmt" where
  "SQLite_GetDiagnosticResult requestID s =
     (let (rows, s') = run (select_diagnostics (filter (\<lambda>r. g_request_id r = requestID))) s
      in (no_rows_not_found (scanDiagnostic (res_bind rows first_row)), s'))"

section \<open>Timestamps as texts\<close>

definition stamp :: "string \<Rightarrow> bool" where
  "stamp x \<longleftrightarrow> (case Parse_RFC3339 x of None \<Rightarrow> False | Some t \<Rightarrow> year_ok t \<and> Format_RFC3339 t = x \<and> t \<noteq> zero_time)"

definition stamp_time :: "string \<Rightarrow> time" where
  "stamp_time x = (case Parse_RFC3339 x of None \<Rightarrow> zero_time | Some t \<Rightarrow> t)"

definition clock_ok :: "time \<Rightarrow> bool" where
  "clock_ok now \<longleftrightarrow> year_ok now \<and> trunc_secs now \<noteq> zero_time"

lemma Parse_Format_trunc: "year_ok t \<Longrightarrow> Parse_RFC3339 (Format_RFC3339 t) = Some (trunc_secs t)"
  by (simp add: Parse_Format trunc_secs_def)

lemma stamp_Format: "clock_ok now \<Longrightarrow> stamp (Format_RFC3339 now)"
  by (simp add: stamp_def clock_ok_def Parse_Format_trunc)

lemma stamp_time_Format [simp]: "clock_ok now \<Longrightarrow> stamp_time (Format_RFC3339 now) = trunc_secs now"
  by (simp add: stamp_time_def clock_ok_def Parse_Format_trunc)

lemma stamp_parse: "stamp x \<Longrightarrow> Parse_RFC3339 x = Some (stamp_time x)"
  by (auto simp: stamp_def stamp_time_def split: option.splits)

lemma stamp_timeD:
  assumes "stamp x"
  shows "year_ok (stamp_time x)" "Format_RFC3339 (stamp_time x) = x" "stamp_time x \<noteq> zero_time"
    "stamp_time x = secs (stamp_time x) * second"
proof -
  from assms show *: "year_ok (stamp_time x)" "Format_RFC3339 (stamp_time x) = x" "stamp_time x \<noteq> zero_time"
    by (auto simp: stamp_def stamp_time_def split: option.splits)
  show "stamp_time x = secs (stamp_time x) * second"
    using Parse_Format [OF *(1)] stamp_parse [OF assms] *(2) by simp
qed

lemma stamp_less_iff:
  assumes "stamp x" "stamp y"
  shows "x < y \<longleftrightarrow> stamp_time x < stamp_time y"
proof -
  have "x < y \<longleftrightarrow> secs (stamp_time x) < secs (stamp_time y)"
    using Format_less_iff [of "stamp_time x" "stamp_time y"] stamp_timeD assms by metis
  also have "\<dots> \<longleftrightarrow> stamp_time x < stamp_time y"
    using stamp_timeD(4) [OF assms(1), unfolded second_def] stamp_timeD(4) [OF assms(2), unfolded second_def]
    by (intro iffI) linarith+
  finally show ?thesis .
qed

lemma stamp_inj: "stamp x \<Longrightarrow> stamp y \<Longrightarrow> stamp_time x = stamp_time y \<longleftrightarrow> x = y"
  using stamp_timeD(2) by metis

section \<open>The contract\<close>

definition sqlite_inv :: "sqlite \<Rightarrow> bool" where
  "sqlite_inv s \<longleftrightarrow> db_inv stamp s \<and> foreign_keys s"

definition sqlite_view :: "sqlite \<Rightarrow> store_state" where
  "sqlite_view s = db_view stamp_time s"

definition sqlite_quiet :: "sqlite \<Rightarrow> bool" where
  "sqlite_quiet s \<longleftrightarrow> faults s = []"

lemma scanDevice_Ok: "device_row_ok stamp r \<Longrightarrow> scanDevice (Ok r) = Ok (dev_of stamp_time r)"
  by (auto simp: scanDevice_def device_row_ok_def rfc3339Time_Scan_def nullRFC3339Time_Scan_def null_text_def
      stamp_parse dev_of_def split: option.splits)

lemma scanHeartbeat_Ok: "stamp (h_received_at r) \<Longrightarrow> scanHeartbeat (Ok r) = Ok (hb_of stamp_time r)"
  by (simp add: scanHeartbeat_def rfc3339Time_Scan_def stamp_parse hb_of_def)

lemma scanDiagnostic_Ok: "diagnostic_row_ok stamp r \<Longrightarrow> scanDiagnostic (Ok r) = Ok (diag_of stamp_time r)"
  by (auto simp: scanDiagnostic_def diagnostic_row_ok_def rfc3339Time_Scan_def nullRFC3339Time_Scan_def null_text_def
      stamp_parse diag_of_def split: option.splits)

lemma scan_Err:
  "scanDevice (Err e) = Err (Wrap ''store: scan device: %w'' e)"
  "scanDiagnostic (Err e) = Err (Wrap ''store: scan diagnostic: %w'' e)"
  by (simp_all add: scanDevice_def scanDiagnostic_def)

lemma run_foreign_keys:
  assumes "\<And>u. foreign_keys (snd (st u)) = foreign_keys u"
  shows "foreign_keys (snd (run st s)) = foreign_keys (s::sqlite)"
  using run_invariant [where I = "\<lambda>u. foreign_keys u = foreign_keys s" and st = st and s = s] assms by simp

lemma stmt_foreign_keys [simp]:
  "foreign_keys (snd (insert_device row s)) = foreign_keys (s::sqlite)"
  "foreign_keys (snd (update_devices f i s)) = foreign_keys s"
  "foreign_keys (snd (insert_heartbeat b c hrow s)) = foreign_keys s"
  "foreign_keys (snd (insert_diagnostic b c grow s)) = foreign_keys s"
  "foreign_keys (snd (update_diagnostics g i s)) = foreign_keys s"
  "foreign_keys (snd (delete_diagnostics i s)) = foreign_keys s"
  by (simp_all add: insert_device_def update_devices_def insert_heartbeat_def insert_diagnostic_def
      update_diagnostics_def delete_diagnostics_def Let_def)

lemma run_sqlite_inv:
  assumes "sqlite_inv s" and "\<And>u. db_inv stamp u \<Longrightarrow> db_inv stamp (snd (st u))"
    and "\<And>u. foreign_keys (snd (st u)) = foreign_keys u"
  shows "sqlite_inv (snd (run st s))"
  using assms run_inv [of stamp s st] run_foreign_keys [of st s] by (simp add: sqlite_inv_def)

text \<open>The statements that an operation runs, for the laws on whole operations.\<close>

lemma sqlite_CreateDevice_inv:
  "sqlite_inv s \<Longrightarrow> clock_ok now \<Longrightarrow> i \<noteq> [] \<Longrightarrow> sqlite_inv (snd (SQLite_CreateDevice p i now req s))"
  unfolding SQLite_CreateDevice_def
  by (auto split: sum.split intro!: run_sqlite_inv insert_device_inv simp: device_row_ok_def stamp_Format)

lemma sqlite_CreateDevice_effect:
  assumes "sqlite_inv s" "clock_ok now"
  shows "all_or_nothing sqlite_view s (SQLite_CreateDevice p i now req s)
      (\<lambda>d a. d = new_device i now req \<and> st_devices (sqlite_view s) i = None \<and>
         a = add_device (new_device i (trunc_secs now) req) (sqlite_view s))"
    and "sqlite_quiet s \<Longrightarrow> \<not> isl (bcrypt p (req_Secret req) 12) \<Longrightarrow> st_devices (sqlite_view s) i = None \<Longrightarrow>
      is_ok (fst (SQLite_CreateDevice p i now req s))"
proof -
  have inv: "db_inv stamp s" using assms(1) by (simp add: sqlite_inv_def)
  have d: "dev_of stamp_time \<lparr> r_id = i, r_name = req_Name req, r_os = req_OS req, r_arch = req_Arch req,
      r_secret_hash = hash, r_status = ''unknown'', r_registered_at = Format_RFC3339 now, r_last_seen_at = None \<rparr>
    = new_device i (trunc_secs now) req" for hash
    using assms(2) by (simp add: dev_of_def new_device_def StatusUnknown_def)
  have n: "dev_ID (new_device i (trunc_secs now) req) = i" by (simp add: new_device_def)
  note D = device_insertion [OF inv d, unfolded n]
  show "all_or_nothing sqlite_view s (SQLite_CreateDevice p i now req s)
      (\<lambda>d a. d = new_device i now req \<and> st_devices (sqlite_view s) i = None \<and>
         a = add_device (new_device i (trunc_secs now) req) (sqlite_view s))"
    unfolding SQLite_CreateDevice_def sqlite_view_def new_device_def [of i now, symmetric]
    using D(1) by (auto split: sum.split intro: all_or_nothing_Err)
  show "is_ok (fst (SQLite_CreateDevice p i now req s))"
    if "sqlite_quiet s" "\<not> isl (bcrypt p (req_Secret req) 12)" "st_devices (sqlite_view s) i = None"
    using that unfolding SQLite_CreateDevice_def
    by (cases "bcrypt p (req_Secret req) 12") (simp_all add: sqlite_quiet_def sqlite_view_def D(2))
qed

lemma sqlite_SetDeviceStatus:
  assumes "sqlite_inv s"
  shows "sqlite_inv (snd (SQLite_SetDeviceStatus i st s))"
    and "all_or_nothing sqlite_view s (SQLite_SetDeviceStatus i st s)
      (\<lambda>_ a. st_devices (sqlite_view s) i \<noteq> None \<and> a = change_device i (\<lambda>d. d\<lparr>dev_Status := st\<rparr>) (sqlite_view s))"
    and "sqlite_quiet s \<Longrightarrow> fst (SQLite_SetDeviceStatus i st s) = (if st_devices (sqlite_view s) i = None then Err ErrNotFound else Ok ())"
    and "fst (SQLite_SetDeviceStatus i st s) = Err e \<Longrightarrow> errors_is e ErrNotFound \<Longrightarrow> st_devices (sqlite_view s) i = None"
proof -
  have inv: "db_inv stamp s" using assms by (simp add: sqlite_inv_def)
  note U = device_update_or_missing [OF inv, where h = "\<lambda>r. r\<lparr>r_status := st\<rparr>" and dec = stamp_time
      and g = "\<lambda>d. d\<lparr>dev_Status := st\<rparr>" and i = i and m = "''store: set device status: %w''"]
  have d: "dev_of stamp_time (r\<lparr>r_status := st\<rparr>) = (dev_of stamp_time r)\<lparr>dev_Status := st\<rparr>" for r :: "string device_row"
    by (simp add: dev_of_def)
  show "sqlite_inv (snd (SQLite_SetDeviceStatus i st s))"
    unfolding SQLite_SetDeviceStatus_def snd_with_result using assms
    by (intro run_sqlite_inv update_devices_inv) (simp_all add: device_row_ok_def)
  show "all_or_nothing sqlite_view s (SQLite_SetDeviceStatus i st s)
      (\<lambda>_ a. st_devices (sqlite_view s) i \<noteq> None \<and> a = change_device i (\<lambda>d. d\<lparr>dev_Status := st\<rparr>) (sqlite_view s))"
    unfolding SQLite_SetDeviceStatus_def sqlite_view_def by (rule U(1)) (simp_all add: d)
  show "fst (SQLite_SetDeviceStatus i st s) = (if st_devices (sqlite_view s) i = None then Err ErrNotFound else Ok ())" if "sqlite_quiet s"
    unfolding SQLite_SetDeviceStatus_def sqlite_view_def using that by (intro U(2)) (simp_all add: d sqlite_quiet_def)
  show "st_devices (sqlite_view s) i = None" if "fst (SQLite_SetDeviceStatus i st s) = Err e" "errors_is e ErrNotFound"
    using that unfolding SQLite_SetDeviceStatus_def sqlite_view_def by (intro U(3)) (simp_all add: d)
qed

lemma sqlite_UpdateLastSeen:
  assumes "sqlite_inv s" and "clock_ok now"
  shows "sqlite_inv (snd (SQLite_UpdateLastSeen now i s))"
    and "all_or_nothing sqlite_view s (SQLite_UpdateLastSeen now i s)
      (\<lambda>_ a. a = change_device i (seen_at (trunc_secs now)) (sqlite_view s))"
proof -
  have inv: "db_inv stamp s" using assms by (simp add: sqlite_inv_def)
  note U = device_update [OF inv, where h = "\<lambda>r. r\<lparr>r_last_seen_at := Some (Format_RFC3339 now), r_status := ''online''\<rparr>"
      and dec = stamp_time and g = "seen_at (trunc_secs now)" and i = i]
  have d: "dev_of stamp_time (r\<lparr>r_last_seen_at := Some (Format_RFC3339 now), r_status := ''online''\<rparr>) =
      seen_at (trunc_secs now) (dev_of stamp_time r)" for r :: "string device_row"
    using assms(2) by (simp add: dev_of_def seen_at_def StatusOnline_def)
  show "sqlite_inv (snd (SQLite_UpdateLastSeen now i s))"
    unfolding SQLite_UpdateLastSeen_def snd_with_result using assms
    by (intro run_sqlite_inv update_devices_inv) (simp_all add: device_row_ok_def stamp_Format)
  show "all_or_nothing sqlite_view s (SQLite_UpdateLastSeen now i s)
      (\<lambda>_ a. a = change_device i (seen_at (trunc_secs now)) (sqlite_view s))"
    unfolding SQLite_UpdateLastSeen_def sqlite_view_def
    by (rule with_result_all_or_nothing [OF U(1)]) (simp_all add: d)
qed

lemma sqlite_UpdateLastSeen_quiet:
  assumes "sqlite_inv s" and "sqlite_quiet s"
  shows "fst (SQLite_UpdateLastSeen now i s) = Ok ()"
  using assms db_inv_tables [of stamp s]
  by (simp add: SQLite_UpdateLastSeen_def sqlite_inv_def sqlite_quiet_def run_quiet with_result_def update_devices_def)


lemma sqlite_InsertHeartbeat:
  assumes "sqlite_inv s"
  shows "clock_ok now \<Longrightarrow> sqlite_inv (snd (SQLite_InsertHeartbeat now hb s))"
    and "clock_ok now \<Longrightarrow> all_or_nothing sqlite_view s (SQLite_InsertHeartbeat now hb s)
      (\<lambda>_ a. st_devices (sqlite_view s) (hb_DeviceID hb) \<noteq> None \<and>
         (\<exists>n. n \<notin> hb_ID ` set (st_heartbeats (sqlite_view s)) \<and>
           a = add_heartbeat (hb\<lparr>hb_ID := n, hb_ReceivedAt := trunc_secs now\<rparr>) (sqlite_view s)))"
    and "sqlite_quiet s \<Longrightarrow> is_ok (fst (SQLite_InsertHeartbeat now hb s)) \<longleftrightarrow> st_devices (sqlite_view s) (hb_DeviceID hb) \<noteq> None"
proof -
  have inv: "db_inv stamp s" "foreign_keys s" using assms by (simp_all add: sqlite_inv_def)
  define row where "row n = \<lparr> h_id = n, h_device_id = hb_DeviceID hb, h_received_at = Format_RFC3339 now,
      h_cpu_percent = hb_CPUPercent hb, h_memory_percent = hb_MemoryPercent hb, h_disk_percent = hb_DiskPercent hb,
      h_uptime_seconds = hb_UptimeSeconds hb, h_os_version = hb_OSVersion hb \<rparr>" for n
  have r: "h_id (row n) = n" "h_received_at (row n) = Format_RFC3339 now" "h_device_id (row n) = hb_DeviceID hb" for n
    by (simp_all add: row_def)
  have op: "SQLite_InsertHeartbeat now hb s = with_result (run (insert_heartbeat True False row) s) id (\<lambda>_. Ok ())"
    using inv(2) by (simp add: SQLite_InsertHeartbeat_def row_def [abs_def])
  show "sqlite_inv (snd (SQLite_InsertHeartbeat now hb s))" if "clock_ok now"
    unfolding op snd_with_result using assms that
    by (intro run_sqlite_inv insert_heartbeat_inv) (simp_all add: r stamp_Format)
  show "all_or_nothing sqlite_view s (SQLite_InsertHeartbeat now hb s)
      (\<lambda>_ a. st_devices (sqlite_view s) (hb_DeviceID hb) \<noteq> None \<and>
         (\<exists>n. n \<notin> hb_ID ` set (st_heartbeats (sqlite_view s)) \<and>
           a = add_heartbeat (hb\<lparr>hb_ID := n, hb_ReceivedAt := trunc_secs now\<rparr>) (sqlite_view s)))" if "clock_ok now"
    unfolding op sqlite_view_def
  proof (rule heartbeat_insertion(1) [OF inv(1)])
    show "hb_of stamp_time (row n) = hb\<lparr>hb_ID := n, hb_ReceivedAt := trunc_secs now\<rparr>" for n
      using that by (cases hb) (simp add: row_def hb_of_def)
  qed (rule r(1))
  show "is_ok (fst (SQLite_InsertHeartbeat now hb s)) \<longleftrightarrow> st_devices (sqlite_view s) (hb_DeviceID hb) \<noteq> None" if "sqlite_quiet s"
    using insert_heartbeat_effect(1) [OF inv(1), where row = row and dec = stamp_time and burn = False] r that
    by (simp add: op sqlite_view_def run_quiet with_result_def sqlite_quiet_def)
qed

lemma sqlite_CreateDiagnosticRequest:
  assumes "sqlite_inv s"
  shows "clock_ok now \<Longrightarrow> sqlite_inv (snd (SQLite_CreateDiagnosticRequest now i r sc s))"
    and "clock_ok now \<Longrightarrow> all_or_nothing sqlite_view s (SQLite_CreateDiagnosticRequest now i r sc s)
      (\<lambda>g a. g = new_diagnostic 0 now i r sc \<and> st_devices (sqlite_view s) i \<noteq> None \<and> st_diagnostics (sqlite_view s) r = None \<and>
         (\<exists>n. a = add_diagnostic (new_diagnostic n (trunc_secs now) i r sc) (sqlite_view s)))"
    and "sqlite_quiet s \<Longrightarrow> is_ok (fst (SQLite_CreateDiagnosticRequest now i r sc s)) \<longleftrightarrow>
      st_devices (sqlite_view s) i \<noteq> None \<and> st_diagnostics (sqlite_view s) r = None"
proof -
  have inv: "db_inv stamp s" "foreign_keys s" using assms by (simp_all add: sqlite_inv_def)
  define row where "row n = \<lparr> g_id = n, g_device_id = i, g_request_id = r, g_scope = sc,
      g_requested_at = Format_RFC3339 now, g_received_at = None, g_payload = None \<rparr>" for n
  have op: "SQLite_CreateDiagnosticRequest now i r sc s =
      with_result (run (insert_diagnostic True False row) s) (Wrap ''store: create diagnostic request: %w'')
        (\<lambda>_. Ok (new_diagnostic 0 now i r sc))"
    using inv(2) by (simp add: SQLite_CreateDiagnosticRequest_def row_def [abs_def] new_diagnostic_def)
  have g: "g_request_id (row n) = r" "g_device_id (row n) = i" "g_id (row n) = n" for n by (simp_all add: row_def)
  show "sqlite_inv (snd (SQLite_CreateDiagnosticRequest now i r sc s))" if "clock_ok now"
    unfolding op snd_with_result using assms that
    by (intro run_sqlite_inv insert_diagnostic_inv) (simp_all add: row_def diagnostic_row_ok_def stamp_Format)
  show "all_or_nothing sqlite_view s (SQLite_CreateDiagnosticRequest now i r sc s)
      (\<lambda>g a. g = new_diagnostic 0 now i r sc \<and> st_devices (sqlite_view s) i \<noteq> None \<and> st_diagnostics (sqlite_view s) r = None \<and>
         (\<exists>n. a = add_diagnostic (new_diagnostic n (trunc_secs now) i r sc) (sqlite_view s)))" if "clock_ok now"
    unfolding op sqlite_view_def using that
    by (intro diagnostic_insertion(1) [OF inv(1)]) (simp add: row_def diag_of_def new_diagnostic_def payload_of_def)
  show "is_ok (fst (SQLite_CreateDiagnosticRequest now i r sc s)) \<longleftrightarrow>
      st_devices (sqlite_view s) i \<noteq> None \<and> st_diagnostics (sqlite_view s) r = None" if "sqlite_quiet s"
  proof (cases "st_devices (db_view stamp_time s) i \<noteq> None \<and> st_diagnostics (db_view stamp_time s) r = None")
    case True
    from insert_diagnostic_effect(1) [where row = row and burn = False and dec = stamp_time, OF inv(1) g(1,2) this]
    show ?thesis using True that by (simp add: op sqlite_view_def sqlite_quiet_def run_quiet with_result_def)
  next
    case False
    from insert_diagnostic_effect(2) [where row = row and burn = False and dec = stamp_time, OF inv(1) g(1,2) this]
    show ?thesis using False that by (auto simp: op sqlite_view_def sqlite_quiet_def run_quiet with_result_def)
  qed
qed

lemma sqlite_DeleteDiagnosticRequest:
  assumes "sqlite_inv s"
  shows "sqlite_inv (snd (SQLite_DeleteDiagnosticRequest r s))"
    and "all_or_nothing sqlite_view s (SQLite_DeleteDiagnosticRequest r s) (\<lambda>_ a. a = drop_diagnostic r (sqlite_view s))"
    and "sqlite_quiet s \<Longrightarrow> fst (SQLite_DeleteDiagnosticRequest r s) = Ok ()"
proof -
  have inv: "db_inv stamp s" using assms by (simp add: sqlite_inv_def)
  show "sqlite_inv (snd (SQLite_DeleteDiagnosticRequest r s))"
    unfolding SQLite_DeleteDiagnosticRequest_def snd_with_result using assms
    by (intro run_sqlite_inv delete_diagnostics_effect(3)) simp_all
  show "all_or_nothing sqlite_view s (SQLite_DeleteDiagnosticRequest r s) (\<lambda>_ a. a = drop_diagnostic r (sqlite_view s))"
    unfolding SQLite_DeleteDiagnosticRequest_def sqlite_view_def by (rule diagnostic_deletion(1) [OF inv])
  show "fst (SQLite_DeleteDiagnosticRequest r s) = Ok ()" if "sqlite_quiet s"
    using that unfolding SQLite_DeleteDiagnosticRequest_def sqlite_quiet_def by (rule diagnostic_deletion(2) [OF inv])
qed

lemma sqlite_SaveDiagnosticResult:
  assumes "sqlite_inv s"
  shows "clock_ok now \<Longrightarrow> sqlite_inv (snd (SQLite_SaveDiagnosticResult now r q s))"
    and "clock_ok now \<Longrightarrow> all_or_nothing sqlite_view s (SQLite_SaveDiagnosticResult now r q s)
      (\<lambda>_ a. st_diagnostics (sqlite_view s) r \<noteq> None \<and> a = change_diagnostic r (answered (trunc_secs now) q) (sqlite_view s))"
    and "sqlite_quiet s \<Longrightarrow> fst (SQLite_SaveDiagnosticResult now r q s) =
      (if st_diagnostics (sqlite_view s) r = None then Err ErrNotFound else Ok ())"
    and "fst (SQLite_SaveDiagnosticResult now r q s) = Err e \<Longrightarrow> errors_is e ErrNotFound \<Longrightarrow> st_diagnostics (sqlite_view s) r = None"
proof -
  have inv: "db_inv stamp s" using assms by (simp add: sqlite_inv_def)
  define upd :: "string diagnostic_row \<Rightarrow> string diagnostic_row" where
    "upd g = g\<lparr>g_received_at := Some (Format_RFC3339 now), g_payload := Some q\<rparr>" for g
  have op: "SQLite_SaveDiagnosticResult now r q s =
      with_result (run (update_diagnostics upd r) s) (Wrap ''store: save diagnostic result: %w'') not_found_if_none"
    by (simp add: SQLite_SaveDiagnosticResult_def upd_def [abs_def])
  have u: "g_request_id (upd g) = g_request_id g" for g by (simp add: upd_def)
  have d: "diag_of stamp_time (upd g) = answered (stamp_time (Format_RFC3339 now)) q (diag_of stamp_time g)" for g
    by (simp add: upd_def diag_of_def answered_def payload_of_def)
  note U = diagnostic_update_or_missing [where h = upd and dec = stamp_time, OF inv u d]
  show "sqlite_inv (snd (SQLite_SaveDiagnosticResult now r q s))" if "clock_ok now"
    unfolding op snd_with_result using assms that
    by (intro run_sqlite_inv update_diagnostics_inv) (simp_all add: upd_def diagnostic_row_ok_def stamp_Format)
  show "all_or_nothing sqlite_view s (SQLite_SaveDiagnosticResult now r q s)
      (\<lambda>_ a. st_diagnostics (sqlite_view s) r \<noteq> None \<and> a = change_diagnostic r (answered (trunc_secs now) q) (sqlite_view s))" if "clock_ok now"
    using U(1) that unfolding op sqlite_view_def by simp
  show "fst (SQLite_SaveDiagnosticResult now r q s) = (if st_diagnostics (sqlite_view s) r = None then Err ErrNotFound else Ok ())"
    if "sqlite_quiet s"
    using that unfolding op sqlite_view_def sqlite_quiet_def by (rule U(2))
  show "st_diagnostics (sqlite_view s) r = None"
    if "fst (SQLite_SaveDiagnosticResult now r q s) = Err e" "errors_is e ErrNotFound"
    using that unfolding op sqlite_view_def by (rule U(3))
qed

subsection \<open>Reading\<close>

lemma sqlite_GetDevice:
  assumes "sqlite_inv s"
  shows "fst (SQLite_GetDevice i s) = (case st_devices (sqlite_view s) i of None \<Rightarrow> Err ErrNotFound | Some d \<Rightarrow> Ok d) \<or>
      (\<exists>t. fst (SQLite_GetDevice i s) = Err (Wrap ''store: scan device: %w'' (ErrText t)))"
    and "sqlite_quiet s \<Longrightarrow> SQLite_GetDevice i s = ((case st_devices (sqlite_view s) i of None \<Rightarrow> Err ErrNotFound | Some d \<Rightarrow> Ok d), s)"
    and "sqlite_inv (snd (SQLite_GetDevice i s)) \<and> sqlite_view (snd (SQLite_GetDevice i s)) = sqlite_view s"
proof -
  have inv: "db_inv stamp s" using assms by (simp add: sqlite_inv_def)
  let ?q = "select_devices (filter (\<lambda>r. r_id r = i)) :: (sqlite, _) stmt"
  have op: "SQLite_GetDevice i s = (no_rows_not_found (scanDevice (res_bind (fst (run ?q s)) first_row)), snd (run ?q s))"
    by (simp add: SQLite_GetDevice_def case_prod_unfold Let_def)
  note G = get_device [where scan = scanDevice and dec = stamp_time, OF inv scanDevice_Ok scan_Err(1), of i]
  show "fst (SQLite_GetDevice i s) = (case st_devices (sqlite_view s) i of None \<Rightarrow> Err ErrNotFound | Some d \<Rightarrow> Ok d) \<or>
      (\<exists>t. fst (SQLite_GetDevice i s) = Err (Wrap ''store: scan device: %w'' (ErrText t)))"
    unfolding op sqlite_view_def fst_conv by (rule G(1))
  show "SQLite_GetDevice i s = ((case st_devices (sqlite_view s) i of None \<Rightarrow> Err ErrNotFound | Some d \<Rightarrow> Ok d), s)" if "sqlite_quiet s"
    unfolding op sqlite_view_def using G(2) that by (simp add: sqlite_quiet_def run_quiet)
  show "sqlite_inv (snd (SQLite_GetDevice i s)) \<and> sqlite_view (snd (SQLite_GetDevice i s)) = sqlite_view s"
    unfolding op snd_conv sqlite_view_def using assms
    by (intro conjI run_sqlite_inv run_read) simp_all
qed

lemma sqlite_GetDiagnosticResult:
  assumes "sqlite_inv s"
  shows "fst (SQLite_GetDiagnosticResult r s) = (case st_diagnostics (sqlite_view s) r of None \<Rightarrow> Err ErrNotFound | Some d \<Rightarrow> Ok d) \<or>
      (\<exists>t. fst (SQLite_GetDiagnosticResult r s) = Err (Wrap ''store: scan diagnostic: %w'' (ErrText t)))"
    and "sqlite_quiet s \<Longrightarrow> SQLite_GetDiagnosticResult r s =
      ((case st_diagnostics (sqlite_view s) r of None \<Rightarrow> Err ErrNotFound | Some d \<Rightarrow> Ok d), s)"
    and "sqlite_inv (snd (SQLite_GetDiagnosticResult r s)) \<and> sqlite_view (snd (SQLite_GetDiagnosticResult r s)) = sqlite_view s"
proof -
  have inv: "db_inv stamp s" using assms by (simp add: sqlite_inv_def)
  let ?q = "select_diagnostics (filter (\<lambda>g. g_request_id g = r)) :: (sqlite, _) stmt"
  have op: "SQLite_GetDiagnosticResult r s =
      (no_rows_not_found (scanDiagnostic (res_bind (fst (run ?q s)) first_row)), snd (run ?q s))"
    by (simp add: SQLite_GetDiagnosticResult_def case_prod_unfold Let_def)
  note G = get_diagnostic [where scan = scanDiagnostic and dec = stamp_time, OF inv scanDiagnostic_Ok scan_Err(2), of r]
  show "fst (SQLite_GetDiagnosticResult r s) = (case st_diagnostics (sqlite_view s) r of None \<Rightarrow> Err ErrNotFound | Some d \<Rightarrow> Ok d) \<or>
      (\<exists>t. fst (SQLite_GetDiagnosticResult r s) = Err (Wrap ''store: scan diagnostic: %w'' (ErrText t)))"
    unfolding op sqlite_view_def fst_conv by (rule G(1))
  show "SQLite_GetDiagnosticResult r s =
      ((case st_diagnostics (sqlite_view s) r of None \<Rightarrow> Err ErrNotFound | Some d \<Rightarrow> Ok d), s)" if "sqlite_quiet s"
    unfolding op sqlite_view_def using G(2) that by (simp add: sqlite_quiet_def run_quiet)
  show "sqlite_inv (snd (SQLite_GetDiagnosticResult r s)) \<and> sqlite_view (snd (SQLite_GetDiagnosticResult r s)) = sqlite_view s"
    unfolding op snd_conv sqlite_view_def using assms
    by (intro conjI run_sqlite_inv run_read) simp_all
qed

lemma sqlite_ListHeartbeats:
  assumes "sqlite_inv s" and "scans_all (scan_heartbeats p)"
  shows "fst (SQLite_ListHeartbeats p i n s) = Ok hbs \<Longrightarrow>
      newest hb_ReceivedAt n (mset (filter (\<lambda>h. hb_DeviceID h = i) (st_heartbeats (sqlite_view s)))) hbs"
    and "sqlite_quiet s \<Longrightarrow> is_ok (fst (SQLite_ListHeartbeats p i n s))"
    and "sqlite_inv (snd (SQLite_ListHeartbeats p i n s)) \<and> sqlite_view (snd (SQLite_ListHeartbeats p i n s)) = sqlite_view s"
proof -
  have inv: "db_inv stamp s" using assms by (simp add: sqlite_inv_def)
  let ?lt = "\<lambda>a b. h_received_at b < (h_received_at a :: string)"
  let ?q = "\<lambda>rows. limit_rows n (order_by ?lt (filter (\<lambda>r. h_device_id r = i) (scan_heartbeats p rows)))"
  have st: "stamp (h_received_at r)" if "r \<in> set (t_heartbeats s)" for r
    using inv that by (auto simp: db_inv_def list_all_iff)
  have sub: "set (?q (t_heartbeats s)) \<subseteq> set (t_heartbeats s)"
    using set_limit_rows [of n] set_scans_all [OF assms(2)] by fastforce
  have C: "fst (SQLite_ListHeartbeats p i n s) = Ok (map (hb_of stamp_time) (?q (t_heartbeats s))) \<or>
      (\<exists>t. fst (SQLite_ListHeartbeats p i n s) = Err (Wrap ''store: list heartbeats: %w'' (ErrText t)))"
    "sqlite_quiet s \<Longrightarrow> fst (SQLite_ListHeartbeats p i n s) = Ok (map (hb_of stamp_time) (?q (t_heartbeats s)))"
    unfolding SQLite_ListHeartbeats_def sqlite_quiet_def
    by (rule with_result_collect [where q = ?q and rows = "t_heartbeats s"];
        use db_inv_tables [OF inv] st sub scanHeartbeat_Ok in \<open>force simp: select_heartbeats_def\<close>)+
  have N: "newest hb_ReceivedAt n (mset (map (hb_of stamp_time) (filter (\<lambda>r. h_device_id r = i) (t_heartbeats s))))
      (map (hb_of stamp_time) (?q (t_heartbeats s)))"
  proof (rule newest_order_by [OF assms(2) weak_order_key])
    fix a b assume "a \<in> set (t_heartbeats s)" "b \<in> set (t_heartbeats s)" "\<not> h_received_at a < h_received_at b"
    then show "hb_ReceivedAt (hb_of stamp_time b) \<le> hb_ReceivedAt (hb_of stamp_time a)"
      using stamp_less_iff st by (simp add: hb_of_def)
  qed
  have F: "filter (\<lambda>h. hb_DeviceID h = i) (st_heartbeats (sqlite_view s)) =
      map (hb_of stamp_time) (filter (\<lambda>r. h_device_id r = i) (t_heartbeats s))"
    by (simp add: sqlite_view_def db_view_def filter_map comp_def hb_of_def)
  show "newest hb_ReceivedAt n (mset (filter (\<lambda>h. hb_DeviceID h = i) (st_heartbeats (sqlite_view s)))) hbs"
    if "fst (SQLite_ListHeartbeats p i n s) = Ok hbs"
    using C(1) N that unfolding F by auto
  show "is_ok (fst (SQLite_ListHeartbeats p i n s))" if "sqlite_quiet s"
    using C(2) [OF that] by simp
  show "sqlite_inv (snd (SQLite_ListHeartbeats p i n s)) \<and> sqlite_view (snd (SQLite_ListHeartbeats p i n s)) = sqlite_view s"
    unfolding SQLite_ListHeartbeats_def snd_with_result sqlite_view_def using assms
    by (intro conjI run_sqlite_inv run_read) simp_all
qed

lemma sqlite_ListDiagnosticResults:
  assumes "sqlite_inv s" and "scans_all (scan_diagnostics p)"
  shows "0 \<le> n \<Longrightarrow> fst (SQLite_ListDiagnosticResults p i n s) = Ok gs \<Longrightarrow>
      set gs \<subseteq> {g. \<exists>r. st_diagnostics (sqlite_view s) r = Some g \<and> diag_DeviceID g = i} \<and>
      distinct (map diag_RequestID gs) \<and> sorted_wrt (\<lambda>a b. diag_RequestedAt b \<le> diag_RequestedAt a) gs \<and>
      (int (length gs) < n \<longrightarrow> set gs = {g. \<exists>r. st_diagnostics (sqlite_view s) r = Some g \<and> diag_DeviceID g = i})"
    and "sqlite_quiet s \<Longrightarrow> is_ok (fst (SQLite_ListDiagnosticResults p i n s))"
    and "sqlite_inv (snd (SQLite_ListDiagnosticResults p i n s)) \<and>
      sqlite_view (snd (SQLite_ListDiagnosticResults p i n s)) = sqlite_view s"
proof -
  have inv: "db_inv stamp s" using assms by (simp add: sqlite_inv_def)
  let ?lt = "\<lambda>a b. g_requested_at b < (g_requested_at a :: string)"
  let ?q = "\<lambda>rows. limit_rows n (order_by ?lt (filter (\<lambda>r. g_device_id r = i) (scan_diagnostics p rows)))"
  have st: "diagnostic_row_ok stamp r" if "r \<in> set (t_diagnostics s)" for r
    using inv that by (auto simp: db_inv_def list_all_iff)
  have sub: "set (?q (t_diagnostics s)) \<subseteq> set (t_diagnostics s)"
    using set_limit_rows [of n] set_scans_all [OF assms(2)] by fastforce
  have C: "fst (SQLite_ListDiagnosticResults p i n s) = Ok (map (diag_of stamp_time) (?q (t_diagnostics s))) \<or>
      (\<exists>t. fst (SQLite_ListDiagnosticResults p i n s) = Err (Wrap ''store: list diagnostics: %w'' (ErrText t)))"
    "sqlite_quiet s \<Longrightarrow> fst (SQLite_ListDiagnosticResults p i n s) = Ok (map (diag_of stamp_time) (?q (t_diagnostics s)))"
    unfolding SQLite_ListDiagnosticResults_def sqlite_quiet_def
    by (rule with_result_collect [where q = ?q and rows = "t_diagnostics s"];
        use db_inv_tables [OF inv] st sub scanDiagnostic_Ok in \<open>force simp: select_diagnostics_def\<close>)+
  have N: "newest diag_RequestedAt n (mset (map (diag_of stamp_time) (filter (\<lambda>r. g_device_id r = i) (t_diagnostics s))))
      (map (diag_of stamp_time) (?q (t_diagnostics s)))"
  proof (rule newest_order_by [OF assms(2) weak_order_key])
    fix a b assume "a \<in> set (t_diagnostics s)" "b \<in> set (t_diagnostics s)" "\<not> g_requested_at a < g_requested_at b"
    then show "diag_RequestedAt (diag_of stamp_time b) \<le> diag_RequestedAt (diag_of stamp_time a)"
      using stamp_less_iff st by (simp add: diag_of_def diagnostic_row_ok_def)
  qed
  show "set gs \<subseteq> {g. \<exists>r. st_diagnostics (sqlite_view s) r = Some g \<and> diag_DeviceID g = i} \<and>
      distinct (map diag_RequestID gs) \<and> sorted_wrt (\<lambda>a b. diag_RequestedAt b \<le> diag_RequestedAt a) gs \<and>
      (int (length gs) < n \<longrightarrow> set gs = {g. \<exists>r. st_diagnostics (sqlite_view s) r = Some g \<and> diag_DeviceID g = i})"
    if "0 \<le> n" "fst (SQLite_ListDiagnosticResults p i n s) = Ok gs"
  proof -
    have "gs = map (diag_of stamp_time) (?q (t_diagnostics s))" using C(1) that(2) by auto
    with newest_diagnostics [OF N inv that(1)] show ?thesis by (simp add: sqlite_view_def)
  qed
  show "is_ok (fst (SQLite_ListDiagnosticResults p i n s))" if "sqlite_quiet s"
    using C(2) [OF that] by simp
  show "sqlite_inv (snd (SQLite_ListDiagnosticResults p i n s)) \<and>
      sqlite_view (snd (SQLite_ListDiagnosticResults p i n s)) = sqlite_view s"
    unfolding SQLite_ListDiagnosticResults_def snd_with_result sqlite_view_def using assms
    by (intro conjI run_sqlite_inv run_read) simp_all
qed

lemma sqlite_quiet_keeps:
  assumes "sqlite_quiet s"
  shows "sqlite_quiet (snd (SQLite_CreateDevice p i now req s)) \<and> sqlite_quiet (snd (SQLite_SetDeviceStatus i st s)) \<and>
    sqlite_quiet (snd (SQLite_UpdateLastSeen now i s)) \<and> sqlite_quiet (snd (SQLite_InsertHeartbeat now hb s)) \<and>
    sqlite_quiet (snd (SQLite_CreateDiagnosticRequest now i r sc s)) \<and> sqlite_quiet (snd (SQLite_DeleteDiagnosticRequest r s)) \<and>
    sqlite_quiet (snd (SQLite_SaveDiagnosticResult now r q s)) \<and>
    sqlite_quiet (snd (SQLite_ListHeartbeats p i n s)) \<and> sqlite_quiet (snd (SQLite_ListDiagnosticResults p i n s))"
  using assms
  by (simp add: sqlite_quiet_def SQLite_CreateDevice_def SQLite_SetDeviceStatus_def SQLite_UpdateLastSeen_def
      SQLite_InsertHeartbeat_def SQLite_CreateDiagnosticRequest_def SQLite_DeleteDiagnosticRequest_def
      SQLite_SaveDiagnosticResult_def SQLite_ListHeartbeats_def SQLite_ListDiagnosticResults_def run_quiet stmt_faults
      split: sum.split)

interpretation sq: store_contract "\<lambda>s. sqlite_inv s \<and> deps_ok p" sqlite_quiet sqlite_view "\<lambda>_. trunc_secs" "\<lambda>_. clock_ok"
    "\<lambda>_ secret. \<not> isl (bcrypt p secret 12)"
    "SQLite_CreateDevice p" SQLite_GetDevice SQLite_SetDeviceStatus SQLite_UpdateLastSeen SQLite_InsertHeartbeat
    "SQLite_ListHeartbeats p" SQLite_CreateDiagnosticRequest SQLite_DeleteDiagnosticRequest
    SQLite_SaveDiagnosticResult "SQLite_ListDiagnosticResults p" SQLite_GetDiagnosticResult
  for p
proof (unfold_locales, goal_cases)
  case (1 s i d)
  then show ?case using db_view_keyed by (auto simp: sqlite_view_def)
next
  case (2 s r g)
  then show ?case using db_view_keyed_diag by (auto simp: sqlite_view_def)
next
  case (3 s now i req)
  then show ?case by (simp add: sqlite_CreateDevice_inv)
next
  case (4 s i)
  then show ?case by (simp add: sqlite_GetDevice)
next
  case (5 s i st)
  then show ?case by (simp add: sqlite_SetDeviceStatus)
next
  case (6 s now i)
  then show ?case by (simp add: sqlite_UpdateLastSeen)
next
  case (7 s now hb)
  then show ?case by (simp add: sqlite_InsertHeartbeat)
next
  case (8 s i n)
  then show ?case by (simp add: sqlite_ListHeartbeats deps_ok_def)
next
  case (9 s now i r sc)
  then show ?case by (simp add: sqlite_CreateDiagnosticRequest)
next
  case (10 s r)
  then show ?case by (simp add: sqlite_DeleteDiagnosticRequest)
next
  case (11 s now r q)
  then show ?case by (simp add: sqlite_SaveDiagnosticResult)
next
  case (12 s i n)
  then show ?case by (simp add: sqlite_ListDiagnosticResults deps_ok_def)
next
  case (13 s r)
  then show ?case by (simp add: sqlite_GetDiagnosticResult)
next
  case (14 s now i req)
  then show ?case by (intro sqlite_CreateDevice_effect(1)) simp_all
next
  case (15 s i st)
  then show ?case by (intro sqlite_SetDeviceStatus(2)) simp_all
next
  case (16 s now i)
  then show ?case by (intro sqlite_UpdateLastSeen(2)) simp_all
next
  case (17 s now hb)
  then show ?case by (intro sqlite_InsertHeartbeat(2)) simp_all
next
  case (18 s now i r sc)
  then show ?case by (intro sqlite_CreateDiagnosticRequest(2)) simp_all
next
  case (19 s r)
  then show ?case by (intro sqlite_DeleteDiagnosticRequest(2)) simp_all
next
  case (20 s now r q)
  then show ?case by (intro sqlite_SaveDiagnosticResult(2)) simp_all
next
  case (21 s i d)
  then show ?case using sqlite_GetDevice(1) [of s i] by (auto split: option.splits)
next
  case (22 s i e)
  then show ?case using sqlite_GetDevice(1) [of s i] by (auto split: option.splits)
next
  case (23 s r g)
  then show ?case using sqlite_GetDiagnosticResult(1) [of s r] by (auto split: option.splits)
next
  case (24 s r e)
  then show ?case using sqlite_GetDiagnosticResult(1) [of s r] by (auto split: option.splits)
next
  case (25 s i st e)
  then show ?case using sqlite_SetDeviceStatus(4) by blast
next
  case (26 s now r q e)
  then show ?case using sqlite_SaveDiagnosticResult(4) by blast
next
  case (27 s i n hbs)
  then show ?case using sqlite_ListHeartbeats(1) [of s p i n hbs] by (simp add: deps_ok_def)
next
  case (28 s n i gs)
  then show ?case using sqlite_ListDiagnosticResults(1) [of s p n i gs] by (simp add: deps_ok_def)
next
  case (29 s i)
  then show ?case using sqlite_GetDevice(2) [of s i] by (auto split: option.splits)
next
  case (30 s r)
  then show ?case using sqlite_GetDiagnosticResult(2) [of s r] by (auto split: option.splits)
next
  case (31 s now req i)
  then show ?case using sqlite_CreateDevice_effect(2) by blast
next
  case (32 s i st)
  then show ?case by (intro sqlite_SetDeviceStatus(3)) simp_all
next
  case (33 s now i)
  then show ?case by (intro sqlite_UpdateLastSeen_quiet) simp_all
next
  case (34 s now hb)
  then show ?case by (intro sqlite_InsertHeartbeat(3)) simp_all
next
  case (35 s n i)
  then show ?case using sqlite_ListHeartbeats(2) [of s p] by (simp add: deps_ok_def)
next
  case (36 s now i r sc)
  then show ?case by (intro sqlite_CreateDiagnosticRequest(3)) simp_all
next
  case (37 s r)
  then show ?case by (intro sqlite_DeleteDiagnosticRequest(3)) simp_all
next
  case (38 s now r q)
  then show ?case by (intro sqlite_SaveDiagnosticResult(3)) simp_all
next
  case (39 s n i)
  then show ?case using sqlite_ListDiagnosticResults(2) [of s p] by (simp add: deps_ok_def)
next
  case (40 s i now req st hb r sc q n)
  then show ?case by (rule sqlite_quiet_keeps)
qed

section \<open>Pages\<close>

definition sqlite_listing :: "string deps \<Rightarrow> sqlite \<Rightarrow> Device list" where
  "sqlite_listing p s = map (dev_of stamp_time) (order_by newer (scan_devices p (t_devices s)))"

lemma weak_order_newer: "weak_order newer"
  unfolding newer_def [abs_def] by (rule weak_order_key)

lemma newer_iff:
  assumes "device_row_ok stamp a" "device_row_ok stamp b"
  shows "newer a b \<longleftrightarrow> key_of (dev_of stamp_time b) < key_of (dev_of stamp_time a)"
  using assms stamp_less_iff stamp_inj
  unfolding newer_def key_of_def pair_less_iff by (auto simp: dev_of_def device_row_ok_def)

lemma sqlite_listing_sorted:
  assumes "sqlite_inv s" "scans_all (scan_devices p)"
  shows "sorted_wrt (\<lambda>x y. key_of y < key_of x) (sqlite_listing p s)"
proof -
  let ?os = "order_by newer (scan_devices p (t_devices s))"
  have ms: "mset ?os = mset (t_devices s)" using assms(2) by (simp add: scans_all_def)
  have ok: "device_row_ok stamp r" if "r \<in> set ?os" for r
    using assms(1) that mset_eq_setD [OF ms] by (simp add: sqlite_inv_def db_inv_def list_all_iff del: set_order_by)
  have "mset (map r_id ?os) = mset (map r_id (t_devices s))" using ms by simp
  then have d: "distinct (map r_id ?os)"
    using assms(1) mset_eq_imp_distinct_iff by (metis sqlite_inv_def db_inv_def)
  have "sorted_wrt newer ?os"
    unfolding sorted_wrt_iff_nth_less
  proof (intro allI impI)
    fix i j assume ij: "i < j" "j < length ?os"
    then have "\<not> newer (?os ! j) (?os ! i)"
      using order_by_sorted [OF weak_order_newer] by (auto simp: sorted_wrt_iff_nth_less)
    moreover have "r_id (?os ! i) \<noteq> r_id (?os ! j)"
      using d ij by (auto simp: distinct_conv_nth)
    ultimately show "newer (?os ! i) (?os ! j)" by (auto simp: newer_def)
  qed
  then show ?thesis
    unfolding sqlite_listing_def sorted_wrt_map
  proof (rule sorted_wrt_mono_rel [rotated])
    show "key_of (dev_of stamp_time b) < key_of (dev_of stamp_time a)"
      if "a \<in> set ?os" "b \<in> set ?os" "newer a b" for a b
      using newer_iff [OF ok [OF that(1)] ok [OF that(2)]] that(3) by blast
  qed
qed

lemma sqlite_page:
  assumes "sqlite_inv s" "sqlite_quiet s" "scans_all (scan_devices p)" "0 < n"
    and Q: "\<And>r. r \<in> set (t_devices s) \<Longrightarrow> Q r \<longleftrightarrow> P (dev_of stamp_time r)"
  shows "fst (with_result
      (run (select_devices (\<lambda>rows. limit_rows (n + 1) (order_by newer (filter Q (scan_devices p rows))))) s)
      (Wrap ''store: list devices: %w'') (\<lambda>rows. res_bind (collect scanDevice rows) (cut_page n)))
    = Ok (page_of n (filter P (sqlite_listing p s)))"
proof -
  let ?rs = "order_by newer (filter Q (scan_devices p (t_devices s)))"
  have inv: "db_inv stamp s" using assms(1) by (simp add: sqlite_inv_def)
  have sub: "set ?rs \<subseteq> set (t_devices s)" using set_scans_all [OF assms(3)] by auto
  have "scanDevice (Ok r) = Ok (dev_of stamp_time r)" if "r \<in> set (take (nat (n + 1)) ?rs)" for r
    using inv that sub in_set_takeD [OF that] by (intro scanDevice_Ok) (auto simp: db_inv_def list_all_iff)
  then have c: "collect scanDevice (take (nat (n + 1)) ?rs) = Ok (map (dev_of stamp_time) (take (nat (n + 1)) ?rs))"
    by (rule collect_Ok)
  have "map (dev_of stamp_time) ?rs = filter P (sqlite_listing p s)"
    unfolding sqlite_listing_def filter_map filter_order_by [OF weak_order_newer, symmetric]
    using Q set_scans_all [OF assms(3)] by (intro arg_cong [where f = "map _"] filter_cong) auto
  with c cut_page_take [OF assms(4), of "filter P (sqlite_listing p s)"] show ?thesis
    using assms(2,4) db_inv_tables [OF inv]
    by (simp add: run_quiet with_result_def select_devices_def limit_rows_def take_map [symmetric] sqlite_quiet_def)
qed

interpretation sq: keyset_pager "\<lambda>s. sqlite_inv s \<and> sqlite_quiet s \<and> deps_ok p"
    "\<lambda>s n c. fst (SQLite_ListDevices p n c s)" "sqlite_listing p" "\<lambda>k k'. k' < k"
  for p
proof (unfold_locales, goal_cases)
  case (1 a b c)
  then show ?case by simp
next
  case (2 a)
  then show ?case by simp
next
  case (3 s)
  then show ?case by (simp add: sqlite_listing_sorted deps_ok_def)
next
  case (4 s n)
  then show ?case
    using sqlite_page [of s p n "\<lambda>_. True" "\<lambda>_. True"] by (simp add: SQLite_ListDevices_def deps_ok_def Let_def)
next
  case (5 s u n d)
  then obtain r where r: "device_row_ok stamp r" "d = dev_of stamp_time r"
    by (auto simp: sqlite_listing_def deps_ok_def set_scans_all sqlite_inv_def db_inv_def list_all_iff)
  have t: "year_ok (dev_RegisteredAt d)" "dev_RegisteredAt d \<noteq> zero_time" "dev_ID d \<noteq> []"
    "Format_RFC3339 (dev_RegisteredAt d) = r_registered_at r"
    using r stamp_timeD [of "r_registered_at r"] by (simp_all add: dev_of_def device_row_ok_def)
  have ne: "cursor_of d \<noteq> []" and dec: "decodeDeviceCursor (cursor_of d) = Ok (dev_RegisteredAt d, dev_ID d)"
    unfolding cursor_of_def using t by (rule_tac encode_cursor_nonempty, simp, rule_tac decode_encode_cursor) simp_all
  have Q: "r_registered_at x < r_registered_at r \<or> r_registered_at x = r_registered_at r \<and> r_id x < dev_ID d \<longleftrightarrow>
      key_of (dev_of stamp_time x) < key_of d" if "x \<in> set (t_devices s)" for x
    using newer_iff [OF r(1), of x] that 5(1) r(2)
    by (auto simp: sqlite_inv_def db_inv_def list_all_iff newer_def dev_of_def pair_less_iff)
  show ?case
    using sqlite_page [of s p n "\<lambda>x. r_registered_at x < r_registered_at r \<or> r_registered_at x = r_registered_at r \<and> r_id x < dev_ID d"
        "\<lambda>x. key_of x < key_of d"] Q 5(1,3) ne dec t(4)
    by (simp add: SQLite_ListDevices_def deps_ok_def Let_def)
next
  case (6 s d)
  then obtain r where r: "device_row_ok stamp r" "d = dev_of stamp_time r"
    by (auto simp: sqlite_listing_def deps_ok_def set_scans_all sqlite_inv_def db_inv_def list_all_iff)
  then show ?case
    using stamp_timeD(1) [of "r_registered_at r"] encode_cursor_nonempty
    by (simp add: cursor_of_def dev_of_def device_row_ok_def)
qed

section \<open>Migrations\<close>

fun ddl_names :: "ddl list \<Rightarrow> string set" where
  "ddl_names [] = {}"
| "ddl_names (CreateTable n # ds) = insert n (ddl_names ds)"
| "ddl_names (CreateIndex n t # ds) = insert n (ddl_names ds)"
| "ddl_names (PragmaInTx # ds) = ddl_names ds"

text \<open>What the migrations up to a version have created, and the contents that migrations keep.\<close>

definition schema_ok :: "sqlite \<Rightarrow> bool" where
  "schema_ok s \<longleftrightarrow> (\<forall>(v, ds) \<in> set migrations. v \<le> user_version s \<longrightarrow> ddl_names ds \<subseteq> set (schema_objects s))"

definition contents ::
    "sqlite \<Rightarrow> string device_row list \<times> string heartbeat_row list \<times> string diagnostic_row list \<times> int \<times> int" where
  "contents s = (t_devices s, t_heartbeats s, t_diagnostics s, hb_seq s, diag_seq s)"

lemma add_object_ext: "\<exists>objs. add_object n s = s\<lparr>schema_objects := objs\<rparr> \<and> insert n (set (schema_objects s)) \<subseteq> set objs"
proof (cases "has_table s n")
  case True
  then show ?thesis by (intro exI [of _ "schema_objects s"]) (auto simp: add_object_def has_table_def)
next
  case False
  then show ?thesis by (intro exI [of _ "schema_objects s @ [n]"]) (auto simp: add_object_def)
qed

lemma exec_ddl_ext:
  "\<exists>objs. snd (exec_ddl ds s) = s\<lparr>schema_objects := objs\<rparr> \<and> set (schema_objects s) \<subseteq> set objs \<and>
     (fst (exec_ddl ds s) = Ok () \<longrightarrow> ddl_names ds \<subseteq> set objs) \<and> (\<forall>m. fst (exec_ddl ds s) \<noteq> Panic m)"
proof (induction ds s rule: exec_ddl.induct)
  case (1 s)
  then show ?case by (intro exI [of _ "schema_objects s"]) simp
next
  case (2 n ds s)
  obtain objs where o: "add_object n s = s\<lparr>schema_objects := objs\<rparr>" "insert n (set (schema_objects s)) \<subseteq> set objs"
    using add_object_ext by blast
  from 2 obtain objs' where "snd (exec_ddl ds (add_object n s)) = s\<lparr>schema_objects := objs'\<rparr>" "set objs \<subseteq> set objs'"
    "fst (exec_ddl ds (add_object n s)) = Ok () \<longrightarrow> ddl_names ds \<subseteq> set objs'" "\<forall>m. fst (exec_ddl ds (add_object n s)) \<noteq> Panic m"
    unfolding o(1) by auto
  with o(2) show ?case by (intro exI [of _ objs']) auto
next
  case (3 n t ds s)
  show ?case
  proof (cases "has_table s t")
    case True
    obtain objs where o: "add_object n s = s\<lparr>schema_objects := objs\<rparr>" "insert n (set (schema_objects s)) \<subseteq> set objs"
      using add_object_ext by blast
    from 3 [OF True] obtain objs' where "snd (exec_ddl ds (add_object n s)) = s\<lparr>schema_objects := objs'\<rparr>" "set objs \<subseteq> set objs'"
      "fst (exec_ddl ds (add_object n s)) = Ok () \<longrightarrow> ddl_names ds \<subseteq> set objs'" "\<forall>m. fst (exec_ddl ds (add_object n s)) \<noteq> Panic m"
      unfolding o(1) by auto
    with o(2) True show ?thesis by (intro exI [of _ objs']) auto
  next
    case False
    then show ?thesis by (intro exI [of _ "schema_objects s"]) (simp add: no_table_def)
  qed
next
  case (4 ds s)
  then show ?case by simp
qed

lemma exec_ddl_no_panic: "fst (exec_ddl ds s) \<noteq> Panic m"
  using exec_ddl_ext [of ds s] by blast

text \<open>
  A migration is applied as a whole or not at all, whatever fails: its objects exist exactly
  when the version says so.
\<close>

lemma commit_cases:
  obtains fs where "commit_tx s0 s = (Ok (), s\<lparr>faults := fs\<rparr>)"
  | e fs where "commit_tx s0 s = (Err e, rollback s0 (s\<lparr>faults := fs\<rparr>))"
  | e fs where "commit_tx s0 s = (Err e, s\<lparr>faults := fs\<rparr>)"
proof (cases "faults s")
  case Nil
  then have "commit_tx s0 s = (Ok (), s\<lparr>faults := []\<rparr>)" by (simp add: commit_tx_def same_faults)
  then show ?thesis by (rule that(1))
next
  case (Cons f fs)
  then show ?thesis using that by (cases f) (auto simp: commit_tx_def)
qed

lemma migration_step_atomic:
  "(\<exists>e fs. migration_step m s = (Err e, s\<lparr>faults := fs\<rparr>)) \<or>
   (\<exists>r objs fs. migration_step m s = (r, s\<lparr>schema_objects := objs, user_version := fst m, faults := fs\<rparr>) \<and>
      (\<forall>p. r \<noteq> Panic p) \<and> set (schema_objects s) \<subseteq> set objs \<and> ddl_names (snd m) \<subseteq> set objs)"
proof (rule run_cases [of begin_tx s])
  fix fs assume B: "run begin_tx s = begin_tx (s\<lparr>faults := fs\<rparr>)"
  define s1 where "s1 = s\<lparr>faults := fs\<rparr>"
  have b: "run begin_tx s = (Ok (), s1)" using B by (simp add: begin_tx_def s1_def)
  have undo: "rollback s1 u = s\<lparr>faults := faults u\<rparr>" for u by (simp add: rollback_def s1_def)
  show ?thesis
  proof (cases "fst (run (exec_ddl (snd m)) s1)")
    case (Ok x)
    then obtain fs2 where r: "run (exec_ddl (snd m)) s1 = exec_ddl (snd m) (s1\<lparr>faults := fs2\<rparr>)"
      by (rule_tac run_cases [of "exec_ddl (snd m)" s1]) auto
    obtain objs where o: "run (exec_ddl (snd m)) s1 = (Ok (), s\<lparr>faults := fs2, schema_objects := objs\<rparr>)"
      "set (schema_objects s) \<subseteq> set objs" "ddl_names (snd m) \<subseteq> set objs"
      using exec_ddl_ext [of "snd m" "s1\<lparr>faults := fs2\<rparr>"] Ok r by (auto simp: s1_def prod_eq_iff)
    define s2 where "s2 = s\<lparr>faults := fs2, schema_objects := objs\<rparr>"
    have reorder: "s\<lparr>faults := a, schema_objects := objs\<rparr>\<lparr>faults := b, user_version := v\<rparr> =
        s\<lparr>schema_objects := objs, user_version := v, faults := b\<rparr>" for a b v
      by (cases s) simp
    show ?thesis
    proof (rule run_cases [of "set_user_version (fst m)" s2])
      fix fs3 assume "run (set_user_version (fst m)) s2 = set_user_version (fst m) (s2\<lparr>faults := fs3\<rparr>)"
      then have v: "run (set_user_version (fst m)) s2 = (Ok (), s\<lparr>schema_objects := objs, user_version := fst m, faults := fs3\<rparr>)"
        unfolding set_user_version_def s2_def reorder by simp
      define s3 where "s3 = s\<lparr>schema_objects := objs, user_version := fst m, faults := fs3\<rparr>"
      have ms: "migration_step m s =
          (case commit_tx s1 s3 of (Ok _, s4) \<Rightarrow> (Ok (), s4)
           | (r, s4) \<Rightarrow> (wrap_err ''store: commit migration %d: %w'' r, s4))"
        using o(1) v unfolding s2_def [symmetric] s3_def [symmetric] by (simp add: migration_step_def b)
      have s3: "s3\<lparr>faults := fs4\<rparr> = s\<lparr>schema_objects := objs, user_version := fst m, faults := fs4\<rparr>" for fs4
        by (simp add: s3_def)
      show ?thesis
      proof (rule commit_cases [of s1 s3])
        fix fs4 assume "commit_tx s1 s3 = (Ok (), s3\<lparr>faults := fs4\<rparr>)"
        then have "migration_step m s = (Ok (), s\<lparr>schema_objects := objs, user_version := fst m, faults := fs4\<rparr>)"
          unfolding ms s3 by simp
        with o(2,3) show ?thesis by blast
      next
        fix e fs4 assume "commit_tx s1 s3 = (Err e, rollback s1 (s3\<lparr>faults := fs4\<rparr>))"
        then have "migration_step m s = (Err (Wrap ''store: commit migration %d: %w'' e), s\<lparr>faults := fs4\<rparr>)"
          unfolding ms undo by simp
        then show ?thesis by blast
      next
        fix e fs4 assume "commit_tx s1 s3 = (Err e, s3\<lparr>faults := fs4\<rparr>)"
        then have "migration_step m s = (Err (Wrap ''store: commit migration %d: %w'' e),
            s\<lparr>schema_objects := objs, user_version := fst m, faults := fs4\<rparr>)"
          unfolding ms s3 by simp
        with o(2,3) show ?thesis by blast
      qed
    qed (use b o in \<open>auto simp: migration_step_def s2_def undo\<close>)
  next
    case (Err e)
    then show ?thesis using b by (auto simp: migration_step_def undo split: prod.splits)
  next
    case (Panic p)
    then show ?thesis
      by (rule_tac run_cases [of "exec_ddl (snd m)" s1]) (auto simp: exec_ddl_no_panic)
  qed
qed (auto simp: migration_step_def begin_tx_def)

lemma schema_ok_iff:
  "schema_ok s \<longleftrightarrow> (1 \<le> user_version s \<longrightarrow> ddl_names schemaV1 \<subseteq> set (schema_objects s)) \<and>
     (2 \<le> user_version s \<longrightarrow> ddl_names schemaV2 \<subseteq> set (schema_objects s))"
  by (auto simp: schema_ok_def migrations_def)

text \<open>What holds after a start that found the state \<open>s\<close>.\<close>

definition started :: "sqlite \<Rightarrow> unit res \<times> sqlite \<Rightarrow> bool" where
  "started s out \<longleftrightarrow>
     schema_ok (snd out) \<and> contents (snd out) = contents s \<and> foreign_keys (snd out) = foreign_keys s \<and>
     user_version s \<le> user_version (snd out) \<and> set (schema_objects s) \<subseteq> set (schema_objects (snd out)) \<and>
     (\<forall>p. fst out \<noteq> Panic p) \<and>
     (fst out = Ok () \<longrightarrow> 2 \<le> user_version (snd out))"

lemma migration_step_started:
  assumes "schema_ok s" and "m \<in> set migrations" and "fst m = user_version s + 1 \<or> fst m = 1 \<and> user_version s < 1"
  shows "\<exists>r s'. migration_step m s = (r, s') \<and> schema_ok s' \<and> contents s' = contents s \<and> foreign_keys s' = foreign_keys s \<and>
    user_version s \<le> user_version s' \<and> set (schema_objects s) \<subseteq> set (schema_objects s') \<and>
    (\<forall>p. r \<noteq> Panic p) \<and> (r = Ok () \<longrightarrow> user_version s' = fst m)"
  using migration_step_atomic [of m s]
proof (elim disjE exE conjE)
  fix e fs assume "migration_step m s = (Err e, s\<lparr>faults := fs\<rparr>)"
  then show ?thesis using assms(1) by (simp add: schema_ok_iff contents_def)
next
  fix r objs fs
  assume "migration_step m s = (r, s\<lparr>schema_objects := objs, user_version := fst m, faults := fs\<rparr>)" "\<forall>p. r \<noteq> Panic p"
    "set (schema_objects s) \<subseteq> set objs" "ddl_names (snd m) \<subseteq> set objs"
  then show ?thesis using assms by (auto simp: schema_ok_iff contents_def migrations_def)
qed

lemma migrate_started:
  assumes "schema_ok s"
  shows "started s (migrate_from (user_version s) migrations s)"
proof -
  have second: "started u (migrate_from v [(2, schemaV2)] u)" if "schema_ok u" "v < 2" "user_version u = 1" for u v
    using migration_step_started [OF that(1), of "(2, schemaV2)"] that
    by (auto simp: migrations_def started_def split: res.splits)
  consider "2 \<le> user_version s" | "user_version s = 1" | "user_version s < 1" by linarith
  then show ?thesis
  proof cases
    case 1
    with assms show ?thesis by (simp add: migrations_def started_def)
  next
    case 2
    with second [OF assms, of "user_version s"] show ?thesis by (simp add: migrations_def)
  next
    case 3
    obtain r s' where st: "migration_step (1, schemaV1) s = (r, s')" "schema_ok s'" "contents s' = contents s"
      "foreign_keys s' = foreign_keys s" "user_version s \<le> user_version s'"
      "set (schema_objects s) \<subseteq> set (schema_objects s')" "\<forall>p. r \<noteq> Panic p" "r = Ok () \<longrightarrow> user_version s' = 1"
      using migration_step_started [OF assms, of "(1, schemaV1)"] 3 by (auto simp: migrations_def)
    show ?thesis
    proof (cases r)
      case (Ok x)
      with st have "started s' (migrate_from (user_version s) [(2, schemaV2)] s')" using 3 by (intro second) auto
      with st 3 Ok show ?thesis by (auto simp: migrations_def started_def)
    qed (use st 3 in \<open>auto simp: migrations_def started_def\<close>)
  qed
qed

text \<open>Pragmas change the connection, not the database.\<close>

definition same_database :: "sqlite \<Rightarrow> sqlite \<Rightarrow> bool" where
  "same_database s u \<longleftrightarrow>
     contents u = contents s \<and> schema_objects u = schema_objects s \<and> user_version u = user_version s"

lemma pragmas_same:
  "same_database s (snd (apply_each_pragma ps s)) \<and> (\<forall>m. fst (apply_each_pragma ps s) \<noteq> Panic m) \<and>
   (fst (apply_each_pragma ps s) = Ok () \<longrightarrow>
      foreign_keys (snd (apply_each_pragma ps s)) = (foreign_keys s \<or> ''PRAGMA foreign_keys = ON'' \<in> set ps))"
proof (induction ps arbitrary: s)
  case Nil
  then show ?case by (simp add: same_database_def)
next
  case (Cons p ps)
  show ?case
  proof (rule run_cases [of "exec_pragma p" s])
    fix fs assume r: "run (exec_pragma p) s = exec_pragma p (s\<lparr>faults := fs\<rparr>)"
    define u where "u = snd (exec_pragma p (s\<lparr>faults := fs\<rparr>))"
    have "run (exec_pragma p) s = (Ok (), u)" using r by (simp add: exec_pragma_def u_def)
    moreover have "same_database s u" "foreign_keys u = (foreign_keys s \<or> p = ''PRAGMA foreign_keys = ON'')"
      by (auto simp: u_def exec_pragma_def same_database_def contents_def)
    ultimately show ?thesis using Cons [of u] by (auto simp: same_database_def)
  qed (auto simp: exec_pragma_def same_database_def contents_def)
qed

lemma new_sqlite_started:
  assumes "schema_ok s"
  shows "started (s\<lparr>foreign_keys := foreign_keys (snd (NewSQLite s))\<rparr>) (NewSQLite s) \<and>
    (fst (NewSQLite s) = Ok () \<longrightarrow> foreign_keys (snd (NewSQLite s)))"
proof -
  obtain r u where a: "applyPragmas s = (r, u)" by (cases "applyPragmas s")
  have u: "same_database s u" "\<And>m. r \<noteq> Panic m" "r = Ok () \<Longrightarrow> foreign_keys u"
    using pragmas_same [of s "[''PRAGMA busy_timeout = 5000'', ''PRAGMA journal_mode = WAL'', ''PRAGMA synchronous = NORMAL'',
      ''PRAGMA foreign_keys = ON'']"] a unfolding applyPragmas_def by auto
  have ok: "schema_ok u" using assms u(1) by (simp add: schema_ok_iff same_database_def)
  show ?thesis
  proof (cases r)
    case (Ok x)
    show ?thesis
    proof (rule run_cases [of query_user_version u])
      fix fs assume "run query_user_version u = query_user_version (u\<lparr>faults := fs\<rparr>)"
      then have n: "NewSQLite s = migrate_from (user_version u) migrations (u\<lparr>faults := fs\<rparr>)"
        using a Ok by (simp add: NewSQLite_def migrate_def query_user_version_def)
      have "started (u\<lparr>faults := fs\<rparr>) (migrate_from (user_version u) migrations (u\<lparr>faults := fs\<rparr>))"
        using migrate_started [of "u\<lparr>faults := fs\<rparr>"] ok by (simp add: schema_ok_iff)
      then show ?thesis
        unfolding n using u Ok by (simp add: started_def same_database_def contents_def)
    qed (use a Ok u ok in \<open>auto simp: NewSQLite_def migrate_def query_user_version_def started_def same_database_def
          contents_def schema_ok_iff\<close>)
  next
    case (Err e)
    with a u(1) ok show ?thesis by (simp add: NewSQLite_def started_def same_database_def contents_def)
  qed (use u(2) in blast)
qed

lemma pragmas_quiet:
  "faults s = [] \<Longrightarrow> fst (apply_each_pragma ps s) = Ok () \<and> faults (snd (apply_each_pragma ps s)) = []"
  by (induction ps arbitrary: s) (auto simp: run_quiet exec_pragma_def)

lemma migration_quiet:
  assumes "faults s = []" and "fst (exec_ddl (snd m) s) = Ok ()"
  shows "fst (migration_step m s) = Ok () \<and> faults (snd (migration_step m s)) = []"
proof -
  obtain objs where "exec_ddl (snd m) s = (Ok (), s\<lparr>schema_objects := objs\<rparr>)"
    using exec_ddl_ext [of "snd m" s] assms(2) by (auto simp: prod_eq_iff)
  with assms(1) show ?thesis
    by (simp add: migration_step_def run_quiet begin_tx_def set_user_version_def commit_tx_def)
qed

lemma migrate_quiet:
  assumes "schema_ok s" and "faults s = []"
  shows "fst (migrate_from (user_version s) migrations s) = Ok () \<and> faults (snd (migrate_from (user_version s) migrations s)) = []"
proof -
  have v1: "fst (exec_ddl schemaV1 u) = Ok ()" for u :: sqlite by (simp add: schemaV1_def)
  have second: "fst (migrate_from v [(2, schemaV2)] u) = Ok () \<and> faults (snd (migrate_from v [(2, schemaV2)] u)) = []"
    if u: "schema_ok u" "user_version u = 1" "faults u = []" and v: "v < 2" for u v
  proof -
    have "has_table u ''devices''" using u by (simp add: schema_ok_iff schemaV1_def has_table_def)
    then have "fst (exec_ddl schemaV2 u) = Ok ()" by (simp add: schemaV2_def)
    with migration_quiet [of u "(2, schemaV2)"] u(3) v show ?thesis by (auto split: res.splits prod.splits)
  qed
  consider "2 \<le> user_version s" | "user_version s = 1" | "user_version s < 1" by linarith
  then show ?thesis
  proof cases
    case 1
    with assms show ?thesis by (simp add: migrations_def)
  next
    case 2
    with second [OF assms(1) _ assms(2), of "user_version s"] show ?thesis by (simp add: migrations_def)
  next
    case 3
    have q: "fst (migration_step (1, schemaV1) s) = Ok ()" "faults (snd (migration_step (1, schemaV1) s)) = []"
      using migration_quiet [OF assms(2), of "(1, schemaV1)"] v1 by simp_all
    have m: "(1, schemaV1) \<in> set migrations" "fst (1 :: int, schemaV1) = user_version s + 1 \<or> fst (1 :: int, schemaV1) = 1 \<and> user_version s < 1"
      using 3 by (simp_all add: migrations_def)
    obtain s' where s': "migration_step (1, schemaV1) s = (Ok (), s')" "schema_ok s'" "user_version s' = 1" "faults s' = []"
      using migration_step_started [OF assms(1) m] q by (auto simp: prod_eq_iff)
    from second [OF s'(2-4), of "user_version s"] s'(1) 3 show ?thesis by (simp add: migrations_def)
  qed
qed

text \<open>Without faults a start succeeds from every version.\<close>

lemma new_sqlite_quiet:
  assumes "schema_ok s" and "faults s = []"
  shows "fst (NewSQLite s) = Ok () \<and> faults (snd (NewSQLite s)) = []"
proof -
  obtain u where a: "applyPragmas s = (Ok (), u)" "faults u = []" "same_database s u"
    using pragmas_quiet [OF assms(2)] pragmas_same [of s] unfolding applyPragmas_def by (metis prod.collapse)
  have "schema_ok u" using assms(1) a(3) by (simp add: schema_ok_iff same_database_def)
  from migrate_quiet [OF this a(2)] show ?thesis
    using a(1,2) by (simp add: NewSQLite_def migrate_def run_quiet query_user_version_def)
qed

section \<open>Properties\<close>


definition empty_sqlite :: sqlite where
  "empty_sqlite =
     \<lparr> schema_objects = [], t_devices = [], t_heartbeats = [], t_diagnostics = [], hb_seq = 0, diag_seq = 0,
       faults = [], user_version = 0, foreign_keys = False, pragmas = [] \<rparr>"


end
