(* ===== verification/Postgres_Store.thy ===== *)
theory Postgres_Store
  imports Sql_View Store_Pages
begin

text \<open>
  The Postgres store (\<^verbatim>\<open>internal/store/postgres.go\<close>): timestamps are TIMESTAMPTZ values, migrations
  are recorded in the table \<^verbatim>\<open>puls_schema_version\<close> and serialised by a session advisory lock. How
  the server rounds a timestamp to its resolution and how it collates texts are parameters of
  the model. \<open>now\<close> and \<open>new_id\<close> are the results of \<^verbatim>\<open>time.Now().UTC()\<close> and \<^verbatim>\<open>uuid.New().String()\<close>.
\<close>

record postgres = "time db" +
  schema_versions :: "int list"
  invalid_indexes :: "string list"
  advisory_lock :: bool

record pg_deps = "time deps" +
  to_ts :: "time \<Rightarrow> time"
  collate_less :: "string \<Rightarrow> string \<Rightarrow> bool"

text \<open>Rounding is idempotent and the collation is a strict total order.\<close>

definition pg_deps_ok :: "pg_deps \<Rightarrow> bool" where
  "pg_deps_ok p \<longleftrightarrow>
     deps_ok p \<and> (\<forall>t. to_ts p (to_ts p t) = to_ts p t) \<and>
     (\<forall>x. \<not> collate_less p x x) \<and> (\<forall>x y z. collate_less p x y \<longrightarrow> collate_less p y z \<longrightarrow> collate_less p x z) \<and>
     (\<forall>x y. x = y \<or> collate_less p x y \<or> collate_less p y x)"

section \<open>Migrations\<close>

definition pulsMigrationLockID :: int where
  "pulsMigrationLockID = 0x70756c73"

datatype pg_ddl =
    PgCreateTable string
  | PgCreateIndexConcurrently string string

definition schemaPostgresV1 :: "pg_ddl list" where
  "schemaPostgresV1 = [PgCreateTable ''devices'', PgCreateTable ''heartbeats'', PgCreateTable ''diagnostic_results'']"

definition schemaPostgresV2 :: "pg_ddl list" where
  "schemaPostgresV2 = [PgCreateIndexConcurrently ''idx_devices_registered_at_id'' ''devices'']"

text \<open>Version, statements, and whether they must run outside a transaction.\<close>

definition pgMigrations :: "(int \<times> pg_ddl list \<times> bool) list" where
  "pgMigrations = [(1, schemaPostgresV1, False), (2, schemaPostgresV2, True)]"

definition pg_add_object :: "string \<Rightarrow> postgres \<Rightarrow> postgres" where
  "pg_add_object n s = (if has_table s n then s else s\<lparr>schema_objects := schema_objects s @ [n]\<rparr>)"

fun pg_exec_ddl :: "bool \<Rightarrow> pg_ddl list \<Rightarrow> (postgres, unit) stmt" where
  "pg_exec_ddl in_tx [] s = (Ok (), s)"
| "pg_exec_ddl in_tx (PgCreateTable n # ds) s = pg_exec_ddl in_tx ds (pg_add_object n s)"
| "pg_exec_ddl in_tx (PgCreateIndexConcurrently n t # ds) s =
     (if in_tx then (Err (ErrText ''CREATE INDEX CONCURRENTLY cannot run inside a transaction block''), s)
      else if has_table s n then pg_exec_ddl in_tx ds s
      else if has_table s t then pg_exec_ddl in_tx ds (pg_add_object n s)
      else (no_table, s))"

text \<open>
  Outside a transaction, a build that breaks off leaves the index behind as invalid, and
  \<^verbatim>\<open>IF NOT EXISTS\<close> takes an invalid index for an existing one.
\<close>

definition leave_invalid :: "pg_ddl list \<Rightarrow> postgres \<Rightarrow> postgres" where
  "leave_invalid ds s =
     (case ds of
        PgCreateIndexConcurrently n t # _ \<Rightarrow>
          if \<not> has_table s n \<and> has_table s t
          then (pg_add_object n s)\<lparr>invalid_indexes := invalid_indexes s @ [n]\<rparr> else s
      | _ \<Rightarrow> s)"

definition run_autocommit :: "pg_ddl list \<Rightarrow> (postgres, unit) stmt" where
  "run_autocommit ds s =
     (case faults s of
        Interrupted m # fs \<Rightarrow> (Err (ErrText m), leave_invalid ds (s\<lparr>faults := fs\<rparr>))
      | _ \<Rightarrow> run (pg_exec_ddl False ds) s)"

definition insert_version :: "int \<Rightarrow> (postgres, unit) stmt" where
  "insert_version v s =
     (if \<not> has_table s ''puls_schema_version'' then (no_table, s)
      else if v \<in> set (schema_versions s) then (Err (ErrText ''unique constraint failed''), s)
      else (Ok (), s\<lparr>schema_versions := schema_versions s @ [v]\<rparr>))"

definition applyConcurrentMigration :: "int \<Rightarrow> pg_ddl list \<Rightarrow> (postgres, unit) stmt" where
  "applyConcurrentMigration version stmts s =
     (case run_autocommit stmts s of
        (Ok _, s1) \<Rightarrow> with_result (run (insert_version version) s1) (Wrap ''store: record version %d: %w'') Ok
      | (r, s1) \<Rightarrow> (wrap_err ''store: apply migration %d: %w'' r, s1))"

definition pg_rollback :: "postgres \<Rightarrow> postgres \<Rightarrow> postgres" where
  "pg_rollback s0 s = s0\<lparr>faults := faults s\<rparr>"

definition pg_commit :: "postgres \<Rightarrow> (postgres, unit) stmt" where
  "pg_commit s0 s =
     (case faults s of
        [] \<Rightarrow> (Ok (), s)
      | Fine # fs \<Rightarrow> (Ok (), s\<lparr>faults := fs\<rparr>)
      | Refused m # fs \<Rightarrow> (Err (ErrText m), pg_rollback s0 (s\<lparr>faults := fs\<rparr>))
      | Unacked m # fs \<Rightarrow> (Err (ErrText m), s\<lparr>faults := fs\<rparr>)
      | Interrupted m # fs \<Rightarrow> (Err (ErrText m), pg_rollback s0 (s\<lparr>faults := fs\<rparr>)))"

definition pg_begin :: "(postgres, unit) stmt" where
  "pg_begin s = (Ok (), s)"

definition pg_migration_step :: "int \<times> pg_ddl list \<times> bool \<Rightarrow> (postgres, unit) stmt" where
  "pg_migration_step m s =
     (let (version, stmts, concurrent) = m
      in if concurrent then applyConcurrentMigration version stmts s
         else case run pg_begin s of
                (Ok _, s1) \<Rightarrow>
                  (case run (pg_exec_ddl True stmts) s1 of
                     (Ok _, s2) \<Rightarrow>
                       (case run (insert_version version) s2 of
                          (Ok _, s3) \<Rightarrow> with_result (pg_commit s1 s3) (Wrap ''store: commit migration %d: %w'') Ok
                        | (r, s3) \<Rightarrow> (wrap_err ''store: record version %d: %w'' r, pg_rollback s1 s3))
                   | (r, s2) \<Rightarrow> (wrap_err ''store: apply migration %d: %w'' r, pg_rollback s1 s2))
              | (r, s1) \<Rightarrow> (wrap_err ''store: begin migration %d: %w'' r, s1))"

fun pg_migrate_from :: "int \<Rightarrow> (int \<times> pg_ddl list \<times> bool) list \<Rightarrow> (postgres, unit) stmt" where
  "pg_migrate_from current [] s = (Ok (), s)"
| "pg_migrate_from current (m # ms) s =
     (if fst m \<le> current then pg_migrate_from current ms s
      else case pg_migration_step m s of
             (Ok _, s') \<Rightarrow> pg_migrate_from current ms s'
           | (r, s') \<Rightarrow> (r, s'))"

definition get_conn :: "(postgres, unit) stmt" where
  "get_conn s = (Ok (), s)"

definition take_lock :: "(postgres, unit) stmt" where
  "take_lock s = (Ok (), s\<lparr>advisory_lock := True\<rparr>)"

text \<open>
  The deferred unlock runs on the background context, so no cancellation reaches it; a
  session that is lost instead gives its locks back too.
\<close>

definition unlock :: "postgres \<Rightarrow> postgres" where
  "unlock s = s\<lparr>advisory_lock := False\<rparr>"

definition create_version_table :: "(postgres, unit) stmt" where
  "create_version_table s = (Ok (), pg_add_object ''puls_schema_version'' s)"

definition current_version :: "(postgres, int) stmt" where
  "current_version s = (Ok (foldr max (schema_versions s) 0), s)"

text \<open>What \<^verbatim>\<open>migrate\<close> does while it holds the lock, and the whole of it.\<close>

definition pg_migrate_locked :: "(postgres, unit) stmt" where
  "pg_migrate_locked s2 =
     (case run create_version_table s2 of
        (Ok _, s3) \<Rightarrow>
          (case run current_version s3 of
             (Ok current, s4) \<Rightarrow> pg_migrate_from current pgMigrations s4
           | (Err e, s4) \<Rightarrow> (Err (Wrap ''store: read schema version: %w'' e), s4)
           | (Panic m, s4) \<Rightarrow> (Panic m, s4))
      | (r, s3) \<Rightarrow> (wrap_err ''store: create version table: %w'' r, s3))"

definition pg_migrate :: "(postgres, unit) stmt" where
  "pg_migrate s =
     (case run get_conn s of
        (Ok _, s1) \<Rightarrow>
          (case run take_lock s1 of
             (Ok _, s2) \<Rightarrow> (let (r, s') = pg_migrate_locked s2 in (r, unlock s'))
           | (r, s2) \<Rightarrow> (wrap_err ''store: acquire migration lock: %w'' r, s2))
      | (r, s1) \<Rightarrow> (wrap_err ''store: get migration conn: %w'' r, s1))"

definition NewPostgres :: "(postgres, unit) stmt" where
  "NewPostgres s = pg_migrate s"

section \<open>Scanning\<close>

text \<open>Instants carry no location, so \<^verbatim>\<open>UTC()\<close> leaves them as they are.\<close>

definition UTC :: "time \<Rightarrow> time" where
  "UTC t = t"

definition scanPGDevice :: "time device_row res \<Rightarrow> Device res" where
  "scanPGDevice row =
     wrap_err ''store: scan device: %w''
       (res_bind row (\<lambda>r.
        Ok \<lparr> dev_ID = r_id r, dev_Name = r_name r, dev_OS = r_os r, dev_Arch = r_arch r, dev_Status = r_status r,
             dev_RegisteredAt = UTC (r_registered_at r), dev_LastSeenAt = map_option UTC (r_last_seen_at r) \<rparr>))"

definition scanPGHeartbeat :: "time heartbeat_row res \<Rightarrow> Heartbeat res" where
  "scanPGHeartbeat row =
     wrap_err ''store: scan heartbeat: %w''
       (res_bind row (\<lambda>r.
        Ok \<lparr> hb_ID = h_id r, hb_DeviceID = h_device_id r, hb_ReceivedAt = UTC (h_received_at r),
             hb_CPUPercent = h_cpu_percent r, hb_MemoryPercent = h_memory_percent r,
             hb_DiskPercent = h_disk_percent r, hb_UptimeSeconds = h_uptime_seconds r,
             hb_OSVersion = h_os_version r \<rparr>))"

definition scanPGDiagnostic :: "time diagnostic_row res \<Rightarrow> DiagnosticResult res" where
  "scanPGDiagnostic row =
     wrap_err ''store: scan diagnostic: %w''
       (res_bind row (\<lambda>r.
        Ok \<lparr> diag_ID = g_id r, diag_DeviceID = g_device_id r, diag_RequestID = g_request_id r,
             diag_Scope = g_scope r, diag_RequestedAt = UTC (g_requested_at r),
             diag_ReceivedAt = map_option UTC (g_received_at r),
             diag_Payload = payload_of (g_payload r), diag_Status = [] \<rparr>))"

section \<open>Operations\<close>

text \<open>A negative LIMIT is an error.\<close>

definition limited :: "int \<Rightarrow> (postgres, 'a) stmt \<Rightarrow> (postgres, 'a) stmt" where
  "limited n st s = (if n < 0 then (Err (ErrText ''LIMIT must not be negative''), s) else st s)"

definition Postgres_Ping :: "(postgres, unit) stmt" where
  "Postgres_Ping s = run ping s"

definition Postgres_CreateDevice ::
    "pg_deps \<Rightarrow> string \<Rightarrow> time \<Rightarrow> RegisterRequest \<Rightarrow> (postgres, Device) stmt" where
  "Postgres_CreateDevice p new_id now req s =
     (case bcrypt p (req_Secret req) 12 of
        Inl e \<Rightarrow> (Err (Wrap ''store: hash secret: %w'' e), s)
      | Inr hash \<Rightarrow>
          with_result
            (run (insert_device
               \<lparr> r_id = new_id, r_name = req_Name req, r_os = req_OS req, r_arch = req_Arch req, r_secret_hash = hash,
                 r_status = ''unknown'', r_registered_at = to_ts p now, r_last_seen_at = None \<rparr>) s)
            (Wrap ''store: create device: %w'')
            (\<lambda>_. Ok \<lparr> dev_ID = new_id, dev_Name = req_Name req, dev_OS = req_OS req, dev_Arch = req_Arch req,
                       dev_Status = StatusUnknown, dev_RegisteredAt = now, dev_LastSeenAt = None \<rparr>))"

definition Postgres_GetDevice :: "string \<Rightarrow> (postgres, Device) stmt" where
  "Postgres_GetDevice i s =
     (let (rows, s') = run (select_devices (filter (\<lambda>r. r_id r = i))) s
      in (no_rows_not_found (scanPGDevice (res_bind rows first_row)), s'))"

text \<open>\<^verbatim>\<open>ORDER BY registered_at DESC, id DESC\<close>, with the texts collated.\<close>

definition pg_newer :: "pg_deps \<Rightarrow> time device_row \<Rightarrow> time device_row \<Rightarrow> bool" where
  "pg_newer p a b \<longleftrightarrow>
     r_registered_at b < r_registered_at a \<or> r_registered_at b = r_registered_at a \<and> collate_less p (r_id b) (r_id a)"

definition Postgres_ListDevices ::
    "pg_deps \<Rightarrow> int \<Rightarrow> string \<Rightarrow> (postgres, Device list \<times> string) stmt" where
  "Postgres_ListDevices p limit cursor s =
     (let query = \<lambda>cond.
        with_result
          (run (limited (limit + 1) (select_devices
             (\<lambda>rows. limit_rows (limit + 1) (order_by (pg_newer p) (filter cond (scan_devices p rows)))))) s)
          (Wrap ''store: list devices: %w'')
          (\<lambda>rows. res_bind (collect scanPGDevice rows) (cut_page limit))
      in if cursor \<noteq> [] then
           (case decodeDeviceCursor cursor of
              Err e \<Rightarrow> (Err e, s)
            | Panic m \<Rightarrow> (Panic m, s)
            | Ok (registeredAt, i) \<Rightarrow>
                (let ts = to_ts p registeredAt
                 in query (\<lambda>r. r_registered_at r < ts \<or> r_registered_at r = ts \<and> collate_less p (r_id r) i)))
         else query (\<lambda>_. True))"

definition Postgres_SetDeviceStatus :: "string \<Rightarrow> DeviceStatus \<Rightarrow> (postgres, unit) stmt" where
  "Postgres_SetDeviceStatus i status s =
     with_result (run (update_devices (\<lambda>r. r\<lparr>r_status := status\<rparr>) i) s)
       (Wrap ''store: set device status: %w'') not_found_if_none"

definition Postgres_UpdateLastSeen :: "pg_deps \<Rightarrow> time \<Rightarrow> string \<Rightarrow> (postgres, unit) stmt" where
  "Postgres_UpdateLastSeen p now i s =
     with_result
       (run (update_devices (\<lambda>r. r\<lparr>r_last_seen_at := Some (to_ts p now), r_status := ''online''\<rparr>) i) s)
       id (\<lambda>_. Ok ())"

definition Postgres_InsertHeartbeat :: "pg_deps \<Rightarrow> time \<Rightarrow> Heartbeat \<Rightarrow> (postgres, unit) stmt" where
  "Postgres_InsertHeartbeat p now hb s =
     with_result
       (run (insert_heartbeat True True
          (\<lambda>i. \<lparr> h_id = i, h_device_id = hb_DeviceID hb, h_received_at = to_ts p now,
                 h_cpu_percent = hb_CPUPercent hb, h_memory_percent = hb_MemoryPercent hb,
                 h_disk_percent = hb_DiskPercent hb, h_uptime_seconds = hb_UptimeSeconds hb,
                 h_os_version = hb_OSVersion hb \<rparr>)) s)
       id (\<lambda>_. Ok ())"

definition Postgres_ListHeartbeats :: "pg_deps \<Rightarrow> string \<Rightarrow> int \<Rightarrow> (postgres, Heartbeat list) stmt" where
  "Postgres_ListHeartbeats p deviceID limit s =
     with_result
       (run (limited limit (select_heartbeats
          (\<lambda>rows. limit_rows limit (order_by (\<lambda>a b. h_received_at b < h_received_at a)
             (filter (\<lambda>r. h_device_id r = deviceID) (scan_heartbeats p rows)))))) s)
       (Wrap ''store: list heartbeats: %w'') (collect scanPGHeartbeat)"

definition Postgres_CreateDiagnosticRequest ::
    "pg_deps \<Rightarrow> time \<Rightarrow> string \<Rightarrow> string \<Rightarrow> DiagnosticScope \<Rightarrow> (postgres, DiagnosticResult) stmt" where
  "Postgres_CreateDiagnosticRequest p now deviceID requestID scope s =
     with_result
       (run (insert_diagnostic True True
          (\<lambda>i. \<lparr> g_id = i, g_device_id = deviceID, g_request_id = requestID, g_scope = scope,
                 g_requested_at = to_ts p now, g_received_at = None, g_payload = None \<rparr>)) s)
       (Wrap ''store: create diagnostic request: %w'')
       (\<lambda>_. Ok \<lparr> diag_ID = 0, diag_DeviceID = deviceID, diag_RequestID = requestID, diag_Scope = scope,
                  diag_RequestedAt = now, diag_ReceivedAt = None, diag_Payload = None, diag_Status = [] \<rparr>)"

definition Postgres_DeleteDiagnosticRequest :: "string \<Rightarrow> (postgres, unit) stmt" where
  "Postgres_DeleteDiagnosticRequest requestID s =
     with_result (run (delete_diagnostics requestID) s)
       (Wrap ''store: delete diagnostic request: %w'') (\<lambda>_. Ok ())"

definition Postgres_SaveDiagnosticResult :: "pg_deps \<Rightarrow> time \<Rightarrow> string \<Rightarrow> string \<Rightarrow> (postgres, unit) stmt" where
  "Postgres_SaveDiagnosticResult p now requestID payload s =
     with_result
       (run (update_diagnostics
          (\<lambda>r. r\<lparr>g_received_at := Some (to_ts p now), g_payload := Some payload\<rparr>) requestID) s)
       (Wrap ''store: save diagnostic result: %w'') not_found_if_none"

definition Postgres_ListDiagnosticResults ::
    "pg_deps \<Rightarrow> string \<Rightarrow> int \<Rightarrow> (postgres, DiagnosticResult list) stmt" where
  "Postgres_ListDiagnosticResults p deviceID limit s =
     with_result
       (run (limited limit (select_diagnostics
          (\<lambda>rows. limit_rows limit (order_by (\<lambda>a b. g_requested_at b < g_requested_at a)
             (filter (\<lambda>r. g_device_id r = deviceID) (scan_diagnostics p rows)))))) s)
       (Wrap ''store: list diagnostics: %w'') (collect scanPGDiagnostic)"

definition Postgres_GetDiagnosticResult :: "string \<Rightarrow> (postgres, DiagnosticResult) stmt" where
  "Postgres_GetDiagnosticResult requestID s =
     (let (rows, s') = run (select_diagnostics (filter (\<lambda>r. g_request_id r = requestID))) s
      in (no_rows_not_found (scanPGDiagnostic (res_bind rows first_row)), s'))"

section \<open>The contract\<close>

definition pg_stamp :: "pg_deps \<Rightarrow> time \<Rightarrow> bool" where
  "pg_stamp p t \<longleftrightarrow> to_ts p t = t \<and> year_ok t \<and> t \<noteq> zero_time"

definition pg_clock_ok :: "pg_deps \<Rightarrow> time \<Rightarrow> bool" where
  "pg_clock_ok p now \<longleftrightarrow> pg_stamp p (to_ts p now)"

definition pg_inv :: "pg_deps \<Rightarrow> postgres \<Rightarrow> bool" where
  "pg_inv p s \<longleftrightarrow> db_inv (pg_stamp p) s"

definition pg_view :: "postgres \<Rightarrow> store_state" where
  "pg_view s = db_view UTC s"

definition pg_quiet :: "postgres \<Rightarrow> bool" where
  "pg_quiet s \<longleftrightarrow> faults s = []"

lemma UTC_id [simp]: "UTC t = t"
  by (simp add: UTC_def)

lemma pg_stamp_ts: "pg_clock_ok p now \<Longrightarrow> pg_stamp p (to_ts p now)"
  by (simp add: pg_clock_ok_def)

lemma scanPGDevice_Ok: "scanPGDevice (Ok r) = Ok (dev_of UTC r)"
  by (simp add: scanPGDevice_def dev_of_def)

lemma scanPGHeartbeat_Ok: "scanPGHeartbeat (Ok r) = Ok (hb_of UTC r)"
  by (simp add: scanPGHeartbeat_def hb_of_def)

lemma scanPGDiagnostic_Ok: "scanPGDiagnostic (Ok r) = Ok (diag_of UTC r)"
  by (simp add: scanPGDiagnostic_def diag_of_def)

lemma pg_scan_Err:
  "scanPGDevice (Err e) = Err (Wrap ''store: scan device: %w'' e)"
  "scanPGDiagnostic (Err e) = Err (Wrap ''store: scan diagnostic: %w'' e)"
  by (simp_all add: scanPGDevice_def scanPGDiagnostic_def)

lemma limited_nonneg: "0 \<le> n \<Longrightarrow> limited n st = st"
  by (simp add: limited_def fun_eq_iff)

lemma snd_limited [simp]: "(\<And>u. snd (st u) = u) \<Longrightarrow> snd (limited n st s) = s"
  by (simp add: limited_def)

lemma limited_negative: "n < 0 \<Longrightarrow> fst (with_result (run (limited n st) s) f g) \<noteq> Ok v"
  by (auto simp: limited_def run_def with_result_def Let_def split: list.splits fault.splits)

lemma run_pg_inv:
  assumes "pg_inv p s" and "\<And>u. db_inv (pg_stamp p) u \<Longrightarrow> db_inv (pg_stamp p) (snd (st u))"
  shows "pg_inv p (snd (run st s))"
  using assms run_inv [of "pg_stamp p" s st] by (simp add: pg_inv_def)

lemma pg_CreateDevice_inv:
  "pg_inv p s \<Longrightarrow> pg_clock_ok p now \<Longrightarrow> i \<noteq> [] \<Longrightarrow> pg_inv p (snd (Postgres_CreateDevice p i now req s))"
  unfolding Postgres_CreateDevice_def
  by (auto split: sum.split intro!: run_pg_inv insert_device_inv simp: device_row_ok_def pg_stamp_ts)

lemma pg_CreateDevice_effect:
  assumes "pg_inv p s" "pg_clock_ok p now"
  shows "all_or_nothing pg_view s (Postgres_CreateDevice p i now req s)
      (\<lambda>d a. d = new_device i now req \<and> st_devices (pg_view s) i = None \<and>
         a = add_device (new_device i (to_ts p now) req) (pg_view s))"
    and "pg_quiet s \<Longrightarrow> \<not> isl (bcrypt p (req_Secret req) 12) \<Longrightarrow> st_devices (pg_view s) i = None \<Longrightarrow>
      is_ok (fst (Postgres_CreateDevice p i now req s))"
proof -
  have inv: "db_inv (pg_stamp p) s" using assms(1) by (simp add: pg_inv_def)
  have d: "dev_of UTC \<lparr> r_id = i, r_name = req_Name req, r_os = req_OS req, r_arch = req_Arch req,
      r_secret_hash = hash, r_status = ''unknown'', r_registered_at = to_ts p now, r_last_seen_at = None \<rparr>
    = new_device i (to_ts p now) req" for hash
    using assms(2) by (simp add: dev_of_def new_device_def StatusUnknown_def)
  have n: "dev_ID (new_device i (to_ts p now) req) = i" by (simp add: new_device_def)
  note D = device_insertion [OF inv d, unfolded n]
  show "all_or_nothing pg_view s (Postgres_CreateDevice p i now req s)
      (\<lambda>d a. d = new_device i now req \<and> st_devices (pg_view s) i = None \<and>
         a = add_device (new_device i (to_ts p now) req) (pg_view s))"
    unfolding Postgres_CreateDevice_def pg_view_def new_device_def [of i now, symmetric]
    using D(1) by (auto split: sum.split intro: all_or_nothing_Err)
  show "is_ok (fst (Postgres_CreateDevice p i now req s))"
    if "pg_quiet s" "\<not> isl (bcrypt p (req_Secret req) 12)" "st_devices (pg_view s) i = None"
    using that unfolding Postgres_CreateDevice_def
    by (cases "bcrypt p (req_Secret req) 12") (simp_all add: pg_quiet_def pg_view_def D(2))
qed

lemma pg_SetDeviceStatus:
  assumes "pg_inv p s"
  shows "pg_inv p (snd (Postgres_SetDeviceStatus i st s))"
    and "all_or_nothing pg_view s (Postgres_SetDeviceStatus i st s)
      (\<lambda>_ a. st_devices (pg_view s) i \<noteq> None \<and> a = change_device i (\<lambda>d. d\<lparr>dev_Status := st\<rparr>) (pg_view s))"
    and "pg_quiet s \<Longrightarrow> fst (Postgres_SetDeviceStatus i st s) = (if st_devices (pg_view s) i = None then Err ErrNotFound else Ok ())"
    and "fst (Postgres_SetDeviceStatus i st s) = Err e \<Longrightarrow> errors_is e ErrNotFound \<Longrightarrow> st_devices (pg_view s) i = None"
proof -
  have inv: "db_inv (pg_stamp p) s" using assms by (simp add: pg_inv_def)
  note U = device_update_or_missing [OF inv, where h = "\<lambda>r. r\<lparr>r_status := st\<rparr>" and dec = UTC
      and g = "\<lambda>d. d\<lparr>dev_Status := st\<rparr>" and i = i and m = "''store: set device status: %w''"]
  have d: "dev_of UTC (r\<lparr>r_status := st\<rparr>) = (dev_of UTC r)\<lparr>dev_Status := st\<rparr>" for r :: "time device_row"
    by (simp add: dev_of_def)
  show "pg_inv p (snd (Postgres_SetDeviceStatus i st s))"
    unfolding Postgres_SetDeviceStatus_def snd_with_result using assms
    by (intro run_pg_inv update_devices_inv) (simp_all add: device_row_ok_def)
  show "all_or_nothing pg_view s (Postgres_SetDeviceStatus i st s)
      (\<lambda>_ a. st_devices (pg_view s) i \<noteq> None \<and> a = change_device i (\<lambda>d. d\<lparr>dev_Status := st\<rparr>) (pg_view s))"
    unfolding Postgres_SetDeviceStatus_def pg_view_def by (rule U(1)) (simp_all add: d)
  show "fst (Postgres_SetDeviceStatus i st s) = (if st_devices (pg_view s) i = None then Err ErrNotFound else Ok ())" if "pg_quiet s"
    unfolding Postgres_SetDeviceStatus_def pg_view_def using that by (intro U(2)) (simp_all add: d pg_quiet_def)
  show "st_devices (pg_view s) i = None" if "fst (Postgres_SetDeviceStatus i st s) = Err e" "errors_is e ErrNotFound"
    using that unfolding Postgres_SetDeviceStatus_def pg_view_def by (intro U(3)) (simp_all add: d)
qed

lemma pg_UpdateLastSeen:
  assumes "pg_inv p s" and "pg_clock_ok p now"
  shows "pg_inv p (snd (Postgres_UpdateLastSeen p now i s))"
    and "all_or_nothing pg_view s (Postgres_UpdateLastSeen p now i s)
      (\<lambda>_ a. a = change_device i (seen_at (to_ts p now)) (pg_view s))"
proof -
  have inv: "db_inv (pg_stamp p) s" using assms by (simp add: pg_inv_def)
  note U = device_update [OF inv, where h = "\<lambda>r. r\<lparr>r_last_seen_at := Some (to_ts p now), r_status := ''online''\<rparr>"
      and dec = UTC and g = "seen_at (to_ts p now)" and i = i]
  have d: "dev_of UTC (r\<lparr>r_last_seen_at := Some (to_ts p now), r_status := ''online''\<rparr>) =
      seen_at (to_ts p now) (dev_of UTC r)" for r :: "time device_row"
    using assms(2) by (simp add: dev_of_def seen_at_def StatusOnline_def)
  show "pg_inv p (snd (Postgres_UpdateLastSeen p now i s))"
    unfolding Postgres_UpdateLastSeen_def snd_with_result using assms
    by (intro run_pg_inv update_devices_inv) (simp_all add: device_row_ok_def pg_stamp_ts)
  show "all_or_nothing pg_view s (Postgres_UpdateLastSeen p now i s)
      (\<lambda>_ a. a = change_device i (seen_at (to_ts p now)) (pg_view s))"
    unfolding Postgres_UpdateLastSeen_def pg_view_def
    by (rule with_result_all_or_nothing [OF U(1)]) (simp_all add: d)
qed

lemma pg_UpdateLastSeen_quiet:
  assumes "pg_inv p s" and "pg_quiet s"
  shows "fst (Postgres_UpdateLastSeen p now i s) = Ok ()"
  using assms db_inv_tables [of "pg_stamp p" s]
  by (simp add: Postgres_UpdateLastSeen_def pg_inv_def pg_quiet_def run_quiet with_result_def update_devices_def)


lemma pg_InsertHeartbeat:
  assumes "pg_inv p s"
  shows "pg_clock_ok p now \<Longrightarrow> pg_inv p (snd (Postgres_InsertHeartbeat p now hb s))"
    and "pg_clock_ok p now \<Longrightarrow> all_or_nothing pg_view s (Postgres_InsertHeartbeat p now hb s)
      (\<lambda>_ a. st_devices (pg_view s) (hb_DeviceID hb) \<noteq> None \<and>
         (\<exists>n. n \<notin> hb_ID ` set (st_heartbeats (pg_view s)) \<and>
           a = add_heartbeat (hb\<lparr>hb_ID := n, hb_ReceivedAt := to_ts p now\<rparr>) (pg_view s)))"
    and "pg_quiet s \<Longrightarrow> is_ok (fst (Postgres_InsertHeartbeat p now hb s)) \<longleftrightarrow> st_devices (pg_view s) (hb_DeviceID hb) \<noteq> None"
proof -
  have inv: "db_inv (pg_stamp p) s" using assms by (simp add: pg_inv_def)
  define row where "row n = \<lparr> h_id = n, h_device_id = hb_DeviceID hb, h_received_at = to_ts p now,
      h_cpu_percent = hb_CPUPercent hb, h_memory_percent = hb_MemoryPercent hb, h_disk_percent = hb_DiskPercent hb,
      h_uptime_seconds = hb_UptimeSeconds hb, h_os_version = hb_OSVersion hb \<rparr>" for n
  have r: "h_id (row n) = n" "h_received_at (row n) = to_ts p now" "h_device_id (row n) = hb_DeviceID hb" for n
    by (simp_all add: row_def)
  have op: "Postgres_InsertHeartbeat p now hb s = with_result (run (insert_heartbeat True True row) s) id (\<lambda>_. Ok ())"
    by (simp add: Postgres_InsertHeartbeat_def row_def [abs_def])
  show "pg_inv p (snd (Postgres_InsertHeartbeat p now hb s))" if "pg_clock_ok p now"
    unfolding op snd_with_result using assms that
    by (intro run_pg_inv insert_heartbeat_inv) (simp_all add: r pg_stamp_ts)
  show "all_or_nothing pg_view s (Postgres_InsertHeartbeat p now hb s)
      (\<lambda>_ a. st_devices (pg_view s) (hb_DeviceID hb) \<noteq> None \<and>
         (\<exists>n. n \<notin> hb_ID ` set (st_heartbeats (pg_view s)) \<and>
           a = add_heartbeat (hb\<lparr>hb_ID := n, hb_ReceivedAt := to_ts p now\<rparr>) (pg_view s)))" if "pg_clock_ok p now"
    unfolding op pg_view_def
  proof (rule heartbeat_insertion(1) [OF inv])
    show "hb_of UTC (row n) = hb\<lparr>hb_ID := n, hb_ReceivedAt := to_ts p now\<rparr>" for n
      using that by (cases hb) (simp add: row_def hb_of_def)
  qed (rule r(1))
  show "is_ok (fst (Postgres_InsertHeartbeat p now hb s)) \<longleftrightarrow> st_devices (pg_view s) (hb_DeviceID hb) \<noteq> None" if "pg_quiet s"
    using insert_heartbeat_effect(1) [OF inv, where row = row and dec = UTC and burn = True] r that
    by (simp add: op pg_view_def run_quiet with_result_def pg_quiet_def)
qed

lemma pg_CreateDiagnosticRequest:
  assumes "pg_inv p s"
  shows "pg_clock_ok p now \<Longrightarrow> pg_inv p (snd (Postgres_CreateDiagnosticRequest p now i r sc s))"
    and "pg_clock_ok p now \<Longrightarrow> all_or_nothing pg_view s (Postgres_CreateDiagnosticRequest p now i r sc s)
      (\<lambda>g a. g = new_diagnostic 0 now i r sc \<and> st_devices (pg_view s) i \<noteq> None \<and> st_diagnostics (pg_view s) r = None \<and>
         (\<exists>n. a = add_diagnostic (new_diagnostic n (to_ts p now) i r sc) (pg_view s)))"
    and "pg_quiet s \<Longrightarrow> is_ok (fst (Postgres_CreateDiagnosticRequest p now i r sc s)) \<longleftrightarrow>
      st_devices (pg_view s) i \<noteq> None \<and> st_diagnostics (pg_view s) r = None"
proof -
  have inv: "db_inv (pg_stamp p) s" using assms by (simp add: pg_inv_def)
  define row where "row n = \<lparr> g_id = n, g_device_id = i, g_request_id = r, g_scope = sc,
      g_requested_at = to_ts p now, g_received_at = None, g_payload = None \<rparr>" for n
  have op: "Postgres_CreateDiagnosticRequest p now i r sc s =
      with_result (run (insert_diagnostic True True row) s) (Wrap ''store: create diagnostic request: %w'')
        (\<lambda>_. Ok (new_diagnostic 0 now i r sc))"
    by (simp add: Postgres_CreateDiagnosticRequest_def row_def [abs_def] new_diagnostic_def)
  have g: "g_request_id (row n) = r" "g_device_id (row n) = i" "g_id (row n) = n" for n by (simp_all add: row_def)
  show "pg_inv p (snd (Postgres_CreateDiagnosticRequest p now i r sc s))" if "pg_clock_ok p now"
    unfolding op snd_with_result using assms that
    by (intro run_pg_inv insert_diagnostic_inv) (simp_all add: row_def diagnostic_row_ok_def pg_stamp_ts)
  show "all_or_nothing pg_view s (Postgres_CreateDiagnosticRequest p now i r sc s)
      (\<lambda>g a. g = new_diagnostic 0 now i r sc \<and> st_devices (pg_view s) i \<noteq> None \<and> st_diagnostics (pg_view s) r = None \<and>
         (\<exists>n. a = add_diagnostic (new_diagnostic n (to_ts p now) i r sc) (pg_view s)))" if "pg_clock_ok p now"
    unfolding op pg_view_def using that
    by (intro diagnostic_insertion(1) [OF inv]) (simp add: row_def diag_of_def new_diagnostic_def payload_of_def)
  show "is_ok (fst (Postgres_CreateDiagnosticRequest p now i r sc s)) \<longleftrightarrow>
      st_devices (pg_view s) i \<noteq> None \<and> st_diagnostics (pg_view s) r = None" if "pg_quiet s"
  proof (cases "st_devices (db_view UTC s) i \<noteq> None \<and> st_diagnostics (db_view UTC s) r = None")
    case True
    from insert_diagnostic_effect(1) [where row = row and burn = True and dec = UTC, OF inv g(1,2) this]
    show ?thesis using True that by (simp add: op pg_view_def pg_quiet_def run_quiet with_result_def)
  next
    case False
    from insert_diagnostic_effect(2) [where row = row and burn = True and dec = UTC, OF inv g(1,2) this]
    show ?thesis using False that by (auto simp: op pg_view_def pg_quiet_def run_quiet with_result_def)
  qed
qed

lemma pg_DeleteDiagnosticRequest:
  assumes "pg_inv p s"
  shows "pg_inv p (snd (Postgres_DeleteDiagnosticRequest r s))"
    and "all_or_nothing pg_view s (Postgres_DeleteDiagnosticRequest r s) (\<lambda>_ a. a = drop_diagnostic r (pg_view s))"
    and "pg_quiet s \<Longrightarrow> fst (Postgres_DeleteDiagnosticRequest r s) = Ok ()"
proof -
  have inv: "db_inv (pg_stamp p) s" using assms by (simp add: pg_inv_def)
  show "pg_inv p (snd (Postgres_DeleteDiagnosticRequest r s))"
    unfolding Postgres_DeleteDiagnosticRequest_def snd_with_result using assms
    by (intro run_pg_inv delete_diagnostics_effect(3)) simp_all
  show "all_or_nothing pg_view s (Postgres_DeleteDiagnosticRequest r s) (\<lambda>_ a. a = drop_diagnostic r (pg_view s))"
    unfolding Postgres_DeleteDiagnosticRequest_def pg_view_def by (rule diagnostic_deletion(1) [OF inv])
  show "fst (Postgres_DeleteDiagnosticRequest r s) = Ok ()" if "pg_quiet s"
    using that unfolding Postgres_DeleteDiagnosticRequest_def pg_quiet_def by (rule diagnostic_deletion(2) [OF inv])
qed

lemma pg_SaveDiagnosticResult:
  assumes "pg_inv p s"
  shows "pg_clock_ok p now \<Longrightarrow> pg_inv p (snd (Postgres_SaveDiagnosticResult p now r q s))"
    and "pg_clock_ok p now \<Longrightarrow> all_or_nothing pg_view s (Postgres_SaveDiagnosticResult p now r q s)
      (\<lambda>_ a. st_diagnostics (pg_view s) r \<noteq> None \<and> a = change_diagnostic r (answered (to_ts p now) q) (pg_view s))"
    and "pg_quiet s \<Longrightarrow> fst (Postgres_SaveDiagnosticResult p now r q s) =
      (if st_diagnostics (pg_view s) r = None then Err ErrNotFound else Ok ())"
    and "fst (Postgres_SaveDiagnosticResult p now r q s) = Err e \<Longrightarrow> errors_is e ErrNotFound \<Longrightarrow> st_diagnostics (pg_view s) r = None"
proof -
  have inv: "db_inv (pg_stamp p) s" using assms by (simp add: pg_inv_def)
  define upd :: "time diagnostic_row \<Rightarrow> time diagnostic_row" where
    "upd g = g\<lparr>g_received_at := Some (to_ts p now), g_payload := Some q\<rparr>" for g
  have op: "Postgres_SaveDiagnosticResult p now r q s =
      with_result (run (update_diagnostics upd r) s) (Wrap ''store: save diagnostic result: %w'') not_found_if_none"
    by (simp add: Postgres_SaveDiagnosticResult_def upd_def [abs_def])
  have u: "g_request_id (upd g) = g_request_id g" for g by (simp add: upd_def)
  have d: "diag_of UTC (upd g) = answered (UTC (to_ts p now)) q (diag_of UTC g)" for g
    by (simp add: upd_def diag_of_def answered_def payload_of_def)
  note U = diagnostic_update_or_missing [where h = upd and dec = UTC, OF inv u d]
  show "pg_inv p (snd (Postgres_SaveDiagnosticResult p now r q s))" if "pg_clock_ok p now"
    unfolding op snd_with_result using assms that
    by (intro run_pg_inv update_diagnostics_inv) (simp_all add: upd_def diagnostic_row_ok_def pg_stamp_ts)
  show "all_or_nothing pg_view s (Postgres_SaveDiagnosticResult p now r q s)
      (\<lambda>_ a. st_diagnostics (pg_view s) r \<noteq> None \<and> a = change_diagnostic r (answered (to_ts p now) q) (pg_view s))" if "pg_clock_ok p now"
    using U(1) that unfolding op pg_view_def by simp
  show "fst (Postgres_SaveDiagnosticResult p now r q s) = (if st_diagnostics (pg_view s) r = None then Err ErrNotFound else Ok ())"
    if "pg_quiet s"
    using that unfolding op pg_view_def pg_quiet_def by (rule U(2))
  show "st_diagnostics (pg_view s) r = None"
    if "fst (Postgres_SaveDiagnosticResult p now r q s) = Err e" "errors_is e ErrNotFound"
    using that unfolding op pg_view_def by (rule U(3))
qed

subsection \<open>Reading\<close>

lemma pg_GetDevice:
  assumes "pg_inv p s"
  shows "fst (Postgres_GetDevice i s) = (case st_devices (pg_view s) i of None \<Rightarrow> Err ErrNotFound | Some d \<Rightarrow> Ok d) \<or>
      (\<exists>t. fst (Postgres_GetDevice i s) = Err (Wrap ''store: scan device: %w'' (ErrText t)))"
    and "pg_quiet s \<Longrightarrow> Postgres_GetDevice i s = ((case st_devices (pg_view s) i of None \<Rightarrow> Err ErrNotFound | Some d \<Rightarrow> Ok d), s)"
    and "pg_inv p (snd (Postgres_GetDevice i s)) \<and> pg_view (snd (Postgres_GetDevice i s)) = pg_view s"
proof -
  have inv: "db_inv (pg_stamp p) s" using assms by (simp add: pg_inv_def)
  let ?q = "select_devices (filter (\<lambda>r. r_id r = i)) :: (postgres, _) stmt"
  have op: "Postgres_GetDevice i s = (no_rows_not_found (scanPGDevice (res_bind (fst (run ?q s)) first_row)), snd (run ?q s))"
    by (simp add: Postgres_GetDevice_def case_prod_unfold Let_def)
  note G = get_device [where scan = scanPGDevice and dec = UTC, OF inv scanPGDevice_Ok pg_scan_Err(1), of i]
  show "fst (Postgres_GetDevice i s) = (case st_devices (pg_view s) i of None \<Rightarrow> Err ErrNotFound | Some d \<Rightarrow> Ok d) \<or>
      (\<exists>t. fst (Postgres_GetDevice i s) = Err (Wrap ''store: scan device: %w'' (ErrText t)))"
    unfolding op pg_view_def fst_conv by (rule G(1))
  show "Postgres_GetDevice i s = ((case st_devices (pg_view s) i of None \<Rightarrow> Err ErrNotFound | Some d \<Rightarrow> Ok d), s)" if "pg_quiet s"
    unfolding op pg_view_def using G(2) that by (simp add: pg_quiet_def run_quiet)
  show "pg_inv p (snd (Postgres_GetDevice i s)) \<and> pg_view (snd (Postgres_GetDevice i s)) = pg_view s"
    unfolding op snd_conv pg_view_def using assms
    by (intro conjI run_pg_inv run_read) simp_all
qed

lemma pg_GetDiagnosticResult:
  assumes "pg_inv p s"
  shows "fst (Postgres_GetDiagnosticResult r s) = (case st_diagnostics (pg_view s) r of None \<Rightarrow> Err ErrNotFound | Some d \<Rightarrow> Ok d) \<or>
      (\<exists>t. fst (Postgres_GetDiagnosticResult r s) = Err (Wrap ''store: scan diagnostic: %w'' (ErrText t)))"
    and "pg_quiet s \<Longrightarrow> Postgres_GetDiagnosticResult r s =
      ((case st_diagnostics (pg_view s) r of None \<Rightarrow> Err ErrNotFound | Some d \<Rightarrow> Ok d), s)"
    and "pg_inv p (snd (Postgres_GetDiagnosticResult r s)) \<and> pg_view (snd (Postgres_GetDiagnosticResult r s)) = pg_view s"
proof -
  have inv: "db_inv (pg_stamp p) s" using assms by (simp add: pg_inv_def)
  let ?q = "select_diagnostics (filter (\<lambda>g. g_request_id g = r)) :: (postgres, _) stmt"
  have op: "Postgres_GetDiagnosticResult r s =
      (no_rows_not_found (scanPGDiagnostic (res_bind (fst (run ?q s)) first_row)), snd (run ?q s))"
    by (simp add: Postgres_GetDiagnosticResult_def case_prod_unfold Let_def)
  note G = get_diagnostic [where scan = scanPGDiagnostic and dec = UTC, OF inv scanPGDiagnostic_Ok pg_scan_Err(2), of r]
  show "fst (Postgres_GetDiagnosticResult r s) = (case st_diagnostics (pg_view s) r of None \<Rightarrow> Err ErrNotFound | Some d \<Rightarrow> Ok d) \<or>
      (\<exists>t. fst (Postgres_GetDiagnosticResult r s) = Err (Wrap ''store: scan diagnostic: %w'' (ErrText t)))"
    unfolding op pg_view_def fst_conv by (rule G(1))
  show "Postgres_GetDiagnosticResult r s =
      ((case st_diagnostics (pg_view s) r of None \<Rightarrow> Err ErrNotFound | Some d \<Rightarrow> Ok d), s)" if "pg_quiet s"
    unfolding op pg_view_def using G(2) that by (simp add: pg_quiet_def run_quiet)
  show "pg_inv p (snd (Postgres_GetDiagnosticResult r s)) \<and> pg_view (snd (Postgres_GetDiagnosticResult r s)) = pg_view s"
    unfolding op snd_conv pg_view_def using assms
    by (intro conjI run_pg_inv run_read) simp_all
qed

lemma pg_ListHeartbeats:
  assumes "pg_inv p s" and "scans_all (scan_heartbeats p)"
  shows "fst (Postgres_ListHeartbeats p i n s) = Ok hbs \<Longrightarrow>
      newest hb_ReceivedAt n (mset (filter (\<lambda>h. hb_DeviceID h = i) (st_heartbeats (pg_view s)))) hbs"
    and "0 \<le> n \<Longrightarrow> pg_quiet s \<Longrightarrow> is_ok (fst (Postgres_ListHeartbeats p i n s))"
    and "pg_inv p (snd (Postgres_ListHeartbeats p i n s)) \<and> pg_view (snd (Postgres_ListHeartbeats p i n s)) = pg_view s"
proof -
  have inv: "db_inv (pg_stamp p) s" using assms by (simp add: pg_inv_def)
  let ?lt = "\<lambda>a b. h_received_at b < (h_received_at a :: time)"
  let ?q = "\<lambda>rows. limit_rows n (order_by ?lt (filter (\<lambda>r. h_device_id r = i) (scan_heartbeats p rows)))"
  have st: "pg_stamp p (h_received_at r)" if "r \<in> set (t_heartbeats s)" for r
    using inv that by (auto simp: db_inv_def list_all_iff)
  have sub: "set (?q (t_heartbeats s)) \<subseteq> set (t_heartbeats s)"
    using set_limit_rows [of n] set_scans_all [OF assms(2)] by fastforce
  have C: "fst (Postgres_ListHeartbeats p i n s) = Ok (map (hb_of UTC) (?q (t_heartbeats s))) \<or>
      (\<exists>t. fst (Postgres_ListHeartbeats p i n s) = Err (Wrap ''store: list heartbeats: %w'' (ErrText t)))"
    "pg_quiet s \<Longrightarrow> fst (Postgres_ListHeartbeats p i n s) = Ok (map (hb_of UTC) (?q (t_heartbeats s)))"
    if "0 \<le> n"
    unfolding Postgres_ListHeartbeats_def pg_quiet_def limited_nonneg [OF that]
    by (rule with_result_collect [where q = ?q and rows = "t_heartbeats s"];
        use db_inv_tables [OF inv] st sub scanPGHeartbeat_Ok in \<open>force simp: select_heartbeats_def\<close>)+
  have N: "newest hb_ReceivedAt n (mset (map (hb_of UTC) (filter (\<lambda>r. h_device_id r = i) (t_heartbeats s))))
      (map (hb_of UTC) (?q (t_heartbeats s)))"
  proof (rule newest_order_by [OF assms(2) weak_order_key])
    fix a b assume "a \<in> set (t_heartbeats s)" "b \<in> set (t_heartbeats s)" "\<not> h_received_at a < h_received_at b"
    then show "hb_ReceivedAt (hb_of UTC b) \<le> hb_ReceivedAt (hb_of UTC a)"
      by (simp add: hb_of_def)
  qed
  have F: "filter (\<lambda>h. hb_DeviceID h = i) (st_heartbeats (pg_view s)) =
      map (hb_of UTC) (filter (\<lambda>r. h_device_id r = i) (t_heartbeats s))"
    by (simp add: pg_view_def db_view_def filter_map comp_def hb_of_def)
  show "newest hb_ReceivedAt n (mset (filter (\<lambda>h. hb_DeviceID h = i) (st_heartbeats (pg_view s)))) hbs"
    if "fst (Postgres_ListHeartbeats p i n s) = Ok hbs"
  proof (cases "0 \<le> n")
    case True
    with C(1) N that show ?thesis unfolding F by auto
  next
    case False
    with that limited_negative [of n] show ?thesis
      unfolding Postgres_ListHeartbeats_def by (metis not_le)
  qed
  show "is_ok (fst (Postgres_ListHeartbeats p i n s))" if "0 \<le> n" "pg_quiet s"
    using C(2) [OF that] by simp
  show "pg_inv p (snd (Postgres_ListHeartbeats p i n s)) \<and> pg_view (snd (Postgres_ListHeartbeats p i n s)) = pg_view s"
    unfolding Postgres_ListHeartbeats_def snd_with_result pg_view_def using assms
    by (intro conjI run_pg_inv run_read) simp_all
qed

lemma pg_ListDiagnosticResults:
  assumes "pg_inv p s" and "scans_all (scan_diagnostics p)"
  shows "0 \<le> n \<Longrightarrow> fst (Postgres_ListDiagnosticResults p i n s) = Ok gs \<Longrightarrow>
      set gs \<subseteq> {g. \<exists>r. st_diagnostics (pg_view s) r = Some g \<and> diag_DeviceID g = i} \<and>
      distinct (map diag_RequestID gs) \<and> sorted_wrt (\<lambda>a b. diag_RequestedAt b \<le> diag_RequestedAt a) gs \<and>
      (int (length gs) < n \<longrightarrow> set gs = {g. \<exists>r. st_diagnostics (pg_view s) r = Some g \<and> diag_DeviceID g = i})"
    and "0 \<le> n \<Longrightarrow> pg_quiet s \<Longrightarrow> is_ok (fst (Postgres_ListDiagnosticResults p i n s))"
    and "pg_inv p (snd (Postgres_ListDiagnosticResults p i n s)) \<and>
      pg_view (snd (Postgres_ListDiagnosticResults p i n s)) = pg_view s"
proof -
  have inv: "db_inv (pg_stamp p) s" using assms by (simp add: pg_inv_def)
  let ?lt = "\<lambda>a b. g_requested_at b < (g_requested_at a :: time)"
  let ?q = "\<lambda>rows. limit_rows n (order_by ?lt (filter (\<lambda>r. g_device_id r = i) (scan_diagnostics p rows)))"
  have st: "diagnostic_row_ok (pg_stamp p) r" if "r \<in> set (t_diagnostics s)" for r
    using inv that by (auto simp: db_inv_def list_all_iff)
  have sub: "set (?q (t_diagnostics s)) \<subseteq> set (t_diagnostics s)"
    using set_limit_rows [of n] set_scans_all [OF assms(2)] by fastforce
  have C: "fst (Postgres_ListDiagnosticResults p i n s) = Ok (map (diag_of UTC) (?q (t_diagnostics s))) \<or>
      (\<exists>t. fst (Postgres_ListDiagnosticResults p i n s) = Err (Wrap ''store: list diagnostics: %w'' (ErrText t)))"
    "pg_quiet s \<Longrightarrow> fst (Postgres_ListDiagnosticResults p i n s) = Ok (map (diag_of UTC) (?q (t_diagnostics s)))"
    if "0 \<le> n"
    unfolding Postgres_ListDiagnosticResults_def pg_quiet_def limited_nonneg [OF that]
    by (rule with_result_collect [where q = ?q and rows = "t_diagnostics s"];
        use db_inv_tables [OF inv] st sub scanPGDiagnostic_Ok in \<open>force simp: select_diagnostics_def\<close>)+
  have N: "newest diag_RequestedAt n (mset (map (diag_of UTC) (filter (\<lambda>r. g_device_id r = i) (t_diagnostics s))))
      (map (diag_of UTC) (?q (t_diagnostics s)))"
  proof (rule newest_order_by [OF assms(2) weak_order_key])
    fix a b assume "a \<in> set (t_diagnostics s)" "b \<in> set (t_diagnostics s)" "\<not> g_requested_at a < g_requested_at b"
    then show "diag_RequestedAt (diag_of UTC b) \<le> diag_RequestedAt (diag_of UTC a)"
      by (simp add: diag_of_def diagnostic_row_ok_def)
  qed
  show "set gs \<subseteq> {g. \<exists>r. st_diagnostics (pg_view s) r = Some g \<and> diag_DeviceID g = i} \<and>
      distinct (map diag_RequestID gs) \<and> sorted_wrt (\<lambda>a b. diag_RequestedAt b \<le> diag_RequestedAt a) gs \<and>
      (int (length gs) < n \<longrightarrow> set gs = {g. \<exists>r. st_diagnostics (pg_view s) r = Some g \<and> diag_DeviceID g = i})"
    if "0 \<le> n" "fst (Postgres_ListDiagnosticResults p i n s) = Ok gs"
  proof -
    have "gs = map (diag_of UTC) (?q (t_diagnostics s))" using C(1) [OF that(1)] that(2) by auto
    with newest_diagnostics [OF N inv that(1)] show ?thesis by (simp add: pg_view_def)
  qed
  show "is_ok (fst (Postgres_ListDiagnosticResults p i n s))" if "0 \<le> n" "pg_quiet s"
    using C(2) [OF that] by simp
  show "pg_inv p (snd (Postgres_ListDiagnosticResults p i n s)) \<and>
      pg_view (snd (Postgres_ListDiagnosticResults p i n s)) = pg_view s"
    unfolding Postgres_ListDiagnosticResults_def snd_with_result pg_view_def using assms
    by (intro conjI run_pg_inv run_read) simp_all
qed

lemma pg_quiet_keeps:
  assumes "pg_quiet s"
  shows "pg_quiet (snd (Postgres_CreateDevice p i now req s)) \<and> pg_quiet (snd (Postgres_SetDeviceStatus i st s)) \<and>
    pg_quiet (snd (Postgres_UpdateLastSeen p now i s)) \<and> pg_quiet (snd (Postgres_InsertHeartbeat p now hb s)) \<and>
    pg_quiet (snd (Postgres_CreateDiagnosticRequest p now i r sc s)) \<and> pg_quiet (snd (Postgres_DeleteDiagnosticRequest r s)) \<and>
    pg_quiet (snd (Postgres_SaveDiagnosticResult p now r q s)) \<and>
    pg_quiet (snd (Postgres_ListHeartbeats p i n s)) \<and> pg_quiet (snd (Postgres_ListDiagnosticResults p i n s))"
  using assms
  by (simp add: pg_quiet_def Postgres_CreateDevice_def Postgres_SetDeviceStatus_def Postgres_UpdateLastSeen_def
      Postgres_InsertHeartbeat_def Postgres_CreateDiagnosticRequest_def Postgres_DeleteDiagnosticRequest_def
      Postgres_SaveDiagnosticResult_def Postgres_ListHeartbeats_def Postgres_ListDiagnosticResults_def run_quiet stmt_faults
      split: sum.split)

interpretation pg: store_contract "\<lambda>s. pg_inv p s \<and> pg_deps_ok p" pg_quiet pg_view "\<lambda>_. to_ts p" "\<lambda>_. pg_clock_ok p"
    "\<lambda>_ secret. \<not> isl (bcrypt p secret 12)"
    "Postgres_CreateDevice p" Postgres_GetDevice Postgres_SetDeviceStatus "Postgres_UpdateLastSeen p"
    "Postgres_InsertHeartbeat p" "Postgres_ListHeartbeats p" "Postgres_CreateDiagnosticRequest p"
    Postgres_DeleteDiagnosticRequest "Postgres_SaveDiagnosticResult p" "Postgres_ListDiagnosticResults p"
    Postgres_GetDiagnosticResult
  for p
proof (unfold_locales, goal_cases)
  case (1 s i d)
  then show ?case using db_view_keyed by (auto simp: pg_view_def)
next
  case (2 s r g)
  then show ?case using db_view_keyed_diag by (auto simp: pg_view_def)
next
  case (3 s now i req)
  then show ?case by (simp add: pg_CreateDevice_inv)
next
  case (4 s i)
  then show ?case using pg_GetDevice(3) [of p s i] by simp
next
  case (5 s i st)
  then show ?case by (simp add: pg_SetDeviceStatus)
next
  case (6 s now i)
  then show ?case by (simp add: pg_UpdateLastSeen)
next
  case (7 s now hb)
  then show ?case by (simp add: pg_InsertHeartbeat)
next
  case (8 s i n)
  then show ?case by (simp add: pg_ListHeartbeats pg_deps_ok_def deps_ok_def)
next
  case (9 s now i r sc)
  then show ?case by (simp add: pg_CreateDiagnosticRequest)
next
  case (10 s r)
  then show ?case by (simp add: pg_DeleteDiagnosticRequest)
next
  case (11 s now r q)
  then show ?case by (simp add: pg_SaveDiagnosticResult)
next
  case (12 s i n)
  then show ?case by (simp add: pg_ListDiagnosticResults pg_deps_ok_def deps_ok_def)
next
  case (13 s r)
  then show ?case using pg_GetDiagnosticResult(3) by blast
next
  case (14 s now i req)
  then show ?case by (intro pg_CreateDevice_effect(1)) simp_all
next
  case (15 s i st)
  then show ?case by (intro pg_SetDeviceStatus(2) [of p]) simp_all
next
  case (16 s now i)
  then show ?case by (intro pg_UpdateLastSeen(2) [of p]) simp_all
next
  case (17 s now hb)
  then show ?case by (intro pg_InsertHeartbeat(2) [of p]) simp_all
next
  case (18 s now i r sc)
  then show ?case by (intro pg_CreateDiagnosticRequest(2) [of p]) simp_all
next
  case (19 s r)
  then show ?case by (intro pg_DeleteDiagnosticRequest(2) [of p]) simp_all
next
  case (20 s now r q)
  then show ?case by (intro pg_SaveDiagnosticResult(2) [of p]) simp_all
next
  case (21 s i d)
  then show ?case using pg_GetDevice(1) [of p s i] by (auto split: option.splits)
next
  case (22 s i e)
  then show ?case using pg_GetDevice(1) [of p s i] by (auto split: option.splits)
next
  case (23 s r g)
  then show ?case using pg_GetDiagnosticResult(1) [of p s r] by (auto split: option.splits)
next
  case (24 s r e)
  then show ?case using pg_GetDiagnosticResult(1) [of p s r] by (auto split: option.splits)
next
  case (25 s i st e)
  then show ?case using pg_SetDeviceStatus(4) by blast
next
  case (26 s now r q e)
  then show ?case using pg_SaveDiagnosticResult(4) by blast
next
  case (27 s i n hbs)
  then show ?case using pg_ListHeartbeats(1) [of p s i n hbs] by (simp add: pg_deps_ok_def deps_ok_def)
next
  case (28 s n i gs)
  then show ?case using pg_ListDiagnosticResults(1) [of p s n i gs] by (simp add: pg_deps_ok_def deps_ok_def)
next
  case (29 s i)
  then show ?case using pg_GetDevice(2) [of p s i] by (auto split: option.splits)
next
  case (30 s r)
  then show ?case using pg_GetDiagnosticResult(2) [of p s r] by (auto split: option.splits)
next
  case (31 s now req i)
  then show ?case using pg_CreateDevice_effect(2) by blast
next
  case (32 s i st)
  then show ?case by (intro pg_SetDeviceStatus(3) [of p]) simp_all
next
  case (33 s now i)
  then show ?case by (intro pg_UpdateLastSeen_quiet [of p]) simp_all
next
  case (34 s now hb)
  then show ?case by (intro pg_InsertHeartbeat(3) [of p]) simp_all
next
  case (35 s n i)
  then show ?case using pg_ListHeartbeats(2) [of p s] by (simp add: pg_deps_ok_def deps_ok_def)
next
  case (36 s now i r sc)
  then show ?case by (intro pg_CreateDiagnosticRequest(3) [of p]) simp_all
next
  case (37 s r)
  then show ?case by (intro pg_DeleteDiagnosticRequest(3) [of p]) simp_all
next
  case (38 s now r q)
  then show ?case by (intro pg_SaveDiagnosticResult(3) [of p]) simp_all
next
  case (39 s n i)
  then show ?case using pg_ListDiagnosticResults(2) [of p s] by (simp add: pg_deps_ok_def deps_ok_def)
next
  case (40 s i now req st hb r sc q n)
  then show ?case by (rule pg_quiet_keeps)
qed

section \<open>Pages\<close>

definition pg_before :: "pg_deps \<Rightarrow> device_key \<Rightarrow> device_key \<Rightarrow> bool" where
  "pg_before p k k' \<longleftrightarrow> fst k' < fst k \<or> fst k' = fst k \<and> collate_less p (snd k') (snd k)"

definition pg_listing :: "pg_deps \<Rightarrow> postgres \<Rightarrow> Device list" where
  "pg_listing p s = map (dev_of UTC) (order_by (pg_newer p) (scan_devices p (t_devices s)))"

lemma pg_newer_iff: "pg_newer p a b \<longleftrightarrow> pg_before p (key_of (dev_of UTC a)) (key_of (dev_of UTC b))"
  by (auto simp: pg_newer_def pg_before_def key_of_def dev_of_def)

lemma weak_order_pg_newer:
  assumes "pg_deps_ok p"
  shows "weak_order (pg_newer p)"
proof -
  have c: "\<not> collate_less p x x" "collate_less p x y \<Longrightarrow> collate_less p y z \<Longrightarrow> collate_less p x z"
    "x = y \<or> collate_less p x y \<or> collate_less p y x" for x y z
    using assms unfolding pg_deps_ok_def by blast+
  show ?thesis
    unfolding weak_order_def
  proof (intro conjI allI impI)
    show "pg_newer p x z" if "pg_newer p x y" "pg_newer p y z" for x y z
      using that c(2) [of "r_id z" "r_id y" "r_id x"] by (auto simp: pg_newer_def)
    show "\<not> pg_newer p x x" for x using c(1) by (simp add: pg_newer_def)
    show "pg_newer p x z \<or> pg_newer p z y" if "pg_newer p x y" for x y z
      using that c(3) [of "r_id z" "r_id x"] c(2) [of "r_id y" "r_id x" "r_id z"] unfolding pg_newer_def
      by (metis not_less_iff_gr_or_eq order.strict_trans)
  qed
qed

lemma pg_newer_total: "pg_deps_ok p \<Longrightarrow> r_id a \<noteq> r_id b \<Longrightarrow> pg_newer p a b \<or> pg_newer p b a"
  unfolding pg_newer_def pg_deps_ok_def by (cases "r_registered_at a" "r_registered_at b" rule: linorder_cases) auto

lemma pg_listing_sorted:
  assumes "pg_inv p s" "pg_deps_ok p"
  shows "sorted_wrt (\<lambda>x y. pg_before p (key_of x) (key_of y)) (pg_listing p s)"
proof -
  let ?os = "order_by (pg_newer p) (scan_devices p (t_devices s))"
  have ms: "mset ?os = mset (t_devices s)" using assms(2) by (simp add: pg_deps_ok_def deps_ok_def scans_all_def)
  have "mset (map r_id ?os) = mset (map r_id (t_devices s))" using ms by simp
  then have d: "distinct (map r_id ?os)"
    using assms(1) mset_eq_imp_distinct_iff by (metis pg_inv_def db_inv_def)
  have "sorted_wrt (pg_newer p) ?os"
    unfolding sorted_wrt_iff_nth_less
  proof (intro allI impI)
    fix i j assume ij: "i < j" "j < length ?os"
    then have "\<not> pg_newer p (?os ! j) (?os ! i)"
      using order_by_sorted [OF weak_order_pg_newer [OF assms(2)]] by (auto simp: sorted_wrt_iff_nth_less)
    moreover have "r_id (?os ! i) \<noteq> r_id (?os ! j)"
      using d ij by (auto simp: distinct_conv_nth)
    ultimately show "pg_newer p (?os ! i) (?os ! j)"
      using pg_newer_total [OF assms(2)] by blast
  qed
  then show ?thesis
    unfolding pg_listing_def sorted_wrt_map pg_newer_iff [symmetric] .
qed

lemma pg_page:
  assumes "pg_inv p s" "pg_quiet s" "pg_deps_ok p" "0 < n"
    and Q: "\<And>r. r \<in> set (t_devices s) \<Longrightarrow> Q r \<longleftrightarrow> P (dev_of UTC r)"
  shows "fst (with_result
      (run (limited (n + 1) (select_devices (\<lambda>rows. limit_rows (n + 1) (order_by (pg_newer p) (filter Q (scan_devices p rows)))))) s)
      (Wrap ''store: list devices: %w'') (\<lambda>rows. res_bind (collect scanPGDevice rows) (cut_page n)))
    = Ok (page_of n (filter P (pg_listing p s)))"
proof -
  have sc: "set (scan_devices p (t_devices s)) = set (t_devices s)"
    using assms(3) by (simp add: pg_deps_ok_def deps_ok_def set_scans_all)
  let ?rs = "order_by (pg_newer p) (filter Q (scan_devices p (t_devices s)))"
  have inv: "db_inv (pg_stamp p) s" using assms(1) by (simp add: pg_inv_def)
  have c: "collect scanPGDevice (take (nat (n + 1)) ?rs) = Ok (map (dev_of UTC) (take (nat (n + 1)) ?rs))"
    by (rule collect_Ok) (rule scanPGDevice_Ok)
  have "map (dev_of UTC) ?rs = filter P (pg_listing p s)"
    unfolding pg_listing_def filter_map filter_order_by [OF weak_order_pg_newer [OF assms(3)], symmetric]
    using Q sc by (intro arg_cong [where f = "map _"] filter_cong) auto
  with c cut_page_take [OF assms(4), of "filter P (pg_listing p s)"] show ?thesis
    using assms(2,4) db_inv_tables [OF inv]
    by (simp add: run_quiet with_result_def select_devices_def limit_rows_def limited_nonneg take_map [symmetric] pg_quiet_def)
qed

lemma pg_listing_row:
  assumes "d \<in> set (pg_listing p s)" "pg_inv p s" "pg_deps_ok p"
  shows "\<exists>r. pg_stamp p (r_registered_at r) \<and> r_id r \<noteq> [] \<and> d = dev_of UTC r"
  using assms
  by (auto simp: pg_listing_def pg_deps_ok_def deps_ok_def set_scans_all pg_inv_def db_inv_def list_all_iff device_row_ok_def)

interpretation pg: keyset_pager "\<lambda>s. pg_inv p s \<and> pg_quiet s \<and> pg_deps_ok p"
    "\<lambda>s n c. fst (Postgres_ListDevices p n c s)" "pg_listing p" "\<lambda>k k'. pg_deps_ok p \<and> pg_before p k k'"
  for p
proof (unfold_locales, goal_cases)
  case (1 a b c)
  then have "collate_less p x y \<Longrightarrow> collate_less p y z \<Longrightarrow> collate_less p x z" for x y z
    unfolding pg_deps_ok_def by blast
  with 1 show ?case unfolding pg_before_def by (metis order.strict_trans)
next
  case (2 a)
  then show ?case by (auto simp: pg_before_def pg_deps_ok_def)
next
  case (3 s)
  then show ?case by (simp add: pg_listing_sorted)
next
  case (4 s n)
  then show ?case
    using pg_page [of p s n "\<lambda>_. True" "\<lambda>_. True"] by (simp add: Postgres_ListDevices_def Let_def)
next
  case (5 s u n d)
  then have "\<exists>r. pg_stamp p (r_registered_at r) \<and> r_id r \<noteq> [] \<and> d = dev_of UTC r"
    by (intro pg_listing_row [of d p u]) simp_all
  then obtain r where r: "pg_stamp p (r_registered_at r)" "r_id r \<noteq> []" "d = dev_of UTC r"
    by (elim exE conjE)
  have t: "year_ok (dev_RegisteredAt d)" "dev_RegisteredAt d \<noteq> zero_time" "dev_ID d \<noteq> []"
    "to_ts p (dev_RegisteredAt d) = r_registered_at r" "dev_ID d = r_id r"
    using r by (simp_all add: dev_of_def pg_stamp_def)
  have ne: "cursor_of d \<noteq> []" and dec: "decodeDeviceCursor (cursor_of d) = Ok (dev_RegisteredAt d, dev_ID d)"
    unfolding cursor_of_def using t by (rule_tac encode_cursor_nonempty, simp, rule_tac decode_encode_cursor) simp_all
  have Q: "r_registered_at x < r_registered_at r \<or> r_registered_at x = r_registered_at r \<and> collate_less p (r_id x) (r_id r) \<longleftrightarrow>
      pg_deps_ok p \<and> pg_before p (key_of d) (key_of (dev_of UTC x))" for x
    using 5(1) pg_newer_iff [of p r x] r(3) by (auto simp: pg_newer_def)
  show ?case
    using pg_page [of p s n "\<lambda>x. r_registered_at x < r_registered_at r \<or> r_registered_at x = r_registered_at r \<and> collate_less p (r_id x) (r_id r)"
        "\<lambda>x. pg_deps_ok p \<and> pg_before p (key_of d) (key_of x)"] Q 5(1,3) ne dec t(4,5)
    by (simp add: Postgres_ListDevices_def Let_def)
next
  case (6 s d)
  then have "\<exists>r. pg_stamp p (r_registered_at r) \<and> r_id r \<noteq> [] \<and> d = dev_of UTC r"
    by (intro pg_listing_row [of d p s]) simp_all
  then obtain r where r: "pg_stamp p (r_registered_at r)" "d = dev_of UTC r"
    by (elim exE conjE)
  then show ?case
    using encode_cursor_nonempty by (simp add: cursor_of_def dev_of_def pg_stamp_def)
qed

section \<open>Starting the store\<close>

fun pg_names :: "pg_ddl list \<Rightarrow> string set" where
  "pg_names [] = {}"
| "pg_names (PgCreateTable n # ds) = insert n (pg_names ds)"
| "pg_names (PgCreateIndexConcurrently n t # ds) = insert n (pg_names ds)"

text \<open>The recorded versions are an initial segment of the migrations, and their objects exist.\<close>

definition pg_schema_ok :: "postgres \<Rightarrow> bool" where
  "pg_schema_ok s \<longleftrightarrow>
     schema_versions s \<in> {[], [1], [1, 2]} \<and> (schema_versions s \<noteq> [] \<longrightarrow> has_table s ''puls_schema_version'') \<and>
     (1 \<in> set (schema_versions s) \<longrightarrow> pg_names schemaPostgresV1 \<subseteq> set (schema_objects s)) \<and>
     (2 \<in> set (schema_versions s) \<longrightarrow> pg_names schemaPostgresV2 \<subseteq> set (schema_objects s))"

definition pg_contents ::
    "postgres \<Rightarrow> time device_row list \<times> time heartbeat_row list \<times> time diagnostic_row list \<times> int \<times> int" where
  "pg_contents s = (t_devices s, t_heartbeats s, t_diagnostics s, hb_seq s, diag_seq s)"

text \<open>What every statement of a start keeps of the state the start found.\<close>

definition pg_kept :: "postgres \<Rightarrow> postgres \<Rightarrow> bool" where
  "pg_kept s0 s \<longleftrightarrow>
     pg_schema_ok s \<and> pg_contents s = pg_contents s0 \<and> set (schema_objects s0) \<subseteq> set (schema_objects s)"

lemma pg_kept_faults [simp]: "pg_kept s0 (s\<lparr>faults := fs\<rparr>) = pg_kept s0 s"
  by (simp add: pg_kept_def pg_schema_ok_def pg_contents_def)

lemma pg_kept_lock [simp]: "pg_kept s0 (s\<lparr>advisory_lock := b\<rparr>) = pg_kept s0 s"
  by (simp add: pg_kept_def pg_schema_ok_def pg_contents_def has_table_def)

lemma pg_kept_add: "pg_kept s0 s \<Longrightarrow> pg_kept s0 (pg_add_object n s)"
  by (auto simp: pg_kept_def pg_schema_ok_def pg_contents_def pg_add_object_def has_table_def)

lemma pg_add_has: "has_table (pg_add_object n s) n" "has_table s m \<Longrightarrow> has_table (pg_add_object n s) m"
  "schema_versions (pg_add_object n s) = schema_versions s" "invalid_indexes (pg_add_object n s) = invalid_indexes s"
  "advisory_lock (pg_add_object n s) = advisory_lock s" "faults (pg_add_object n s) = faults s"
  by (auto simp: pg_add_object_def has_table_def)

lemma pg_exec_ddl_facts:
  "pg_kept s0 s \<Longrightarrow> pg_kept s0 (snd (pg_exec_ddl b ds s))"
  "fst (pg_exec_ddl b ds s) = Ok () \<Longrightarrow> pg_names ds \<subseteq> set (schema_objects (snd (pg_exec_ddl b ds s)))"
  "set (schema_objects s) \<subseteq> set (schema_objects (snd (pg_exec_ddl b ds s)))"
  "schema_versions (snd (pg_exec_ddl b ds s)) = schema_versions s"
  "invalid_indexes (snd (pg_exec_ddl b ds s)) = invalid_indexes s"
  "advisory_lock (snd (pg_exec_ddl b ds s)) = advisory_lock s"
  "faults (snd (pg_exec_ddl b ds s)) = faults s"
  "fst (pg_exec_ddl b ds s) \<noteq> Panic m"
  by (induction b ds s rule: pg_exec_ddl.induct)
    (auto simp: pg_kept_add pg_add_has no_table_def, auto simp: pg_add_object_def has_table_def no_table_def split: if_splits)

lemma leave_invalid_facts:
  "pg_kept s0 s \<Longrightarrow> pg_kept s0 (leave_invalid ds s)"
  "schema_versions (leave_invalid ds s) = schema_versions s" "advisory_lock (leave_invalid ds s) = advisory_lock s"
  by (auto simp: leave_invalid_def pg_add_has pg_kept_add split: list.split pg_ddl.split)
    (auto simp: pg_kept_def pg_schema_ok_def pg_contents_def pg_add_object_def has_table_def)

lemma run_autocommit_facts:
  fixes s :: postgres
  assumes "pg_kept s0 s"
  shows "pg_kept s0 (snd (run_autocommit ds s)) \<and> schema_versions (snd (run_autocommit ds s)) = schema_versions s \<and>
    advisory_lock (snd (run_autocommit ds s)) = advisory_lock s \<and> (\<forall>m. fst (run_autocommit ds s) \<noteq> Panic m) \<and>
    (fst (run_autocommit ds s) = Ok () \<longrightarrow>
       pg_names ds \<subseteq> set (schema_objects (snd (run_autocommit ds s))) \<and>
       invalid_indexes (snd (run_autocommit ds s)) = invalid_indexes s)"
proof (cases "\<exists>m fs. faults s = Interrupted m # fs")
  case True
  with assms show ?thesis by (auto simp: run_autocommit_def leave_invalid_facts)
next
  case False
  then have r: "run_autocommit ds s = run (pg_exec_ddl False ds) s"
    by (auto simp: run_autocommit_def split: list.splits fault.splits)
  show ?thesis
    unfolding r
    by (rule run_cases [of "pg_exec_ddl False ds" s]) (auto simp: assms pg_exec_ddl_facts dest: pg_exec_ddl_facts(2) [THEN subsetD])
qed

lemma insert_version_facts:
  assumes "pg_kept s0 s" and "schema_versions s @ [v] \<in> {[1], [1, 2]}" and "has_table s ''puls_schema_version''"
    and "v = 1 \<Longrightarrow> pg_names schemaPostgresV1 \<subseteq> set (schema_objects s)"
    and "v = 2 \<Longrightarrow> pg_names schemaPostgresV2 \<subseteq> set (schema_objects s)"
  shows "insert_version v s = (Ok (), s\<lparr>schema_versions := schema_versions s @ [v]\<rparr>)"
    and "pg_kept s0 (s\<lparr>schema_versions := schema_versions s @ [v]\<rparr>)"
  using assms by (auto simp: insert_version_def pg_kept_def pg_schema_ok_def pg_contents_def has_table_def)

text \<open>What holds after one migration: it is recorded only once its objects exist.\<close>

definition pg_migrated :: "postgres \<Rightarrow> postgres \<Rightarrow> int list \<Rightarrow> unit res \<times> postgres \<Rightarrow> bool" where
  "pg_migrated s0 s vs out \<longleftrightarrow>
     pg_kept s0 (snd out) \<and> advisory_lock (snd out) = advisory_lock s \<and> (\<forall>m. fst out \<noteq> Panic m) \<and>
     (fst out = Ok () \<longrightarrow> schema_versions (snd out) = vs \<and> invalid_indexes (snd out) = invalid_indexes s)"

lemma version_recorded:
  assumes "pg_kept s0 s" "schema_versions s @ [v] \<in> {[1], [1, 2]}" "has_table s ''puls_schema_version''"
    and "v = 1 \<Longrightarrow> pg_names schemaPostgresV1 \<subseteq> set (schema_objects s)"
    and "v = 2 \<Longrightarrow> pg_names schemaPostgresV2 \<subseteq> set (schema_objects s)"
  shows "pg_migrated s0 s (schema_versions s @ [v]) (run (insert_version v) s)"
proof -
  have f: "insert_version v (s\<lparr>faults := fs\<rparr>) = (Ok (), s\<lparr>faults := fs, schema_versions := schema_versions s @ [v]\<rparr>)"
    "pg_kept s0 (s\<lparr>faults := fs, schema_versions := schema_versions s @ [v]\<rparr>)" for fs
    using insert_version_facts [of s0 "s\<lparr>faults := fs\<rparr>" v] assms by simp_all
  show ?thesis
    by (rule run_cases [of "insert_version v" s]) (simp_all add: pg_migrated_def f assms(1))
qed

lemma concurrent_migrated:
  assumes "pg_kept s0 s" "schema_versions s = [1]"
  shows "pg_migrated s0 s [1, 2] (applyConcurrentMigration 2 schemaPostgresV2 s)"
proof -
  obtain r s1 where a: "run_autocommit schemaPostgresV2 s = (r, s1)" by fastforce
  note A = run_autocommit_facts [OF assms(1), of schemaPostgresV2, unfolded a fst_conv snd_conv]
  show ?thesis
  proof (cases r)
    case (Ok x)
    with A have "has_table s1 ''puls_schema_version''" by (auto simp: pg_kept_def pg_schema_ok_def assms(2))
    then have "pg_migrated s0 s1 [1, 2] (run (insert_version 2) s1)"
      using version_recorded [of s0 s1 2] A Ok assms(2) by simp
    then show ?thesis
      using A a Ok by (auto simp: applyConcurrentMigration_def pg_migrated_def with_result_def split: res.splits)
  next
    case (Err e)
    with A a show ?thesis by (simp add: applyConcurrentMigration_def pg_migrated_def)
  next
    case (Panic m)
    with A show ?thesis by blast
  qed
qed

lemma pg_commit_cases:
  obtains fs where "pg_commit s0 s = (Ok (), s\<lparr>faults := fs\<rparr>)"
  | e fs where "pg_commit s0 s = (Err e, pg_rollback s0 (s\<lparr>faults := fs\<rparr>))"
  | e fs where "pg_commit s0 s = (Err e, s\<lparr>faults := fs\<rparr>)"
proof (cases "faults s")
  case Nil
  then have "pg_commit s0 s = (Ok (), s\<lparr>faults := []\<rparr>)" by (simp add: pg_commit_def same_faults)
  then show ?thesis by (rule that(1))
next
  case (Cons f fs)
  then show ?thesis using that by (cases f) (auto simp: pg_commit_def)
qed

lemma first_migrated:
  assumes "pg_kept s0 s" "schema_versions s = []" "has_table s ''puls_schema_version''"
  shows "pg_migrated s0 s [1] (pg_migration_step (1, schemaPostgresV1, False) s)"
proof (rule run_cases [of pg_begin s])
  fix fs assume "run pg_begin s = pg_begin (s\<lparr>faults := fs\<rparr>)"
  define s1 where "s1 = s\<lparr>faults := fs\<rparr>"
  have b: "run pg_begin s = (Ok (), s1)" using \<open>run pg_begin s = _\<close> by (simp add: pg_begin_def s1_def)
  have undo: "pg_rollback s1 u = s\<lparr>faults := faults u\<rparr>" for u by (simp add: pg_rollback_def s1_def)
  obtain r2 s2 where e: "run (pg_exec_ddl True schemaPostgresV1) s1 = (r2, s2)" by fastforce
  have E: "r2 \<noteq> Panic m" "r2 = Ok () \<Longrightarrow> pg_kept s0 s2 \<and> pg_names schemaPostgresV1 \<subseteq> set (schema_objects s2) \<and>
      schema_versions s2 = [] \<and> invalid_indexes s2 = invalid_indexes s \<and> advisory_lock s2 = advisory_lock s \<and>
      has_table s2 ''puls_schema_version''" for m
  proof -
    let ?st = "pg_exec_ddl True schemaPostgresV1"
    show "r2 \<noteq> Panic m"
      using e by (rule_tac run_cases [of ?st s1]) (auto simp: pg_exec_ddl_facts(8) dest: arg_cong [of _ _ fst])
    assume "r2 = Ok ()"
    then obtain gs where g: "?st (s1\<lparr>faults := gs\<rparr>) = (Ok (), s2)" using e by (rule_tac run_cases [of ?st s1]) auto
    from pg_exec_ddl_facts(2-6) [where b = True and ds = schemaPostgresV1 and s = "s1\<lparr>faults := gs\<rparr>", unfolded g fst_conv snd_conv]
      pg_exec_ddl_facts(1) [of s0 "s1\<lparr>faults := gs\<rparr>" True schemaPostgresV1, unfolded g fst_conv snd_conv]
    show "pg_kept s0 s2 \<and> pg_names schemaPostgresV1 \<subseteq> set (schema_objects s2) \<and>
      schema_versions s2 = [] \<and> invalid_indexes s2 = invalid_indexes s \<and> advisory_lock s2 = advisory_lock s \<and>
      has_table s2 ''puls_schema_version''"
      using assms by (auto simp: s1_def has_table_def)
  qed
  show ?thesis
  proof (cases r2)
    case (Ok x)
    note E2 = E(2) [OF Ok [simplified]]
    obtain r3 s3 where v: "run (insert_version 1) s2 = (r3, s3)" by fastforce
    have V: "pg_migrated s0 s2 [1] (r3, s3)"
      using version_recorded [of s0 s2 1] E2 v by simp
    show ?thesis
    proof (cases r3)
      case (Ok y)
      have st: "pg_migration_step (1, schemaPostgresV1, False) s =
          with_result (pg_commit s1 s3) (Wrap ''store: commit migration %d: %w'') Ok"
        using b e v Ok \<open>r2 = _\<close> by (simp add: pg_migration_step_def)
      show ?thesis
        unfolding st using V Ok E2 assms(1)
        by (rule_tac pg_commit_cases [of s1 s3]) (auto simp: pg_migrated_def with_result_def undo)
    next
      case (Err x)
      with b e v \<open>r2 = _\<close> assms(1) show ?thesis by (simp add: pg_migration_step_def pg_migrated_def undo)
    next
      case (Panic m)
      with V show ?thesis by (simp add: pg_migrated_def)
    qed
  next
    case (Err x)
    with b e assms(1) show ?thesis by (simp add: pg_migration_step_def pg_migrated_def undo)
  next
    case (Panic m)
    with E(1) show ?thesis by blast
  qed
qed (use assms(1) in \<open>auto simp: pg_migration_step_def pg_migrated_def pg_begin_def\<close>)

lemma pg_migrate_from_ok:
  assumes "pg_kept s0 s" "has_table s ''puls_schema_version''"
  shows "pg_migrated s0 s [1, 2] (pg_migrate_from (foldr max (schema_versions s) 0) pgMigrations s)"
proof -
  have second: "pg_migrated s0 u [1, 2] (pg_migrate_from c [(2, schemaPostgresV2, True)] u)"
    if "pg_kept s0 u" "schema_versions u = [1]" "c < 2" for u c
    using concurrent_migrated [OF that(1,2)] that(3)
    by (auto simp: pg_migration_step_def pg_migrated_def split: prod.splits res.splits)
  consider "schema_versions s = []" | "schema_versions s = [1]" | "schema_versions s = [1, 2]"
    using assms(1) by (auto simp: pg_kept_def pg_schema_ok_def)
  then show ?thesis
  proof cases
    case 1
    obtain r s' where st: "pg_migration_step (1, schemaPostgresV1, False) s = (r, s')" by fastforce
    note F = first_migrated [OF assms(1) 1 assms(2), unfolded st]
    show ?thesis
    proof (cases r)
      case (Ok x)
      with F have "pg_migrated s0 s' [1, 2] (pg_migrate_from 0 [(2, schemaPostgresV2, True)] s')"
        by (intro second) (auto simp: pg_migrated_def)
      with F Ok st 1 show ?thesis by (auto simp: pgMigrations_def pg_migrated_def)
    qed (use F st 1 in \<open>auto simp: pgMigrations_def pg_migrated_def\<close>)
  next
    case 2
    with second [OF assms(1) 2, of 1] show ?thesis by (simp add: pgMigrations_def)
  next
    case 3
    with assms(1) show ?thesis by (simp add: pgMigrations_def pg_migrated_def)
  qed
qed

lemma version_table_step:
  assumes "pg_kept s0 s"
  shows "pg_kept s0 (snd (run create_version_table s)) \<and> (\<forall>m. fst (run create_version_table s) \<noteq> Panic m) \<and>
    (fst (run create_version_table s) = Ok () \<longrightarrow>
       has_table (snd (run create_version_table s)) ''puls_schema_version'' \<and>
       invalid_indexes (snd (run create_version_table s)) = invalid_indexes s)"
  by (rule run_cases [of create_version_table s])
    (use assms in \<open>simp_all add: create_version_table_def pg_kept_add pg_add_has\<close>)

text \<open>The part of a start that runs under the advisory lock.\<close>

lemma locked_part:
  assumes "pg_kept s0 s2"
  shows "pg_kept s0 (snd (pg_migrate_locked s2)) \<and> (\<forall>m. fst (pg_migrate_locked s2) \<noteq> Panic m) \<and>
    (fst (pg_migrate_locked s2) = Ok () \<longrightarrow>
       schema_versions (snd (pg_migrate_locked s2)) = [1, 2] \<and> invalid_indexes (snd (pg_migrate_locked s2)) = invalid_indexes s2)"
proof -
  obtain r3 s3 where a: "run create_version_table s2 = (r3, s3)" by fastforce
  note A = version_table_step [OF assms, unfolded a fst_conv snd_conv]
  show ?thesis
  proof (cases r3)
    case (Ok x)
    show ?thesis
    proof (rule run_cases [of current_version s3])
      fix fs assume "run current_version s3 = current_version (s3\<lparr>faults := fs\<rparr>)"
      moreover have "pg_migrated s0 (s3\<lparr>faults := fs\<rparr>) [1, 2]
          (pg_migrate_from (foldr max (schema_versions s3) 0) pgMigrations (s3\<lparr>faults := fs\<rparr>))"
        using pg_migrate_from_ok [of s0 "s3\<lparr>faults := fs\<rparr>"] A Ok by simp
      ultimately show ?thesis using a Ok A by (simp add: pg_migrate_locked_def current_version_def pg_migrated_def)
    qed (use a Ok A in \<open>simp_all add: pg_migrate_locked_def current_version_def\<close>)
  next
    case (Err e)
    with a A show ?thesis by (simp add: pg_migrate_locked_def)
  next
    case (Panic m)
    with A show ?thesis by blast
  qed
qed

lemma new_postgres_started:
  assumes "pg_schema_ok s" and "\<not> advisory_lock s" and "NewPostgres s = (r, s')"
  shows "pg_schema_ok s' \<and> pg_contents s' = pg_contents s \<and> set (schema_objects s) \<subseteq> set (schema_objects s') \<and>
    (advisory_lock s' \<longrightarrow> (\<exists>e. r = Err (Wrap ''store: acquire migration lock: %w'' e))) \<and>
    (r = Ok () \<longrightarrow> schema_versions s' = [1, 2] \<and> invalid_indexes s' = invalid_indexes s)"
proof -
  have k: "pg_kept s s" using assms(1) by (simp add: pg_kept_def)
  show ?thesis
  proof (rule run_cases [of get_conn s])
    fix fs assume "run get_conn s = get_conn (s\<lparr>faults := fs\<rparr>)"
    then have g: "run get_conn s = (Ok (), s\<lparr>faults := fs\<rparr>)" by (simp add: get_conn_def)
    show ?thesis
    proof (rule run_cases [of take_lock "s\<lparr>faults := fs\<rparr>"])
      fix gs assume "run take_lock (s\<lparr>faults := fs\<rparr>) = take_lock (s\<lparr>faults := fs\<rparr>\<lparr>faults := gs\<rparr>)"
      then have l: "run take_lock (s\<lparr>faults := fs\<rparr>) = (Ok (), s\<lparr>faults := gs, advisory_lock := True\<rparr>)"
        by (simp add: take_lock_def)
      have "pg_kept s (s\<lparr>faults := gs, advisory_lock := True\<rparr>)" using k by simp
      note L = locked_part [OF this]
      have r: "r = fst (pg_migrate_locked (s\<lparr>faults := gs, advisory_lock := True\<rparr>))"
        and s': "s' = unlock (snd (pg_migrate_locked (s\<lparr>faults := gs, advisory_lock := True\<rparr>)))"
        using assms(3) g l by (simp_all add: NewPostgres_def pg_migrate_def Let_def case_prod_unfold)
      have "pg_kept s s'" using L by (simp add: s' unlock_def)
      moreover have "\<not> advisory_lock s'" by (simp add: s' unlock_def)
      moreover have "r = Ok () \<longrightarrow> schema_versions s' = [1, 2] \<and> invalid_indexes s' = invalid_indexes s"
        using L by (simp add: r s' unlock_def)
      ultimately show ?thesis by (simp add: pg_kept_def)
    next
      fix m gs assume "run take_lock (s\<lparr>faults := fs\<rparr>) = (Err (ErrText m), s\<lparr>faults := fs\<rparr>\<lparr>faults := gs\<rparr>)"
      with g assms(3) have "s' = s\<lparr>faults := gs\<rparr>" "r = Err (Wrap ''store: acquire migration lock: %w'' (ErrText m))"
        by (simp_all add: NewPostgres_def pg_migrate_def)
      with assms(1,2) show ?thesis by (simp add: pg_schema_ok_def pg_contents_def)
    next
      fix m gs assume "run take_lock (s\<lparr>faults := fs\<rparr>) = (Err (ErrText m), snd (take_lock (s\<lparr>faults := fs\<rparr>\<lparr>faults := gs\<rparr>)))"
      with g assms(3) have "s' = s\<lparr>faults := gs, advisory_lock := True\<rparr>"
          "r = Err (Wrap ''store: acquire migration lock: %w'' (ErrText m))"
        by (simp_all add: NewPostgres_def pg_migrate_def take_lock_def)
      with assms(1) show ?thesis by (simp add: pg_schema_ok_def pg_contents_def has_table_def)
    qed
  next
    fix m fs assume "run get_conn s = (Err (ErrText m), s\<lparr>faults := fs\<rparr>)"
    with assms(3) have "s' = s\<lparr>faults := fs\<rparr>" "r = Err (Wrap ''store: get migration conn: %w'' (ErrText m))"
      by (simp_all add: NewPostgres_def pg_migrate_def)
    with assms(1,2) show ?thesis by (simp add: pg_schema_ok_def pg_contents_def)
  next
    fix m fs assume "run get_conn s = (Err (ErrText m), snd (get_conn (s\<lparr>faults := fs\<rparr>)))"
    with assms(3) have "s' = s\<lparr>faults := fs\<rparr>" "r = Err (Wrap ''store: get migration conn: %w'' (ErrText m))"
      by (simp_all add: NewPostgres_def pg_migrate_def get_conn_def)
    with assms(1,2) show ?thesis by (simp add: pg_schema_ok_def pg_contents_def)
  qed
qed

section \<open>Properties\<close>


definition empty_postgres :: postgres where
  "empty_postgres =
     \<lparr> schema_objects = [], t_devices = [], t_heartbeats = [], t_diagnostics = [], hb_seq = 0, diag_seq = 0,
       faults = [], schema_versions = [], invalid_indexes = [], advisory_lock = False \<rparr>"


end
