(* ===== verification/Store.thy ===== *)
theory Store
  imports SQLite_Store Postgres_Store
begin

text \<open>
  The interface value \<^verbatim>\<open>store.Store\<close> that the server holds: one of the two stores. A call on it is
  a call on the store inside. The contract holds for it, so what the server does with it can be
  proved once.
\<close>

datatype store = SQLiteStore sqlite | PostgresStore postgres

record store_deps =
  for_sqlite :: "string deps"
  for_postgres :: pg_deps

definition on_store ::
    "(sqlite \<Rightarrow> 'a \<times> sqlite) \<Rightarrow> (postgres \<Rightarrow> 'a \<times> postgres) \<Rightarrow> store \<Rightarrow> 'a \<times> store" where
  "on_store f g st = (case st of SQLiteStore s \<Rightarrow> apsnd SQLiteStore (f s) | PostgresStore s \<Rightarrow> apsnd PostgresStore (g s))"

lemma on_store_simps [simp]:
  "on_store f g (SQLiteStore s) = apsnd SQLiteStore (f s)" "on_store f g (PostgresStore u) = apsnd PostgresStore (g u)"
  by (simp_all add: on_store_def)

definition Store_Ping :: "store \<Rightarrow> unit res \<times> store" where
  "Store_Ping = on_store SQLite_Ping Postgres_Ping"

definition Store_CreateDevice :: "store_deps \<Rightarrow> string \<Rightarrow> time \<Rightarrow> RegisterRequest \<Rightarrow> store \<Rightarrow> Device res \<times> store" where
  "Store_CreateDevice p i now req =
     on_store (SQLite_CreateDevice (for_sqlite p) i now req) (Postgres_CreateDevice (for_postgres p) i now req)"

definition Store_GetDevice :: "string \<Rightarrow> store \<Rightarrow> Device res \<times> store" where
  "Store_GetDevice i = on_store (SQLite_GetDevice i) (Postgres_GetDevice i)"

definition Store_ListDevices :: "store_deps \<Rightarrow> int \<Rightarrow> string \<Rightarrow> store \<Rightarrow> (Device list \<times> string) res \<times> store" where
  "Store_ListDevices p limit cursor =
     on_store (SQLite_ListDevices (for_sqlite p) limit cursor) (Postgres_ListDevices (for_postgres p) limit cursor)"

definition Store_SetDeviceStatus :: "string \<Rightarrow> DeviceStatus \<Rightarrow> store \<Rightarrow> unit res \<times> store" where
  "Store_SetDeviceStatus i st = on_store (SQLite_SetDeviceStatus i st) (Postgres_SetDeviceStatus i st)"

definition Store_UpdateLastSeen :: "store_deps \<Rightarrow> time \<Rightarrow> string \<Rightarrow> store \<Rightarrow> unit res \<times> store" where
  "Store_UpdateLastSeen p now i = on_store (SQLite_UpdateLastSeen now i) (Postgres_UpdateLastSeen (for_postgres p) now i)"

definition Store_InsertHeartbeat :: "store_deps \<Rightarrow> time \<Rightarrow> Heartbeat \<Rightarrow> store \<Rightarrow> unit res \<times> store" where
  "Store_InsertHeartbeat p now hb = on_store (SQLite_InsertHeartbeat now hb) (Postgres_InsertHeartbeat (for_postgres p) now hb)"

definition Store_ListHeartbeats :: "store_deps \<Rightarrow> string \<Rightarrow> int \<Rightarrow> store \<Rightarrow> Heartbeat list res \<times> store" where
  "Store_ListHeartbeats p i n =
     on_store (SQLite_ListHeartbeats (for_sqlite p) i n) (Postgres_ListHeartbeats (for_postgres p) i n)"

definition Store_CreateDiagnosticRequest ::
    "store_deps \<Rightarrow> time \<Rightarrow> string \<Rightarrow> string \<Rightarrow> DiagnosticScope \<Rightarrow> store \<Rightarrow> DiagnosticResult res \<times> store" where
  "Store_CreateDiagnosticRequest p now i r sc =
     on_store (SQLite_CreateDiagnosticRequest now i r sc) (Postgres_CreateDiagnosticRequest (for_postgres p) now i r sc)"

definition Store_DeleteDiagnosticRequest :: "string \<Rightarrow> store \<Rightarrow> unit res \<times> store" where
  "Store_DeleteDiagnosticRequest r = on_store (SQLite_DeleteDiagnosticRequest r) (Postgres_DeleteDiagnosticRequest r)"

definition Store_SaveDiagnosticResult :: "store_deps \<Rightarrow> time \<Rightarrow> string \<Rightarrow> string \<Rightarrow> store \<Rightarrow> unit res \<times> store" where
  "Store_SaveDiagnosticResult p now r q =
     on_store (SQLite_SaveDiagnosticResult now r q) (Postgres_SaveDiagnosticResult (for_postgres p) now r q)"

definition Store_ListDiagnosticResults :: "store_deps \<Rightarrow> string \<Rightarrow> int \<Rightarrow> store \<Rightarrow> DiagnosticResult list res \<times> store" where
  "Store_ListDiagnosticResults p i n =
     on_store (SQLite_ListDiagnosticResults (for_sqlite p) i n) (Postgres_ListDiagnosticResults (for_postgres p) i n)"

definition Store_GetDiagnosticResult :: "string \<Rightarrow> store \<Rightarrow> DiagnosticResult res \<times> store" where
  "Store_GetDiagnosticResult r = on_store (SQLite_GetDiagnosticResult r) (Postgres_GetDiagnosticResult r)"

lemmas store_op_defs = Store_CreateDevice_def Store_GetDevice_def Store_SetDeviceStatus_def Store_UpdateLastSeen_def
  Store_InsertHeartbeat_def Store_ListHeartbeats_def Store_CreateDiagnosticRequest_def Store_DeleteDiagnosticRequest_def
  Store_SaveDiagnosticResult_def Store_ListDiagnosticResults_def Store_GetDiagnosticResult_def

section \<open>The contract\<close>

definition store_inv :: "store_deps \<Rightarrow> store \<Rightarrow> bool" where
  "store_inv p st \<longleftrightarrow>
     (case st of SQLiteStore s \<Rightarrow> sqlite_inv s \<and> deps_ok (for_sqlite p)
      | PostgresStore s \<Rightarrow> pg_inv (for_postgres p) s \<and> pg_deps_ok (for_postgres p))"

definition store_view :: "store \<Rightarrow> store_state" where
  "store_view st = (case st of SQLiteStore s \<Rightarrow> sqlite_view s | PostgresStore s \<Rightarrow> pg_view s)"

definition store_quiet :: "store \<Rightarrow> bool" where
  "store_quiet st \<longleftrightarrow> (case st of SQLiteStore s \<Rightarrow> sqlite_quiet s | PostgresStore s \<Rightarrow> pg_quiet s)"

text \<open>What a stored timestamp keeps of an instant: whole seconds, or the resolution of TIMESTAMPTZ.\<close>

definition store_round :: "store_deps \<Rightarrow> store \<Rightarrow> time \<Rightarrow> time" where
  "store_round p st = (case st of SQLiteStore _ \<Rightarrow> trunc_secs | PostgresStore _ \<Rightarrow> to_ts (for_postgres p))"

definition store_clock_ok :: "store_deps \<Rightarrow> store \<Rightarrow> time \<Rightarrow> bool" where
  "store_clock_ok p st = (case st of SQLiteStore _ \<Rightarrow> clock_ok | PostgresStore _ \<Rightarrow> pg_clock_ok (for_postgres p))"

definition store_hash_ok :: "store_deps \<Rightarrow> store \<Rightarrow> string \<Rightarrow> bool" where
  "store_hash_ok p st secret \<longleftrightarrow>
     \<not> isl (case st of SQLiteStore _ \<Rightarrow> bcrypt (for_sqlite p) secret 12 | PostgresStore _ \<Rightarrow> bcrypt (for_postgres p) secret 12)"

lemmas store_case_defs = store_inv_def store_view_def store_quiet_def store_round_def store_clock_ok_def store_hash_ok_def

lemma all_or_nothing_inside:
  assumes "\<And>s. v (C s) = w s"
  shows "all_or_nothing v (C s) (apsnd C out) eff = all_or_nothing w s out eff"
  by (cases out) (simp add: all_or_nothing_def assms split: res.split)

lemma all_or_nothing_sqlite: "all_or_nothing store_view (SQLiteStore s) (apsnd SQLiteStore out) eff = all_or_nothing sqlite_view s out eff"
  by (rule all_or_nothing_inside) (simp add: store_view_def)

lemma all_or_nothing_postgres: "all_or_nothing store_view (PostgresStore s) (apsnd PostgresStore out) eff = all_or_nothing pg_view s out eff"
  by (rule all_or_nothing_inside) (simp add: store_view_def)

lemma store_simps [simp]:
  "store_inv p (SQLiteStore s) = (sqlite_inv s \<and> deps_ok (for_sqlite p))"
  "store_inv p (PostgresStore u) = (pg_inv (for_postgres p) u \<and> pg_deps_ok (for_postgres p))"
  "store_view (SQLiteStore s) = sqlite_view s" "store_view (PostgresStore u) = pg_view u"
  "store_quiet (SQLiteStore s) = sqlite_quiet s" "store_quiet (PostgresStore u) = pg_quiet u"
  "store_round p (SQLiteStore s) = trunc_secs" "store_round p (PostgresStore u) = to_ts (for_postgres p)"
  "store_clock_ok p (SQLiteStore s) = clock_ok" "store_clock_ok p (PostgresStore u) = pg_clock_ok (for_postgres p)"
  "store_hash_ok p (SQLiteStore s) secret = (\<not> isl (bcrypt (for_sqlite p) secret 12))"
  "store_hash_ok p (PostgresStore u) secret = (\<not> isl (bcrypt (for_postgres p) secret 12))"
  by (simp_all add: store_case_defs)

lemma apsnd_pair: "(\<exists>r. out = (r, s) \<and> P r) \<Longrightarrow> (\<exists>r. apsnd C out = (r, C s) \<and> P r)"
  by auto

lemmas store_unfold = store_simps store_op_defs on_store_simps all_or_nothing_sqlite all_or_nothing_postgres fst_apsnd snd_apsnd

interpretation st: store_contract "store_inv p" store_quiet store_view "store_round p" "store_clock_ok p" "store_hash_ok p"
    "Store_CreateDevice p" Store_GetDevice Store_SetDeviceStatus "Store_UpdateLastSeen p" "Store_InsertHeartbeat p"
    "Store_ListHeartbeats p" "Store_CreateDiagnosticRequest p" Store_DeleteDiagnosticRequest
    "Store_SaveDiagnosticResult p" "Store_ListDiagnosticResults p" Store_GetDiagnosticResult
  for p
proof (unfold_locales, goal_cases)
  case (1 s i d)
  show ?case
    by (insert 1, cases s; hypsubst; simp (no_asm_use) only: store_unfold; (((rule apsnd_pair)?; rule sq.keyed; assumption) | ((rule apsnd_pair)?; rule pg.keyed; assumption)))
next
  case (2 s r g)
  show ?case
    by (insert 2, cases s; hypsubst; simp (no_asm_use) only: store_unfold; (((rule apsnd_pair)?; rule sq.keyed_diag; assumption) | ((rule apsnd_pair)?; rule pg.keyed_diag; assumption)))
next
  case (3 s now i req)
  show ?case
    by (insert 3, cases s; hypsubst; simp (no_asm_use) only: store_unfold; (((rule apsnd_pair)?; rule sq.inv_create; assumption) | ((rule apsnd_pair)?; rule pg.inv_create; assumption)))
next
  case (4 s i)
  show ?case
    by (insert 4, cases s; hypsubst; simp (no_asm_use) only: store_unfold; (((rule apsnd_pair)?; rule sq.inv_get; assumption) | ((rule apsnd_pair)?; rule pg.inv_get; assumption)))
next
  case (5 s i st)
  show ?case
    by (insert 5, cases s; hypsubst; simp (no_asm_use) only: store_unfold; (((rule apsnd_pair)?; rule sq.inv_set_status; assumption) | ((rule apsnd_pair)?; rule pg.inv_set_status; assumption)))
next
  case (6 s now i)
  show ?case
    by (insert 6, cases s; hypsubst; simp (no_asm_use) only: store_unfold; (((rule apsnd_pair)?; rule sq.inv_update_seen; assumption) | ((rule apsnd_pair)?; rule pg.inv_update_seen; assumption)))
next
  case (7 s now hb)
  show ?case
    by (insert 7, cases s; hypsubst; simp (no_asm_use) only: store_unfold; (((rule apsnd_pair)?; rule sq.inv_insert_hb; assumption) | ((rule apsnd_pair)?; rule pg.inv_insert_hb; assumption)))
next
  case (8 s i n)
  show ?case
    by (insert 8, cases s; hypsubst; simp (no_asm_use) only: store_unfold; (((rule apsnd_pair)?; rule sq.inv_list_hb; assumption) | ((rule apsnd_pair)?; rule pg.inv_list_hb; assumption)))
next
  case (9 s now i r sc)
  show ?case
    by (insert 9, cases s; hypsubst; simp (no_asm_use) only: store_unfold; (((rule apsnd_pair)?; rule sq.inv_create_diag; assumption) | ((rule apsnd_pair)?; rule pg.inv_create_diag; assumption)))
next
  case (10 s r)
  show ?case
    by (insert 10, cases s; hypsubst; simp (no_asm_use) only: store_unfold; (((rule apsnd_pair)?; rule sq.inv_delete_diag; assumption) | ((rule apsnd_pair)?; rule pg.inv_delete_diag; assumption)))
next
  case (11 s now r q)
  show ?case
    by (insert 11, cases s; hypsubst; simp (no_asm_use) only: store_unfold; (((rule apsnd_pair)?; rule sq.inv_save_diag; assumption) | ((rule apsnd_pair)?; rule pg.inv_save_diag; assumption)))
next
  case (12 s i n)
  show ?case
    by (insert 12, cases s; hypsubst; simp (no_asm_use) only: store_unfold; (((rule apsnd_pair)?; rule sq.inv_list_diag; assumption) | ((rule apsnd_pair)?; rule pg.inv_list_diag; assumption)))
next
  case (13 s r)
  show ?case
    by (insert 13, cases s; hypsubst; simp (no_asm_use) only: store_unfold; (((rule apsnd_pair)?; rule sq.inv_get_diag; assumption) | ((rule apsnd_pair)?; rule pg.inv_get_diag; assumption)))
next
  case (14 s now i req)
  show ?case
    by (insert 14, cases s; hypsubst; simp (no_asm_use) only: store_unfold; (((rule apsnd_pair)?; rule sq.eff_create; assumption) | ((rule apsnd_pair)?; rule pg.eff_create; assumption)))
next
  case (15 s i st)
  show ?case
    by (insert 15, cases s; hypsubst; simp (no_asm_use) only: store_unfold; (((rule apsnd_pair)?; rule sq.eff_set_status; assumption) | ((rule apsnd_pair)?; rule pg.eff_set_status; assumption)))
next
  case (16 s now i)
  show ?case
    by (insert 16, cases s; hypsubst; simp (no_asm_use) only: store_unfold; (((rule apsnd_pair)?; rule sq.eff_update_seen; assumption) | ((rule apsnd_pair)?; rule pg.eff_update_seen; assumption)))
next
  case (17 s now hb)
  show ?case
    by (insert 17, cases s; hypsubst; simp (no_asm_use) only: store_unfold; (((rule apsnd_pair)?; rule sq.eff_insert_hb; assumption) | ((rule apsnd_pair)?; rule pg.eff_insert_hb; assumption)))
next
  case (18 s now i r sc)
  show ?case
    by (insert 18, cases s; hypsubst; simp (no_asm_use) only: store_unfold; (((rule apsnd_pair)?; rule sq.eff_create_diag; assumption) | ((rule apsnd_pair)?; rule pg.eff_create_diag; assumption)))
next
  case (19 s r)
  show ?case
    by (insert 19, cases s; hypsubst; simp (no_asm_use) only: store_unfold; (((rule apsnd_pair)?; rule sq.eff_delete_diag; assumption) | ((rule apsnd_pair)?; rule pg.eff_delete_diag; assumption)))
next
  case (20 s now r q)
  show ?case
    by (insert 20, cases s; hypsubst; simp (no_asm_use) only: store_unfold; (((rule apsnd_pair)?; rule sq.eff_save_diag; assumption) | ((rule apsnd_pair)?; rule pg.eff_save_diag; assumption)))
next
  case (21 s i d)
  show ?case
    by (insert 21, cases s; hypsubst; simp (no_asm_use) only: store_unfold; (((rule apsnd_pair)?; rule sq.get_Ok; assumption) | ((rule apsnd_pair)?; rule pg.get_Ok; assumption)))
next
  case (22 s i e)
  show ?case
    by (insert 22, cases s; hypsubst; simp (no_asm_use) only: store_unfold; (((rule apsnd_pair)?; rule sq.get_Err; assumption) | ((rule apsnd_pair)?; rule pg.get_Err; assumption)))
next
  case (23 s r g)
  show ?case
    by (insert 23, cases s; hypsubst; simp (no_asm_use) only: store_unfold; (((rule apsnd_pair)?; rule sq.get_diag_Ok; assumption) | ((rule apsnd_pair)?; rule pg.get_diag_Ok; assumption)))
next
  case (24 s r e)
  show ?case
    by (insert 24, cases s; hypsubst; simp (no_asm_use) only: store_unfold; (((rule apsnd_pair)?; rule sq.get_diag_Err; assumption) | ((rule apsnd_pair)?; rule pg.get_diag_Err; assumption)))
next
  case (25 s i st e)
  show ?case
    by (insert 25, cases s; hypsubst; simp (no_asm_use) only: store_unfold; (((rule apsnd_pair)?; rule sq.set_status_Err; assumption) | ((rule apsnd_pair)?; rule pg.set_status_Err; assumption)))
next
  case (26 s now r q e)
  show ?case
    by (insert 26, cases s; hypsubst; simp (no_asm_use) only: store_unfold; (((rule apsnd_pair)?; rule sq.save_diag_Err; assumption) | ((rule apsnd_pair)?; rule pg.save_diag_Err; assumption)))
next
  case (27 s i n hbs)
  show ?case
    by (insert 27, cases s; hypsubst; simp (no_asm_use) only: store_unfold; (((rule apsnd_pair)?; rule sq.list_hb_Ok; assumption) | ((rule apsnd_pair)?; rule pg.list_hb_Ok; assumption)))
next
  case (28 s n i gs)
  show ?case
    by (insert 28, cases s; hypsubst; simp (no_asm_use) only: store_unfold; (((rule apsnd_pair)?; rule sq.list_diag_Ok; assumption) | ((rule apsnd_pair)?; rule pg.list_diag_Ok; assumption)))
next
  case (29 s i)
  show ?case
    by (insert 29, cases s; hypsubst; simp (no_asm_use) only: store_unfold; (((rule apsnd_pair)?; rule sq.quiet_get; assumption) | ((rule apsnd_pair)?; rule pg.quiet_get; assumption)))
next
  case (30 s r)
  show ?case
    by (insert 30, cases s; hypsubst; simp (no_asm_use) only: store_unfold; (((rule apsnd_pair)?; rule sq.quiet_get_diag; assumption) | ((rule apsnd_pair)?; rule pg.quiet_get_diag; assumption)))
next
  case (31 s now req i)
  show ?case
    by (insert 31, cases s; hypsubst; simp (no_asm_use) only: store_unfold; (((rule apsnd_pair)?; rule sq.quiet_create; assumption) | ((rule apsnd_pair)?; rule pg.quiet_create; assumption)))
next
  case (32 s i st)
  show ?case
    by (insert 32, cases s; hypsubst; simp (no_asm_use) only: store_unfold; (((rule apsnd_pair)?; rule sq.quiet_set_status; assumption) | ((rule apsnd_pair)?; rule pg.quiet_set_status; assumption)))
next
  case (33 s now i)
  show ?case
    by (insert 33, cases s; hypsubst; simp (no_asm_use) only: store_unfold; (((rule apsnd_pair)?; rule sq.quiet_update_seen; assumption) | ((rule apsnd_pair)?; rule pg.quiet_update_seen; assumption)))
next
  case (34 s now hb)
  show ?case
    by (insert 34, cases s; hypsubst; simp (no_asm_use) only: store_unfold; (((rule apsnd_pair)?; rule sq.quiet_insert_hb; assumption) | ((rule apsnd_pair)?; rule pg.quiet_insert_hb; assumption)))
next
  case (35 s n i)
  show ?case
    by (insert 35, cases s; hypsubst; simp (no_asm_use) only: store_unfold; (((rule apsnd_pair)?; rule sq.quiet_list_hb; assumption) | ((rule apsnd_pair)?; rule pg.quiet_list_hb; assumption)))
next
  case (36 s now i r sc)
  show ?case
    by (insert 36, cases s; hypsubst; simp (no_asm_use) only: store_unfold; (((rule apsnd_pair)?; rule sq.quiet_create_diag; assumption) | ((rule apsnd_pair)?; rule pg.quiet_create_diag; assumption)))
next
  case (37 s r)
  show ?case
    by (insert 37, cases s; hypsubst; simp (no_asm_use) only: store_unfold; (((rule apsnd_pair)?; rule sq.quiet_delete_diag; assumption) | ((rule apsnd_pair)?; rule pg.quiet_delete_diag; assumption)))
next
  case (38 s now r q)
  show ?case
    by (insert 38, cases s; hypsubst; simp (no_asm_use) only: store_unfold; (((rule apsnd_pair)?; rule sq.quiet_save_diag; assumption) | ((rule apsnd_pair)?; rule pg.quiet_save_diag; assumption)))
next
  case (39 s n i)
  show ?case
    by (insert 39, cases s; hypsubst; simp (no_asm_use) only: store_unfold; (((rule apsnd_pair)?; rule sq.quiet_list_diag; assumption) | ((rule apsnd_pair)?; rule pg.quiet_list_diag; assumption)))
next
  case (40 s i now req st hb r sc q n)
  show ?case
    by (insert 40, cases s; hypsubst; simp (no_asm_use) only: store_unfold; (((rule apsnd_pair)?; rule sq.quiet_keeps; assumption) | ((rule apsnd_pair)?; rule pg.quiet_keeps; assumption)))
qed

section \<open>Properties\<close>

text \<open>Concrete packages and a started store with two devices registered in the same second, for the witnesses.\<close>

definition demo_hash :: "string \<Rightarrow> int \<Rightarrow> goerr + string" where
  "demo_hash secret cost = (if length secret > 72 then Inl (ErrText ''password too long'') else Inr (rev secret))"

definition demo_deps :: store_deps where
  "demo_deps =
     \<lparr> for_sqlite = \<lparr> bcrypt = demo_hash, scan_devices = rev, scan_heartbeats = id, scan_diagnostics = id \<rparr>,
       for_postgres = \<lparr> bcrypt = demo_hash, scan_devices = id, scan_heartbeats = rev, scan_diagnostics = id,
                        to_ts = (\<lambda>t. t - t mod 1000), collate_less = (<) \<rparr> \<rparr>"

definition demo_row :: "string \<Rightarrow> string device_row" where
  "demo_row i =
     \<lparr> r_id = i, r_name = ''laptop'', r_os = ''linux'', r_arch = ''amd64'', r_secret_hash = ''h'', r_status = ''unknown'',
       r_registered_at = ''2024-05-01T12:00:00Z'', r_last_seen_at = None \<rparr>"

definition demo_sqlite :: sqlite where
  "demo_sqlite = (snd (NewSQLite empty_sqlite))\<lparr>t_devices := [demo_row ''a'', demo_row ''b'']\<rparr>"

lemma scans_all_demo: "scans_all id" "scans_all rev"
  by (simp_all add: scans_all_def)

lemma demo_deps_ok: "deps_ok (for_sqlite demo_deps)" "pg_deps_ok (for_postgres demo_deps)"
proof -
  show "deps_ok (for_sqlite demo_deps)" by (simp add: demo_deps_def deps_ok_def scans_all_demo)
  have "(t - t mod 1000) - (t - t mod 1000) mod 1000 = t - t mod 1000" for t :: int
    by (simp add: minus_mod_eq_mult_div)
  then show "pg_deps_ok (for_postgres demo_deps)"
    by (auto simp: demo_deps_def pg_deps_ok_def deps_ok_def scans_all_demo)
qed

lemma demo_sqlite_inv: "sqlite_inv demo_sqlite" "sqlite_quiet demo_sqlite"
  by code_simp+

lemma demo_clock: "clock_ok 1714564800000000000" "clock_ok 1714564860000000000"
  by code_simp+

lemma demo_store: "store_inv demo_deps (SQLiteStore demo_sqlite)" "store_quiet (SQLiteStore demo_sqlite)"
  by (simp_all add: demo_sqlite_inv demo_deps_ok)

subsection \<open>Pages\<close>

lemma ran_map_of_key: "distinct (map k rs) \<Longrightarrow> ran (map_of (map (\<lambda>r. (k r, v r)) rs)) = v ` set rs"
  by (subst ran_distinct) (simp_all add: comp_def image_image)

lemma length_ordered: "scans_all f \<Longrightarrow> length (order_by lt (f xs)) = length xs"
  by (metis mset_order_by mset_eq_length scans_all_def)

lemma sqlite_listing_ran:
  "sqlite_inv s \<Longrightarrow> deps_ok p \<Longrightarrow> set (sqlite_listing p s) = ran (st_devices (sqlite_view s))"
  by (simp add: sqlite_listing_def sqlite_view_def db_view_def sqlite_inv_def db_inv_def ran_map_of_key deps_ok_def set_scans_all)

lemma pg_listing_ran:
  "pg_inv p s \<Longrightarrow> pg_deps_ok p \<Longrightarrow> set (pg_listing p s) = ran (st_devices (pg_view s))"
  by (simp add: pg_listing_def pg_view_def db_view_def pg_inv_def db_inv_def ran_map_of_key pg_deps_ok_def deps_ok_def set_scans_all)

text \<open>C1: A client that follows the cursors of the SQLite store's device list, whatever other
  requests change between its calls, gets devices in strictly descending order of
  registration time and id, so none twice, gets only devices the store held, and, once a page
  comes without a cursor, has got every device that was there throughout.\<close>

theorem sqlite_pages_complete:
  assumes "deps_ok p" and "\<forall>s \<in> set ss. sqlite_inv s \<and> sqlite_quiet s" and "0 < n"
  shows "\<exists>ds e. walk (\<lambda>s n c. fst (SQLite_ListDevices p n c s)) n ss [] = Ok (ds, e) \<and>
    sorted_wrt (\<lambda>x y. key_of y < key_of x) ds \<and>
    (\<forall>d \<in> set ds. \<exists>s \<in> set ss. d \<in> ran (st_devices (sqlite_view s))) \<and>
    (ss \<noteq> [] \<and> e = [] \<longrightarrow>
       (\<forall>k. (\<forall>s \<in> set ss. k \<in> key_of ` ran (st_devices (sqlite_view s))) \<longrightarrow> k \<in> key_of ` set ds))"
proof -
  have ok: "\<forall>s \<in> set ss. sqlite_inv s \<and> sqlite_quiet s \<and> deps_ok p" using assms by simp
  have at: "sq.at_pos p [] None" by (simp add: sq.at_pos_def)
  have r: "set (sqlite_listing p s) = ran (st_devices (sqlite_view s))" if "s \<in> set ss" for s
    using assms that by (intro sqlite_listing_ran) auto
  from sq.walk_from [OF ok assms(3) at] show ?thesis by (simp add: r sq.past_def cong: ball_cong bex_cong)
qed

theorem sqlite_pages_complete_witness:
  "\<exists>ds e. walk (\<lambda>s n c. fst (SQLite_ListDevices (for_sqlite demo_deps) n c s)) 1 [demo_sqlite, demo_sqlite] [] = Ok (ds, e) \<and>
    sorted_wrt (\<lambda>x y. key_of y < key_of x) ds \<and>
    (e = [] \<longrightarrow> (\<forall>k. k \<in> key_of ` ran (st_devices (sqlite_view demo_sqlite)) \<longrightarrow> k \<in> key_of ` set ds))"
  using sqlite_pages_complete [of "for_sqlite demo_deps" "[demo_sqlite, demo_sqlite]" 1] demo_sqlite_inv demo_deps_ok
  by auto

text \<open>C11: Paging through a SQLite store that does not change returns every device exactly once
  in the order of the list and then stops, after as many calls as the page size requires.\<close>

theorem sqlite_pages_terminate:
  assumes "deps_ok p" and "sqlite_inv s" and "sqlite_quiet s" and "0 < n" and "int (length (t_devices s)) \<le> int (Suc m) * n"
  shows "walk (\<lambda>s n c. fst (SQLite_ListDevices p n c s)) n (replicate (Suc m) s) [] = Ok (sqlite_listing p s, [])"
proof -
  have at: "sq.at_pos p [] None" by (simp add: sq.at_pos_def)
  have "length (sqlite_listing p s) = length (t_devices s)"
    using assms(1) by (simp add: sqlite_listing_def length_ordered deps_ok_def)
  then have "int (length (filter (\<lambda>x. sq.past None (key_of x)) (sqlite_listing p s))) \<le> int (Suc m) * n"
    using assms(5) by (simp add: sq.past_def)
  from sq.walk_static [OF _ assms(4) at this] assms(1-3) show ?thesis by (simp add: sq.past_def)
qed

theorem sqlite_pages_terminate_witness:
  "walk (\<lambda>s n c. fst (SQLite_ListDevices (for_sqlite demo_deps) n c s)) 1 [demo_sqlite, demo_sqlite] [] =
     Ok (sqlite_listing (for_sqlite demo_deps) demo_sqlite, []) \<and>
   map dev_ID (sqlite_listing (for_sqlite demo_deps) demo_sqlite) = [''b'', ''a'']"
proof -
  have "int (length (t_devices demo_sqlite)) \<le> int (Suc 1) * 1" by (simp add: demo_sqlite_def)
  from sqlite_pages_terminate [OF demo_deps_ok(1) demo_sqlite_inv _ this] show ?thesis
    by (simp add: numeral_2_eq_2) code_simp
qed

text \<open>C10: The same for the Postgres store, in the order of its own collation.\<close>

theorem postgres_pages_complete:
  assumes "pg_deps_ok p" and "\<forall>s \<in> set ss. pg_inv p s \<and> pg_quiet s" and "0 < n"
  shows "\<exists>ds e. walk (\<lambda>s n c. fst (Postgres_ListDevices p n c s)) n ss [] = Ok (ds, e) \<and>
    sorted_wrt (\<lambda>x y. pg_before p (key_of x) (key_of y)) ds \<and>
    (\<forall>d \<in> set ds. \<exists>s \<in> set ss. d \<in> ran (st_devices (pg_view s))) \<and>
    (ss \<noteq> [] \<and> e = [] \<longrightarrow>
       (\<forall>k. (\<forall>s \<in> set ss. k \<in> key_of ` ran (st_devices (pg_view s))) \<longrightarrow> k \<in> key_of ` set ds))"
proof -
  have ok: "\<forall>s \<in> set ss. pg_inv p s \<and> pg_quiet s \<and> pg_deps_ok p" using assms by simp
  have at: "pg.at_pos p [] None" by (simp add: pg.at_pos_def)
  have r: "set (pg_listing p s) = ran (st_devices (pg_view s))" if "s \<in> set ss" for s
    using assms that by (intro pg_listing_ran) auto
  from pg.walk_from [OF ok assms(3) at, unfolded pg.past_def] assms(1) show ?thesis
    by (simp add: r cong: ball_cong bex_cong)
qed

definition demo_postgres :: postgres where
  "demo_postgres = (snd (NewPostgres empty_postgres))\<lparr>t_devices :=
     [\<lparr> r_id = ''a'', r_name = ''laptop'', r_os = ''linux'', r_arch = ''amd64'', r_secret_hash = ''h'', r_status = ''unknown'',
        r_registered_at = 1714564800000000000, r_last_seen_at = None \<rparr>]\<rparr>"

lemma demo_postgres_inv: "pg_inv (for_postgres demo_deps) demo_postgres" "pg_quiet demo_postgres"
  by code_simp+

theorem postgres_pages_complete_witness:
  "\<exists>ds e. walk (\<lambda>s n c. fst (Postgres_ListDevices (for_postgres demo_deps) n c s)) 5 [demo_postgres] [] = Ok (ds, e) \<and>
    (\<forall>d \<in> set ds. d \<in> ran (st_devices (pg_view demo_postgres)))"
  using postgres_pages_complete [of "for_postgres demo_deps" "[demo_postgres]" 5] demo_postgres_inv demo_deps_ok
  by auto



subsection \<open>Updates and reads\<close>

text \<open>C2: Every operation that changes the store has its whole effect or none, on every fault of
  the driver, and has had it when it reports no error; the effects are those of the abstract
  store. Neither store panics.\<close>

theorem store_all_or_nothing:
  assumes "store_inv p s" and "store_clock_ok p s now" and "i \<noteq> []"
  shows "all_or_nothing store_view s (Store_CreateDevice p i now req s)
      (\<lambda>d a. d = new_device i now req \<and> st_devices (store_view s) i = None \<and>
         a = add_device (new_device i (store_round p s now) req) (store_view s)) \<and>
    all_or_nothing store_view s (Store_SetDeviceStatus i st s)
      (\<lambda>_ a. st_devices (store_view s) i \<noteq> None \<and> a = change_device i (\<lambda>d. d\<lparr>dev_Status := st\<rparr>) (store_view s)) \<and>
    all_or_nothing store_view s (Store_UpdateLastSeen p now i s)
      (\<lambda>_ a. a = change_device i (seen_at (store_round p s now)) (store_view s)) \<and>
    all_or_nothing store_view s (Store_InsertHeartbeat p now hb s)
      (\<lambda>_ a. st_devices (store_view s) (hb_DeviceID hb) \<noteq> None \<and>
         (\<exists>n. n \<notin> hb_ID ` set (st_heartbeats (store_view s)) \<and>
           a = add_heartbeat (hb\<lparr>hb_ID := n, hb_ReceivedAt := store_round p s now\<rparr>) (store_view s))) \<and>
    all_or_nothing store_view s (Store_CreateDiagnosticRequest p now i r sc s)
      (\<lambda>g a. g = new_diagnostic 0 now i r sc \<and> st_devices (store_view s) i \<noteq> None \<and>
         st_diagnostics (store_view s) r = None \<and>
         (\<exists>n. a = add_diagnostic (new_diagnostic n (store_round p s now) i r sc) (store_view s))) \<and>
    all_or_nothing store_view s (Store_DeleteDiagnosticRequest r s) (\<lambda>_ a. a = drop_diagnostic r (store_view s)) \<and>
    all_or_nothing store_view s (Store_SaveDiagnosticResult p now r q s)
      (\<lambda>_ a. st_diagnostics (store_view s) r \<noteq> None \<and>
         a = change_diagnostic r (answered (store_round p s now) q) (store_view s))"
  using st.eff_create [OF assms, of req] st.eff_set_status [OF assms(1), of i st]
    st.eff_update_seen [OF assms(1,2), of i] st.eff_insert_hb [OF assms(1,2), of hb]
    st.eff_create_diag [OF assms(1,2), of i r sc] st.eff_delete_diag [OF assms(1), of r]
    st.eff_save_diag [OF assms(1,2), of r q]
  by (intro conjI)

text \<open>The insert is executed but the driver reports an error: the error case in which the effect is there.\<close>

theorem store_all_or_nothing_witness:
  "all_or_nothing store_view (SQLiteStore (demo_sqlite\<lparr>faults := [Unacked ''connection reset'']\<rparr>))
     (Store_SetDeviceStatus ''a'' ''online'' (SQLiteStore (demo_sqlite\<lparr>faults := [Unacked ''connection reset'']\<rparr>)))
     (\<lambda>_ a. st_devices (sqlite_view demo_sqlite) ''a'' \<noteq> None \<and>
        a = change_device ''a'' (\<lambda>d. d\<lparr>dev_Status := ''online''\<rparr>) (sqlite_view demo_sqlite))"
proof -
  let ?s = "SQLiteStore (demo_sqlite\<lparr>faults := [Unacked ''connection reset'']\<rparr>)"
  have inv: "store_inv demo_deps ?s"
    using demo_sqlite_inv(1) by (simp add: sqlite_inv_def demo_deps_ok)
  have clock: "store_clock_ok demo_deps ?s 1714564800000000000" by (simp add: demo_clock)
  have v: "store_view ?s = sqlite_view demo_sqlite" by (simp add: sqlite_view_def)
  show ?thesis
    using store_all_or_nothing [OF inv clock, of "''a''" _ "''online''"] unfolding v by blast
qed



text \<open>A device that was registered can be read back with the status unknown and its time of
  registration rounded as the store rounds it, and reading any other device is unaffected.\<close>

theorem store_create_then_get:
  assumes "store_inv p s" "store_quiet s" "store_clock_ok p s now" "i \<noteq> []"
    and "Store_CreateDevice p i now req s = (Ok d, s')"
  shows "fst (Store_GetDevice k s') =
    (if k = i then Ok (new_device i (store_round p s now) req) else fst (Store_GetDevice k s))"
  using st.create_then_get [OF assms] .

definition demo_req :: RegisterRequest where
  "demo_req = \<lparr> req_Name = ''desk'', req_OS = ''windows'', req_Arch = ''amd64'', req_Secret = ''s3cret'' \<rparr>"

theorem store_create_then_get_witness:
  "\<exists>d s'. Store_CreateDevice demo_deps ''c'' 1714564860000000000 demo_req (SQLiteStore demo_sqlite) = (Ok d, s') \<and>
     fst (Store_GetDevice ''c'' s') = Ok (new_device ''c'' 1714564860000000000 demo_req)"
proof -
  let ?s = "SQLiteStore demo_sqlite"
  have clock: "store_clock_ok demo_deps ?s 1714564860000000000" by (simp add: demo_clock)
  have "is_ok (fst (Store_CreateDevice demo_deps ''c'' 1714564860000000000 demo_req ?s))"
    by (simp add: Store_CreateDevice_def) code_simp
  then obtain d s' where c: "Store_CreateDevice demo_deps ''c'' 1714564860000000000 demo_req ?s = (Ok d, s')"
    by (auto simp: is_ok_iff prod_eq_iff)
  have "trunc_secs 1714564860000000000 = 1714564860000000000" by code_simp
  with store_create_then_get [OF demo_store clock _ c, of "''c''"] c show ?thesis by simp
qed

text \<open>A diagnostic request is pending, without a payload, until a result for it is saved, and
  then has exactly that payload and the time it was received.\<close>

theorem store_request_then_answer:
  assumes "store_inv p s" "store_quiet s" "store_clock_ok p s t0" "store_clock_ok p s1 t1" "q \<noteq> []"
    and "Store_CreateDiagnosticRequest p t0 i r sc s = (Ok g, s1)" and "Store_SaveDiagnosticResult p t1 r q s1 = (Ok u, s2)"
  shows "\<exists>n. fst (Store_GetDiagnosticResult r s1) = Ok (new_diagnostic n (store_round p s t0) i r sc) \<and>
    fst (Store_GetDiagnosticResult r s2) =
      Ok ((new_diagnostic n (store_round p s t0) i r sc)\<lparr>diag_ReceivedAt := Some (store_round p s1 t1), diag_Payload := Some q\<rparr>)"
  using st.request_then_answer [OF assms] .

theorem store_request_then_answer_witness:
  "\<exists>g s1 s2 n. Store_CreateDiagnosticRequest demo_deps 1714564800000000000 ''a'' ''r1'' ''full'' (SQLiteStore demo_sqlite) = (Ok g, s1) \<and>
     Store_SaveDiagnosticResult demo_deps 1714564860000000000 ''r1'' ''{}'' s1 = (Ok (), s2) \<and>
     map_option diag_Payload (case fst (Store_GetDiagnosticResult ''r1'' s2) of Ok d \<Rightarrow> Some d | _ \<Rightarrow> None) = Some (Some ''{}'')"
proof -
  let ?t0 = "1714564800000000000 :: int" and ?t1 = "1714564860000000000 :: int"
  let ?c = "SQLite_CreateDiagnosticRequest ?t0 ''a'' ''r1'' ''full'' demo_sqlite"
  have c: "is_ok (fst ?c)" and v: "fst (SQLite_SaveDiagnosticResult ?t1 ''r1'' ''{}'' (snd ?c)) = Ok ()"
    by code_simp+
  then obtain g where g: "Store_CreateDiagnosticRequest demo_deps ?t0 ''a'' ''r1'' ''full'' (SQLiteStore demo_sqlite) =
      (Ok g, SQLiteStore (snd ?c))"
    by (auto simp: is_ok_iff Store_CreateDiagnosticRequest_def prod_eq_iff)
  obtain s2 where s2: "Store_SaveDiagnosticResult demo_deps ?t1 ''r1'' ''{}'' (SQLiteStore (snd ?c)) = (Ok (), s2)"
    using v by (simp add: Store_SaveDiagnosticResult_def prod_eq_iff)
  have clock: "store_clock_ok demo_deps (SQLiteStore demo_sqlite) ?t0" "store_clock_ok demo_deps (SQLiteStore (snd ?c)) ?t1"
    by (simp_all add: demo_clock)
  from store_request_then_answer [OF demo_store clock _ g s2] g s2 show ?thesis by auto
qed

end
