(* ===== verification/Connections.thy ===== *)
theory Connections
  imports Hub Store
begin

text \<open>
  The life of a WebSocket connection (\<^verbatim>\<open>NewClient\<close> and \<^verbatim>\<open>Client.Run\<close> of \<^verbatim>\<open>internal/ws/client.go\<close>,
  called by \<^verbatim>\<open>handleWebSocket\<close>) as a state machine, for any number of connections that interleave:
  each connection's goroutine is at one of the phases below, and every locked region and every
  store call is one step. Handlers of messages and of HTTP requests appear as the store calls they
  make, in any order, so every run of the server is a run of this relation.
\<close>

section \<open>Connections\<close>

datatype phase =
    Added                       \<comment> \<open>after \<^verbatim>\<open>wg.Add(1)\<close>, before \<^verbatim>\<open>Register\<close>\<close>
  | Replacing "Client option"   \<comment> \<open>registered; the prior connection is to be closed\<close>
  | MarkingOnline               \<comment> \<open>before the store call that marks the device online\<close>
  | Running                     \<comment> \<open>in the read loop\<close>
  | Leaving                     \<comment> \<open>a read failed; before \<^verbatim>\<open>Unregister\<close>\<close>
  | MarkingOffline              \<comment> \<open>unregistered; before the store call that marks the device offline\<close>
  | Finishing                   \<comment> \<open>before \<^verbatim>\<open>wg.Done()\<close>\<close>

text \<open>A connection whose goroutine has ended is no longer listed.\<close>

record world =
  hub :: Hub
  db :: store
  conns :: "(nat, Client \<times> phase) gomap"
  closed :: "nat list"

definition at_phase :: "world \<Rightarrow> Client \<Rightarrow> phase \<Rightarrow> bool" where
  "at_phase w c ph \<longleftrightarrow> map_of (conns w) (client_addr c) = Some (c, ph)"

definition move :: "Client \<Rightarrow> phase \<Rightarrow> world \<Rightarrow> world" where
  "move c ph w = w \<lparr> conns := AList.update (client_addr c) (c, ph) (conns w) \<rparr>"

definition start_world :: "store \<Rightarrow> world" where
  "start_world s = \<lparr> hub = NewHub, db = s, conns = [], closed = [] \<rparr>"

text \<open>
  \<open>guard w c\<close> restricts when a client may register; the code has no such restriction, and the
  relation with the guard that is always true is the server.
\<close>

inductive ws_step :: "store_deps \<Rightarrow> (world \<Rightarrow> Client \<Rightarrow> bool) \<Rightarrow> world \<Rightarrow> world \<Rightarrow> bool"
  for p guard where
  connect: "map_of (conns w) (client_addr c) = None \<Longrightarrow>
    ws_step p guard w (move c Added (w \<lparr> hub := wg_Add (hub w) \<rparr>))"
| register: "at_phase w c Added \<Longrightarrow> guard w c \<Longrightarrow> Register c (hub w) = (old, h) \<Longrightarrow>
    ws_step p guard w (move c (Replacing old) (w \<lparr> hub := h \<rparr>))"
| replaced: "at_phase w c (Replacing old) \<Longrightarrow>
    ws_step p guard w (move c MarkingOnline (w \<lparr> closed := map client_addr (case old of None \<Rightarrow> [] | Some o' \<Rightarrow> [o']) @ closed w \<rparr>))"
| online: "at_phase w c MarkingOnline \<Longrightarrow> Store_SetDeviceStatus (DeviceID c) StatusOnline (db w) = (r, s) \<Longrightarrow>
    ws_step p guard w (move c Running (w \<lparr> db := s \<rparr>))"
| heartbeat: "at_phase w c Running \<Longrightarrow> store_clock_ok p (db w) now \<Longrightarrow> hb_DeviceID hb = DeviceID c \<Longrightarrow>
    ws_step p guard w (w \<lparr> db := snd (Store_InsertHeartbeat p now hb (db w)) \<rparr>)"
| seen: "at_phase w c Running \<Longrightarrow> store_clock_ok p (db w) now \<Longrightarrow>
    ws_step p guard w (w \<lparr> db := snd (Store_UpdateLastSeen p now (DeviceID c) (db w)) \<rparr>)"
| answer: "at_phase w c Running \<Longrightarrow> store_clock_ok p (db w) now \<Longrightarrow>
    ws_step p guard w (w \<lparr> db := snd (Store_SaveDiagnosticResult p now q payload (db w)) \<rparr>)"
| read_end: "at_phase w c Running \<Longrightarrow> ws_step p guard w (move c Leaving w)"
| unregister: "at_phase w c Leaving \<Longrightarrow> Unregister c (hub w) = (mine, h) \<Longrightarrow>
    ws_step p guard w (move c (if mine then MarkingOffline else Finishing) (w \<lparr> hub := h \<rparr>))"
| offline: "at_phase w c MarkingOffline \<Longrightarrow> Store_SetDeviceStatus (DeviceID c) StatusOffline (db w) = (r, s) \<Longrightarrow>
    ws_step p guard w (move c Finishing (w \<lparr> db := s \<rparr>))"
| finish: "at_phase w c Finishing \<Longrightarrow> wg_Done (hub w) = Ok h \<Longrightarrow>
    ws_step p guard w (w \<lparr> hub := h, conns := AList.delete (client_addr c) (conns w) \<rparr>)"
| close_all: "ws_step p guard w (w \<lparr> closed := map client_addr (CloseAll (hub w)) @ closed w \<rparr>)"
| create_device: "store_clock_ok p (db w) now \<Longrightarrow> i \<noteq> [] \<Longrightarrow>
    ws_step p guard w (w \<lparr> db := snd (Store_CreateDevice p i now req (db w)) \<rparr>)"
| create_request: "store_clock_ok p (db w) now \<Longrightarrow>
    ws_step p guard w (w \<lparr> db := snd (Store_CreateDiagnosticRequest p now i q sc (db w)) \<rparr>)"
| delete_request: "ws_step p guard w (w \<lparr> db := snd (Store_DeleteDiagnosticRequest q (db w)) \<rparr>)"

definition no_guard :: "world \<Rightarrow> Client \<Rightarrow> bool" where
  "no_guard w c \<longleftrightarrow> True"

inductive ws_reach :: "store_deps \<Rightarrow> (world \<Rightarrow> Client \<Rightarrow> bool) \<Rightarrow> store \<Rightarrow> world \<Rightarrow> bool" for p guard s where
  start: "ws_reach p guard s (start_world s)"
| step: "ws_reach p guard s w \<Longrightarrow> ws_step p guard w w' \<Longrightarrow> ws_reach p guard s w'"

inductive_cases ws_stepE: "ws_step p guard w w'"

section \<open>The invariant of the registry\<close>

fun registered_phase :: "phase \<Rightarrow> bool" where
  "registered_phase (Replacing _) = True"
| "registered_phase MarkingOnline = True"
| "registered_phase Running = True"
| "registered_phase Leaving = True"
| "registered_phase _ = False"

definition ws_inv :: "world \<Rightarrow> bool" where
  "ws_inv w \<longleftrightarrow> hub_inv (hub w) \<and> gomap_ok (conns w) \<and> wg (hub w) = length (conns w) \<and>
     (\<forall>a c ph. map_of (conns w) a = Some (c, ph) \<longrightarrow> client_addr c = a) \<and>
     (\<forall>d c. map_of (clients (hub w)) d = Some c \<longrightarrow> (\<exists>ph. registered_phase ph \<and> at_phase w c ph))"

lemma length_update: "length (AList.update k v m) = (if map_of m k = None then Suc (length m) else length m)"
  by (induction m) auto

lemma length_delete: "gomap_ok m \<Longrightarrow> length (AList.delete k m) = (if map_of m k = None then length m else length m - 1)"
proof (induction m)
  case (Cons x m)
  obtain k' v where x: "x = (k', v)" by (cases x)
  have ok: "gomap_ok m" and fresh: "map_of m k' = None"
    using Cons.prems x by (auto simp: gomap_ok_def map_of_eq_None_iff)
  from Cons.IH [OF ok] fresh x show ?case
    by (cases m) (auto simp: AList.delete_eq)
qed simp

lemma delete_update_same [simp]: "AList.delete k (AList.update k v m) = AList.delete k m"
  by (induction m) auto

lemma move_simps [simp]:
  "hub (move c ph w) = hub w" "db (move c ph w) = db w" "closed (move c ph w) = closed w"
  "map_of (conns (move c ph w)) = (map_of (conns w))(client_addr c \<mapsto> (c, ph))"
  by (simp_all add: move_def)

lemma at_phase_move: "at_phase (move c ph w) c' ph' \<longleftrightarrow>
    (if client_addr c' = client_addr c then c' = c \<and> ph' = ph else at_phase w c' ph')"
  by (auto simp: at_phase_def)

lemma at_phase_hub [simp]: "at_phase (w \<lparr> hub := h \<rparr>) = at_phase w" "at_phase (w \<lparr> db := s \<rparr>) = at_phase w"
  "at_phase (w \<lparr> closed := xs \<rparr>) = at_phase w"
  by (simp_all add: at_phase_def fun_eq_iff)

lemma ws_inv_move:
  assumes inv: "ws_inv w" and cur: "at_phase w c ph" and h: "hub_inv h" "wg h = wg (hub w)"
    and reg: "\<And>d c'. map_of (clients h) d = Some c' \<Longrightarrow>
       (if client_addr c' = client_addr c then c' = c \<and> registered_phase ph' else map_of (clients (hub w)) d = Some c')"
  shows "ws_inv (move c ph' (w \<lparr> hub := h, db := s, closed := xs \<rparr>))"
proof -
  have len: "length (conns (move c ph' w)) = length (conns w)" and ok: "gomap_ok (conns (move c ph' w))"
    using inv cur by (auto simp: ws_inv_def move_def length_update at_phase_def)
  have "\<exists>ph. registered_phase ph \<and> at_phase (move c ph' w) c' ph" if "map_of (clients h) d = Some c'" for d c'
    using reg [OF that] inv by (cases "client_addr c' = client_addr c") (auto simp: ws_inv_def at_phase_move)
  with len ok inv h show ?thesis
    by (auto simp: ws_inv_def move_def at_phase_def split: if_splits)
qed

lemma ws_inv_db: "ws_inv w \<Longrightarrow> ws_inv (w \<lparr> db := s \<rparr>)" and ws_inv_closed: "ws_inv w \<Longrightarrow> ws_inv (w \<lparr> closed := xs \<rparr>)"
  by (simp_all add: ws_inv_def)

lemma ws_inv_entry:
  assumes "ws_inv w" and "map_of (clients (hub w)) d = Some c"
  shows "\<exists>ph. registered_phase ph \<and> map_of (conns w) (client_addr c) = Some (c, ph) \<and> DeviceID c = d"
  using assms unfolding ws_inv_def at_phase_def hub_inv_def by blast

text \<open>The entry of a client that is at some phase.\<close>

lemma ws_inv_same:
  assumes "ws_inv w" and "at_phase w c ph" and "map_of (clients (hub w)) d = Some c'" and "client_addr c' = client_addr c"
  shows "c' = c \<and> d = DeviceID c \<and> registered_phase ph"
proof -
  from ws_inv_entry [OF assms(1,3)] obtain ph' where
    "registered_phase ph'" "map_of (conns w) (client_addr c') = Some (c', ph')" "DeviceID c' = d" by blast
  with assms(2,4) show ?thesis by (metis at_phase_def option.inject prod.inject)
qed

lemma ws_inv_stay:
  assumes "ws_inv w" and "at_phase w c ph" and "registered_phase ph \<longrightarrow> registered_phase ph'"
  shows "ws_inv (move c ph' (w \<lparr> db := s, closed := xs \<rparr>))"
proof -
  note same = ws_inv_same [OF assms(1,2)]
  have "ws_inv (move c ph' (w \<lparr> hub := hub w, db := s, closed := xs \<rparr>))"
    using assms(1,3) by (intro ws_inv_move [OF assms(1,2)]) (auto simp: ws_inv_def dest: same)
  then show ?thesis by simp
qed

lemma ws_inv_step:
  assumes "ws_step p guard w w'" and inv: "ws_inv w"
  shows "ws_inv w'"
  using assms(1)
proof cases
  case (connect c)
  have "\<exists>ph. registered_phase ph \<and> at_phase (move c Added w) c' ph" if "map_of (clients (hub w)) d = Some c'" for d c'
    using ws_inv_entry [OF inv that] connect(2) by (cases "client_addr c' = client_addr c") (auto simp: at_phase_def)
  with inv connect show ?thesis
    by (auto simp: ws_inv_def move_def at_phase_def length_update wg_Add_def hub_inv_def split: if_splits)
next
  case (register c old h)
  have h: "h = snd (Register c (hub w))" using register by simp
  have "ws_inv (move c (Replacing old) (w \<lparr> hub := h, db := db w, closed := closed w \<rparr>))"
    using inv register(2) unfolding h
    by (intro ws_inv_move)
      (auto dest: ws_inv_same [OF inv register(2)] intro: hub_inv_Register simp: ws_inv_def split: if_splits)
  with register show ?thesis by simp
next
  case (replaced c old)
  then show ?thesis using ws_inv_stay [OF inv, where c = c and ph = "Replacing old" and ph' = MarkingOnline and s = "db w"] by simp
next
  case (online c r s)
  then show ?thesis using ws_inv_stay [OF inv, where c = c and ph = MarkingOnline and ph' = Running and s = s and xs = "closed w"] by simp
next
  case (read_end c)
  then show ?thesis using ws_inv_stay [OF inv, where c = c and ph = Running and ph' = Leaving and s = "db w" and xs = "closed w"] by simp
next
  case (unregister c mine h)
  have h: "h = snd (Unregister c (hub w))" "mine = fst (Unregister c (hub w))" using unregister by simp_all
  have same: "c' = c \<and> d = DeviceID c" if "map_of (clients (hub w)) d = Some c'" "client_addr c' = client_addr c" for d c'
    using ws_inv_same [OF inv unregister(2) that] by blast
  have "ws_inv (move c (if mine then MarkingOffline else Finishing) (w \<lparr> hub := h, db := db w, closed := closed w \<rparr>))"
  proof (intro ws_inv_move [OF inv unregister(2)])
    show "hub_inv h" using inv unfolding h by (auto simp: ws_inv_def intro: hub_inv_Unregister)
    show "wg h = wg (hub w)" by (simp add: h)
    fix d c'
    assume "map_of (clients h) d = Some c'"
    then have "map_of (clients (hub w)) d = Some c'" and out: "\<not> (d = DeviceID c \<and> mine)"
      by (auto simp: h map_of_Unregister split: if_splits)
    then have "client_addr c' \<noteq> client_addr c"
      using same by (auto simp: h fst_Unregister same_client_def)
    then show "if client_addr c' = client_addr c then c' = c \<and> registered_phase (if mine then MarkingOffline else Finishing)
        else map_of (clients (hub w)) d = Some c'"
      using \<open>map_of (clients (hub w)) d = Some c'\<close> by simp
  qed
  with unregister show ?thesis by simp
next
  case (offline c r s)
  then show ?thesis using ws_inv_stay [OF inv, where c = c and ph = MarkingOffline and ph' = Finishing and s = s and xs = "closed w"] by simp
next
  case (finish c h)
  have h: "h = hub w \<lparr> wg := wg (hub w) - 1 \<rparr>" using finish by (auto simp: wg_Done_def split: if_splits)
  have "\<exists>ph. registered_phase ph \<and> at_phase (w \<lparr> conns := AList.delete (client_addr c) (conns w) \<rparr>) c' ph"
    if "map_of (clients (hub w)) d = Some c'" for d c'
    using ws_inv_entry [OF inv that] ws_inv_same [OF inv finish(2) that]
    by (cases "client_addr c' = client_addr c") (auto simp: at_phase_def)
  with inv finish show ?thesis
    by (auto simp: ws_inv_def h at_phase_def length_delete hub_inv_def split: if_splits)
qed (simp_all add: inv ws_inv_db ws_inv_closed)

lemma ws_inv_start: "ws_inv (start_world s)"
  by (simp add: ws_inv_def start_world_def NewHub_def hub_inv_def)

interpretation ws: step_system "start_world s" "ws_step p guard" "ws_reach p guard s" for s p guard
proof
  show "P w" if "ws_reach p guard s w" "P (start_world s)" "\<And>t t'. ws_reach p guard s t \<Longrightarrow> P t \<Longrightarrow> ws_step p guard t t' \<Longrightarrow> P t'" for P w
    using that by (induction rule: ws_reach.induct) blast+
qed (rule ws_reach.start, rule ws_reach.step)

lemma ws_inv_reach: "ws_reach p guard s w \<Longrightarrow> ws_inv w"
  by (erule ws.invariant) (rule ws_inv_start, rule ws_inv_step)

section \<open>Every connection can finish\<close>

abbreviation "ws_steps p \<equiv> (ws_step p no_guard)\<^sup>*\<^sup>*"

lemma ws_inv_steps: "ws_steps p w w' \<Longrightarrow> ws_inv w \<Longrightarrow> ws_inv w'"
  by (induction rule: rtranclp_induct) (auto intro: ws_inv_step)

text \<open>The next step of a connection, and where it leads.\<close>

lemma next_step:
  assumes "ws_inv w" and "at_phase w c ph"
  shows "\<exists>w'. ws_step p no_guard w w' \<and> AList.delete (client_addr c) (conns w') = AList.delete (client_addr c) (conns w) \<and>
    (case ph of
       Added \<Rightarrow> \<exists>old. at_phase w' c (Replacing old) | Replacing _ \<Rightarrow> at_phase w' c MarkingOnline
     | MarkingOnline \<Rightarrow> at_phase w' c Running | Running \<Rightarrow> at_phase w' c Leaving
     | Leaving \<Rightarrow> at_phase w' c MarkingOffline \<or> at_phase w' c Finishing | MarkingOffline \<Rightarrow> at_phase w' c Finishing
     | Finishing \<Rightarrow> conns w' = AList.delete (client_addr c) (conns w))"
proof (cases ph)
  case Added
  obtain old h where reg: "Register c (hub w) = (old, h)" by (cases "Register c (hub w)")
  show ?thesis
    by (rule exI, rule conjI, rule ws_step.register [OF _ _ reg])
      (use assms Added in \<open>auto simp: no_guard_def move_def at_phase_def\<close>)
next
  case (Replacing old)
  show ?thesis
    by (rule exI, rule conjI, rule ws_step.replaced [of w c old])
      (use assms Replacing in \<open>auto simp: move_def at_phase_def\<close>)
next
  case MarkingOnline
  obtain r s where st: "Store_SetDeviceStatus (DeviceID c) StatusOnline (db w) = (r, s)"
    by (cases "Store_SetDeviceStatus (DeviceID c) StatusOnline (db w)")
  show ?thesis
    by (rule exI, rule conjI, rule ws_step.online [OF _ st])
      (use assms MarkingOnline in \<open>auto simp: move_def at_phase_def\<close>)
next
  case Running
  show ?thesis
    by (rule exI, rule conjI, rule ws_step.read_end [of w c]) (use assms Running in \<open>auto simp: move_def at_phase_def\<close>)
next
  case Leaving
  obtain mine h where un: "Unregister c (hub w) = (mine, h)" by (cases "Unregister c (hub w)")
  show ?thesis
    by (rule exI, rule conjI, rule ws_step.unregister [OF _ un]) (use assms Leaving in \<open>auto simp: move_def at_phase_def\<close>)
next
  case MarkingOffline
  obtain r s where st: "Store_SetDeviceStatus (DeviceID c) StatusOffline (db w) = (r, s)"
    by (cases "Store_SetDeviceStatus (DeviceID c) StatusOffline (db w)")
  show ?thesis
    by (rule exI, rule conjI, rule ws_step.offline [OF _ st])
      (use assms MarkingOffline in \<open>auto simp: move_def at_phase_def\<close>)
next
  case Finishing
  have "conns w \<noteq> []" using assms(2) by (auto simp: at_phase_def)
  then have d: "wg_Done (hub w) = Ok (hub w \<lparr> wg := wg (hub w) - 1 \<rparr>)"
    using assms(1) by (simp add: wg_Done_def ws_inv_def)
  show ?thesis
    by (rule exI, rule conjI, rule ws_step.finish [OF _ d]) (use assms Finishing in \<open>auto simp: AList.delete_idem\<close>)
qed

lemma drain_step:
  assumes "ws_inv w" and "at_phase w c ph"
    and "\<And>w' ph'. ws_inv w' \<Longrightarrow> at_phase w' c ph' \<Longrightarrow> rank ph' < rank ph \<Longrightarrow>
      \<exists>w''. ws_steps p w' w'' \<and> conns w'' = AList.delete (client_addr c) (conns w')"
    and "rank = (\<lambda>ph. case ph of Added \<Rightarrow> 6 | Replacing _ \<Rightarrow> 5 | MarkingOnline \<Rightarrow> 4 | Running \<Rightarrow> 3 | Leaving \<Rightarrow> 2
       | MarkingOffline \<Rightarrow> 1 | Finishing \<Rightarrow> (0 :: nat))"
  shows "\<exists>w'. ws_steps p w w' \<and> conns w' = AList.delete (client_addr c) (conns w)"
proof -
  from next_step [OF assms(1,2)] obtain w1 where w1: "ws_step p no_guard w w1"
    "AList.delete (client_addr c) (conns w1) = AList.delete (client_addr c) (conns w)"
    "(\<exists>ph'. at_phase w1 c ph' \<and> rank ph' < rank ph) \<or> conns w1 = AList.delete (client_addr c) (conns w)"
    unfolding assms(4) by (cases ph) (auto, force+)
  have "ws_inv w1" using ws_inv_step [OF w1(1) assms(1)] .
  from w1(3) show ?thesis
  proof
    assume "\<exists>ph'. at_phase w1 c ph' \<and> rank ph' < rank ph"
    with assms(3) [OF \<open>ws_inv w1\<close>] obtain w2 where "ws_steps p w1 w2" "conns w2 = AList.delete (client_addr c) (conns w1)"
      by blast
    with w1 show ?thesis by (metis converse_rtranclp_into_rtranclp)
  next
    assume "conns w1 = AList.delete (client_addr c) (conns w)"
    with w1(1) show ?thesis by blast
  qed
qed

lemma drain_one:
  assumes "ws_inv w" and "at_phase w c ph"
  shows "\<exists>w'. ws_steps p w w' \<and> conns w' = AList.delete (client_addr c) (conns w)"
proof -
  define rank where "rank = (\<lambda>ph. case ph of Added \<Rightarrow> 6 | Replacing _ \<Rightarrow> 5 | MarkingOnline \<Rightarrow> 4 | Running \<Rightarrow> 3 | Leaving \<Rightarrow> 2
       | MarkingOffline \<Rightarrow> 1 | Finishing \<Rightarrow> (0 :: nat))"
  show ?thesis
    using assms
  proof (induction "rank ph" arbitrary: w ph rule: less_induct)
    case less
    show ?case by (rule drain_step [OF less.prems less.hyps rank_def]) (auto simp: rank_def)
  qed
qed

lemma drain_all: "ws_inv w \<Longrightarrow> \<exists>w'. ws_steps p w w' \<and> conns w' = []"
proof (induction "length (conns w)" arbitrary: w rule: less_induct)
  case less
  show ?case
  proof (cases "conns w")
    case (Cons x m)
    obtain a c ph where x: "x = (a, c, ph)" by (cases x)
    have at: "at_phase w c ph"
      using less.prems Cons x by (auto simp: ws_inv_def at_phase_def split: if_splits)
    from drain_one [OF less.prems at] obtain w1 where w1: "ws_steps p w w1"
      "conns w1 = AList.delete (client_addr c) (conns w)" by blast
    have inv: "ws_inv w1" using ws_inv_steps [OF w1(1) less.prems] .
    have "length (conns w1) < length (conns w)"
      using less.prems at Cons unfolding w1(2) by (subst length_delete) (auto simp: ws_inv_def at_phase_def)
    from less.hyps [OF this inv] w1(1) show ?thesis by (meson rtranclp_trans)
  qed auto
qed

section \<open>The status of a device\<close>

definition status_of :: "store \<Rightarrow> string \<Rightarrow> DeviceStatus option" where
  "status_of s d = map_option dev_Status (st_devices (store_view s) d)"

lemma status_set:
  assumes "store_inv p s" and "store_quiet s"
  shows "status_of (snd (Store_SetDeviceStatus i st s)) d = (if d = i \<and> status_of s i \<noteq> None then Some st else status_of s d)"
  using st.eff_set_status [OF assms(1), of i st] st.quiet_set_status [OF assms, of i st]
  by (auto simp: all_or_nothing_def status_of_def change_device_def split: res.splits if_splits)

lemma status_seen:
  assumes "store_inv p s" and "store_quiet s" and "store_clock_ok p s now"
  shows "status_of (snd (Store_UpdateLastSeen p now i s)) d = (if d = i \<and> status_of s i \<noteq> None then Some StatusOnline else status_of s d)"
  using st.eff_update_seen [OF assms(1,3), of i] st.quiet_update_seen [OF assms(1,2), of now i]
  by (auto simp: all_or_nothing_def status_of_def change_device_def seen_at_def)

lemma status_heartbeat:
  assumes "store_inv p s" and "store_clock_ok p s now"
  shows "status_of (snd (Store_InsertHeartbeat p now hb s)) d = status_of s d"
  using st.eff_insert_hb [OF assms, of hb]
  by (cases "fst (Store_InsertHeartbeat p now hb s)") (auto simp: all_or_nothing_def status_of_def add_heartbeat_def)

lemma status_answer:
  assumes "store_inv p s" and "store_clock_ok p s now"
  shows "status_of (snd (Store_SaveDiagnosticResult p now q payload s)) d = status_of s d"
  using st.eff_save_diag [OF assms, of q payload]
  by (cases "fst (Store_SaveDiagnosticResult p now q payload s)") (auto simp: all_or_nothing_def status_of_def change_diagnostic_def)

lemma status_request:
  assumes "store_inv p s" and "store_clock_ok p s now"
  shows "status_of (snd (Store_CreateDiagnosticRequest p now i q sc s)) d = status_of s d"
  using st.eff_create_diag [OF assms, of i q sc]
  by (cases "fst (Store_CreateDiagnosticRequest p now i q sc s)") (auto simp: all_or_nothing_def status_of_def add_diagnostic_def)

lemma status_delete:
  assumes "store_inv p s"
  shows "status_of (snd (Store_DeleteDiagnosticRequest q s)) d = status_of s d"
  using st.eff_delete_diag [OF assms, of q]
  by (auto simp: all_or_nothing_def status_of_def drop_diagnostic_def split: res.splits)

lemma status_create:
  assumes "store_inv p s" and "store_clock_ok p s now" and "i \<noteq> []" and "status_of s d \<noteq> None"
  shows "status_of (snd (Store_CreateDevice p i now req s)) d = status_of s d"
  using st.eff_create [OF assms(1-3), of req] assms(4)
  by (auto simp: all_or_nothing_def status_of_def add_device_def new_device_def split: res.splits)

lemma quiet_ops:
  assumes "store_quiet s"
  shows "store_quiet (snd (Store_CreateDevice p i now req s))" "store_quiet (snd (Store_SetDeviceStatus i x s))"
    "store_quiet (snd (Store_UpdateLastSeen p now i s))" "store_quiet (snd (Store_InsertHeartbeat p now hb s))"
    "store_quiet (snd (Store_CreateDiagnosticRequest p now i q sc s))" "store_quiet (snd (Store_DeleteDiagnosticRequest q s))"
    "store_quiet (snd (Store_SaveDiagnosticResult p now q payload s))"
  using st.quiet_keeps [OF assms] by blast+

lemma db_step:
  assumes "ws_step p guard w w'" and "store_inv p (db w)" and "store_quiet (db w)"
  shows "store_inv p (db w') \<and> store_quiet (db w')"
  using assms(1)
proof cases
  case (online c r s)
  then have "s = snd (Store_SetDeviceStatus (DeviceID c) StatusOnline (db w))" by simp
  with online(1) quiet_ops(2) [OF assms(3)] st.inv_set_status [OF assms(2)] show ?thesis by simp
next
  case (offline c r s)
  then have "s = snd (Store_SetDeviceStatus (DeviceID c) StatusOffline (db w))" by simp
  with offline(1) quiet_ops(2) [OF assms(3)] st.inv_set_status [OF assms(2)] show ?thesis by simp
qed (use assms(2,3) in \<open>simp_all add: quiet_ops st.inv_insert_hb st.inv_update_seen st.inv_save_diag st.inv_create
  st.inv_create_diag st.inv_delete_diag\<close>)

text \<open>No offline mark for the same device is outstanding when a client registers.\<close>

definition no_pending_offline :: "world \<Rightarrow> Client \<Rightarrow> bool" where
  "no_pending_offline w c \<longleftrightarrow> (\<forall>(a, c', ph) \<in> set (conns w). ph = MarkingOffline \<longrightarrow> DeviceID c' \<noteq> DeviceID c)"

definition online_inv :: "store_deps \<Rightarrow> string \<Rightarrow> world \<Rightarrow> bool" where
  "online_inv p d w \<longleftrightarrow> store_inv p (db w) \<and> store_quiet (db w) \<and> status_of (db w) d \<noteq> None \<and>
     (\<forall>c. map_of (clients (hub w)) d = Some c \<and> (at_phase w c Running \<or> at_phase w c Leaving) \<longrightarrow>
        status_of (db w) d = Some StatusOnline) \<and>
     (\<forall>c. at_phase w c MarkingOffline \<and> DeviceID c = d \<longrightarrow> map_of (clients (hub w)) d = None)"

lemma no_pending_offlineD:
  "no_pending_offline w c \<Longrightarrow> at_phase w c' MarkingOffline \<Longrightarrow> DeviceID c' \<noteq> DeviceID c"
  unfolding no_pending_offline_def at_phase_def by (auto dest: map_of_SomeD)

lemma hub_device: "ws_inv w \<Longrightarrow> map_of (clients (hub w)) d = Some c \<Longrightarrow> DeviceID c = d"
  by (auto simp: ws_inv_def hub_inv_def)

lemma online_inv_db:
  "online_inv p d w \<Longrightarrow> store_inv p s \<Longrightarrow> store_quiet s \<Longrightarrow>
     status_of s d = status_of (db w) d \<or> status_of s d = Some StatusOnline \<Longrightarrow> online_inv p d (w \<lparr> db := s \<rparr>)"
  unfolding online_inv_def by auto

lemma online_inv_step:
  assumes step: "ws_step p no_pending_offline w w'" and inv: "ws_inv w" and on: "online_inv p d w"
  shows "online_inv p d w'"
proof -
  have db: "store_inv p (db w)" "store_quiet (db w)" and row: "status_of (db w) d \<noteq> None"
    and conn: "\<And>c. map_of (clients (hub w)) d = Some c \<Longrightarrow> at_phase w c Running \<or> at_phase w c Leaving \<Longrightarrow>
      status_of (db w) d = Some StatusOnline"
    and off: "\<And>c. at_phase w c MarkingOffline \<Longrightarrow> DeviceID c = d \<Longrightarrow> map_of (clients (hub w)) d = None"
    using on by (auto simp: online_inv_def)
  have db': "store_inv p (db w')" "store_quiet (db w')" using db_step [OF step db] by auto
  from step show ?thesis
  proof cases
    case (connect c)
    with db' row conn off show ?thesis
      by (auto simp: online_inv_def at_phase_move wg_Add_def split: if_splits)
  next
    case (register c old h)
    have h: "h = snd (Register c (hub w))" using register by simp
    show ?thesis
      using register(1) db' row conn off no_pending_offlineD [OF register(3)]
      by (auto simp: online_inv_def at_phase_move h split: if_splits)
  next
    case (replaced c old)
    with db' row conn off show ?thesis by (auto simp: online_inv_def at_phase_move split: if_splits)
  next
    case (online c r s)
    then have s: "s = snd (Store_SetDeviceStatus (DeviceID c) StatusOnline (db w))" by simp
    show ?thesis
      using online(1) db' row conn off hub_device [OF inv]
      by (auto simp: online_inv_def at_phase_move s status_set [OF db] split: if_splits)
  next
    case (heartbeat c now hb)
    with db' on status_heartbeat [OF db(1)] show ?thesis by (simp add: online_inv_db)
  next
    case (seen c now)
    with db' on status_seen [OF db] show ?thesis by (simp add: online_inv_db)
  next
    case (answer c now q payload)
    with db' on status_answer [OF db(1)] show ?thesis by (simp add: online_inv_db)
  next
    case (read_end c)
    with db' row conn off show ?thesis by (auto simp: online_inv_def at_phase_move split: if_splits)
  next
    case (unregister c mine h)
    have h: "h = snd (Unregister c (hub w))" "mine = fst (Unregister c (hub w))" using unregister by simp_all
    show ?thesis
      using unregister(1) db' row conn off
      by (auto simp: online_inv_def at_phase_move h map_of_Unregister split: if_splits)
  next
    case (offline c r s)
    then have s: "s = snd (Store_SetDeviceStatus (DeviceID c) StatusOffline (db w))" by simp
    show ?thesis
      using offline(1) db' row conn off [OF offline(2)] off
      by (auto simp: online_inv_def at_phase_move s status_set [OF db] split: if_splits)
  next
    case (finish c h)
    have h: "h = hub w \<lparr> wg := wg (hub w) - 1 \<rparr>" using finish by (auto simp: wg_Done_def split: if_splits)
    have "at_phase w c' ph" if "at_phase w' c' ph" for c' ph
      using that finish(1) by (auto simp: at_phase_def split: if_splits)
    then show ?thesis
      using finish(1) db' row conn off unfolding online_inv_def by (auto simp: h)
  next
    case close_all
    with db' row conn off show ?thesis by (auto simp: online_inv_def)
  next
    case (create_device now i req)
    with db' on row status_create [OF db(1)] show ?thesis by (simp add: online_inv_db)
  next
    case (create_request now i q sc)
    with db' on status_request [OF db(1)] show ?thesis by (simp add: online_inv_db)
  next
    case (delete_request q)
    with db' on status_delete [OF db(1)] show ?thesis by (simp add: online_inv_db)
  qed
qed

section \<open>Two orders that leave a wrong status\<close>

lemma reach_step: "ws_reach p guard s w \<Longrightarrow> ws_step p guard w w' \<Longrightarrow> w' = v \<Longrightarrow> ws_reach p guard s v"
  by (auto intro: ws_reach.step)

text \<open>A world with two connections of one device, as the runs below go through.\<close>

definition pair_world :: "Hub \<Rightarrow> store \<Rightarrow> (nat \<times> Client \<times> phase) list \<Rightarrow> nat list \<Rightarrow> world" where
  "pair_world h s cs xs = \<lparr> hub = h, db = s, conns = cs, closed = xs \<rparr>"

definition client :: "nat \<Rightarrow> string \<Rightarrow> Client" where
  "client n d = \<lparr> client_addr = n, DeviceID = d, heartbeatTimeout = 90 * second \<rparr>"

lemma client_simps [simp]: "client_addr (client n d) = n" "DeviceID (client n d) = d"
  by (simp_all add: client_def)

definition set_to :: "string \<Rightarrow> DeviceStatus \<Rightarrow> store \<Rightarrow> store" where
  "set_to d x s = snd (Store_SetDeviceStatus d x s)"

lemmas run_defs = pair_world_def start_world_def at_phase_def move_def NewHub_def wg_Add_def no_guard_def
  Register_def Unregister_def same_client_def wg_Done_def set_to_def

text \<open>Where one connection is after it has registered, marked the device online and stopped reading.\<close>

lemma connection_run:
  assumes guard: "guard (pair_world \<lparr> clients = [], wg = 1 \<rparr> s [(1, client 1 d, Added)] []) (client 1 d)"
  shows "ws_reach p guard s (pair_world \<lparr> clients = [(d, client 1 d)], wg = 1 \<rparr> s [(1, client 1 d, MarkingOnline)] [])"
    and "ws_reach p guard s (pair_world \<lparr> clients = [(d, client 1 d)], wg = 1 \<rparr> (set_to d StatusOnline s) [(1, client 1 d, Running)] [])"
    and "ws_reach p guard s (pair_world \<lparr> clients = [], wg = 1 \<rparr> (set_to d StatusOnline s) [(1, client 1 d, MarkingOffline)] [])"
proof -
  let ?c = "client 1 d"
  have "ws_reach p guard s (pair_world \<lparr> clients = [], wg = 1 \<rparr> s [(1, ?c, Added)] [])"
    by (rule reach_step [OF ws_reach.start ws_step.connect [of _ ?c]]) (simp_all add: run_defs)
  then have "ws_reach p guard s (pair_world \<lparr> clients = [(d, ?c)], wg = 1 \<rparr> s [(1, ?c, Replacing None)] [])"
    by (rule reach_step [OF _ ws_step.register [of _ ?c _ None]]) (use guard in \<open>simp_all add: run_defs\<close>)
  then show on: "ws_reach p guard s (pair_world \<lparr> clients = [(d, ?c)], wg = 1 \<rparr> s [(1, ?c, MarkingOnline)] [])"
    by (rule reach_step [OF _ ws_step.replaced [of _ ?c None]]) (simp_all add: run_defs)
  show "ws_reach p guard s (pair_world \<lparr> clients = [(d, ?c)], wg = 1 \<rparr> (set_to d StatusOnline s) [(1, ?c, Running)] [])"
    by (rule reach_step [OF on ws_step.online [OF _ surjective_pairing, of _ ?c]]) (simp_all add: run_defs)
  then have "ws_reach p guard s (pair_world \<lparr> clients = [(d, ?c)], wg = 1 \<rparr> (set_to d StatusOnline s) [(1, ?c, Leaving)] [])"
    by (rule reach_step [OF _ ws_step.read_end [of _ ?c]]) (simp_all add: run_defs)
  then show "ws_reach p guard s (pair_world \<lparr> clients = [], wg = 1 \<rparr> (set_to d StatusOnline s) [(1, ?c, MarkingOffline)] [])"
    by (rule reach_step [OF _ ws_step.unregister [of _ ?c True]]) (simp_all add: run_defs)
qed

lemmas one_connection = connection_run [where guard = no_guard, unfolded no_guard_def [abs_def], OF TrueI, folded no_guard_def [abs_def]]

text \<open>The first connection's offline mark comes after the second connection's online mark.\<close>

lemma late_offline:
  "ws_reach p no_guard s (pair_world \<lparr> clients = [(d, client 2 d)], wg = 1 \<rparr>
     (set_to d StatusOffline (set_to d StatusOnline (set_to d StatusOnline s))) [(2, client 2 d, Running)] [])"
proof -
  let ?a = "client 1 d" and ?b = "client 2 d"
  let ?s = "set_to d StatusOnline s"
  have "ws_reach p no_guard s (pair_world \<lparr> clients = [], wg = 2 \<rparr> ?s [(1, ?a, MarkingOffline), (2, ?b, Added)] [])"
    by (rule reach_step [OF one_connection(3) ws_step.connect [of _ ?b]]) (simp_all add: run_defs)
  then have "ws_reach p no_guard s (pair_world \<lparr> clients = [(d, ?b)], wg = 2 \<rparr> ?s [(1, ?a, MarkingOffline), (2, ?b, Replacing None)] [])"
    by (rule reach_step [OF _ ws_step.register [of _ ?b _ None]]) (simp_all add: run_defs)
  then have "ws_reach p no_guard s (pair_world \<lparr> clients = [(d, ?b)], wg = 2 \<rparr> ?s [(1, ?a, MarkingOffline), (2, ?b, MarkingOnline)] [])"
    by (rule reach_step [OF _ ws_step.replaced [of _ ?b None]]) (simp_all add: run_defs)
  then have "ws_reach p no_guard s (pair_world \<lparr> clients = [(d, ?b)], wg = 2 \<rparr> (set_to d StatusOnline ?s)
      [(1, ?a, MarkingOffline), (2, ?b, Running)] [])"
    by (rule reach_step [OF _ ws_step.online [OF _ surjective_pairing, of _ ?b]]) (simp_all add: run_defs)
  then have "ws_reach p no_guard s (pair_world \<lparr> clients = [(d, ?b)], wg = 2 \<rparr> (set_to d StatusOffline (set_to d StatusOnline ?s))
      [(1, ?a, Finishing), (2, ?b, Running)] [])"
    by (rule reach_step [OF _ ws_step.offline [OF _ surjective_pairing, of _ ?a]]) (simp_all add: run_defs)
  then show ?thesis
    by (rule reach_step [OF _ ws_step.finish [of _ ?a "\<lparr> clients = [(d, ?b)], wg = 1 \<rparr>"]]) (simp_all add: run_defs)
qed

text \<open>The first connection's online mark comes after the second connection has come and gone.\<close>

lemma late_online:
  "ws_reach p no_guard s (pair_world \<lparr> clients = [], wg = 0 \<rparr>
     (set_to d StatusOnline (set_to d StatusOffline (set_to d StatusOnline s))) [] [1])"
proof -
  let ?a = "client 1 d" and ?b = "client 2 d"
  let ?s = "set_to d StatusOffline (set_to d StatusOnline s)"
  have "ws_reach p no_guard s (pair_world \<lparr> clients = [(d, ?a)], wg = 2 \<rparr> s [(1, ?a, MarkingOnline), (2, ?b, Added)] [])"
    by (rule reach_step [OF one_connection(1) ws_step.connect [of _ ?b]]) (simp_all add: run_defs)
  then have "ws_reach p no_guard s (pair_world \<lparr> clients = [(d, ?b)], wg = 2 \<rparr> s [(1, ?a, MarkingOnline), (2, ?b, Replacing (Some ?a))] [])"
    by (rule reach_step [OF _ ws_step.register [of _ ?b _ "Some ?a"]]) (simp_all add: run_defs)
  then have "ws_reach p no_guard s (pair_world \<lparr> clients = [(d, ?b)], wg = 2 \<rparr> s [(1, ?a, MarkingOnline), (2, ?b, MarkingOnline)] [1])"
    by (rule reach_step [OF _ ws_step.replaced [of _ ?b "Some ?a"]]) (simp_all add: run_defs)
  then have "ws_reach p no_guard s (pair_world \<lparr> clients = [(d, ?b)], wg = 2 \<rparr> (set_to d StatusOnline s)
      [(1, ?a, MarkingOnline), (2, ?b, Running)] [1])"
    by (rule reach_step [OF _ ws_step.online [OF _ surjective_pairing, of _ ?b]]) (simp_all add: run_defs)
  then have "ws_reach p no_guard s (pair_world \<lparr> clients = [(d, ?b)], wg = 2 \<rparr> (set_to d StatusOnline s)
      [(1, ?a, MarkingOnline), (2, ?b, Leaving)] [1])"
    by (rule reach_step [OF _ ws_step.read_end [of _ ?b]]) (simp_all add: run_defs)
  then have "ws_reach p no_guard s (pair_world \<lparr> clients = [], wg = 2 \<rparr> (set_to d StatusOnline s)
      [(1, ?a, MarkingOnline), (2, ?b, MarkingOffline)] [1])"
    by (rule reach_step [OF _ ws_step.unregister [of _ ?b True]]) (simp_all add: run_defs)
  then have "ws_reach p no_guard s (pair_world \<lparr> clients = [], wg = 2 \<rparr> ?s [(1, ?a, MarkingOnline), (2, ?b, Finishing)] [1])"
    by (rule reach_step [OF _ ws_step.offline [OF _ surjective_pairing, of _ ?b]]) (simp_all add: run_defs)
  then have "ws_reach p no_guard s (pair_world \<lparr> clients = [], wg = 1 \<rparr> ?s [(1, ?a, MarkingOnline)] [1])"
    by (rule reach_step [OF _ ws_step.finish [of _ ?b "\<lparr> clients = [], wg = 1 \<rparr>"]]) (simp_all add: run_defs)
  then have "ws_reach p no_guard s (pair_world \<lparr> clients = [], wg = 1 \<rparr> (set_to d StatusOnline ?s) [(1, ?a, Running)] [1])"
    by (rule reach_step [OF _ ws_step.online [OF _ surjective_pairing, of _ ?a]]) (simp_all add: run_defs)
  then have "ws_reach p no_guard s (pair_world \<lparr> clients = [], wg = 1 \<rparr> (set_to d StatusOnline ?s) [(1, ?a, Leaving)] [1])"
    by (rule reach_step [OF _ ws_step.read_end [of _ ?a]]) (simp_all add: run_defs)
  then have "ws_reach p no_guard s (pair_world \<lparr> clients = [], wg = 1 \<rparr> (set_to d StatusOnline ?s) [(1, ?a, Finishing)] [1])"
    by (rule reach_step [OF _ ws_step.unregister [of _ ?a False]]) (simp_all add: run_defs)
  then show ?thesis
    by (rule reach_step [OF _ ws_step.finish [of _ ?a "\<lparr> clients = [], wg = 0 \<rparr>"]]) (simp_all add: run_defs)
qed

section \<open>Properties\<close>

text \<open>C17: In every run of the server, whatever the order of connections, messages, requests and store
  faults: \<^verbatim>\<open>Wait\<close> can return nil exactly when the goroutine of every connection has ended, and then no
  device is registered; \<^verbatim>\<open>wg.Done\<close> never panics; every registered client belongs to the device it is
  registered for and its goroutine has yet to unregister it; and from every state all connections
  can run to their end, so shutdown never deadlocks.\<close>

theorem connections_clean_up:
  assumes "ws_reach p no_guard s w"
  shows "(\<forall>ctx. Wait_returns (hub w) ctx (Ok ()) \<longleftrightarrow> conns w = []) \<and> (conns w = [] \<longrightarrow> ConnectedDeviceIDs (hub w) = []) \<and>
    (\<forall>c. at_phase w c Finishing \<longrightarrow> (\<exists>h. wg_Done (hub w) = Ok h)) \<and>
    (\<forall>d. IsConnected d (hub w) \<longrightarrow> (\<exists>c ph. map_of (clients (hub w)) d = Some c \<and> DeviceID c = d \<and> registered_phase ph \<and> at_phase w c ph)) \<and>
    (\<exists>w'. (ws_step p no_guard)\<^sup>*\<^sup>* w w' \<and> conns w' = [] \<and> Wait_returns (hub w') None (Ok ()))"
proof -
  have inv: "ws_inv w" by (rule ws_inv_reach [OF assms])
  obtain w' where w': "ws_steps p w w'" "conns w' = []" using drain_all [OF inv] by blast
  have wg: "wg (hub v) = length (conns v)" if "ws_inv v" for v using that by (simp add: ws_inv_def)
  have none: "clients (hub w) = []" if "conns w = []"
  proof (rule ccontr)
    assume "clients (hub w) \<noteq> []"
    then obtain d c m where "clients (hub w) = (d, c) # m" by (metis list.exhaust surj_pair)
    with ws_inv_entry [OF inv, of d c] that show False by simp
  qed
  have "\<exists>h. wg_Done (hub w) = Ok h" if "at_phase w c Finishing" for c
    using that wg [OF inv] by (auto simp: wg_Done_def at_phase_def)
  moreover have "\<exists>c ph. map_of (clients (hub w)) d = Some c \<and> DeviceID c = d \<and> registered_phase ph \<and> at_phase w c ph"
    if "IsConnected d (hub w)" for d
    using that ws_inv_entry [OF inv, of d] by (auto simp: IsConnected_def at_phase_def)
  ultimately show ?thesis
    using w' none wg [OF inv] wg [OF ws_inv_steps [OF w'(1) inv]]
    by (auto simp: Wait_returns_def ConnectedDeviceIDs_def)
qed

theorem connections_clean_up_witness:
  "\<exists>w'. (ws_step demo_deps no_guard)\<^sup>*\<^sup>*
       (pair_world \<lparr> clients = [(''a'', client 2 ''a'')], wg = 1 \<rparr>
          (set_to ''a'' StatusOffline (set_to ''a'' StatusOnline (set_to ''a'' StatusOnline (SQLiteStore demo_sqlite))))
          [(2, client 2 ''a'', Running)] []) w' \<and>
     conns w' = [] \<and> Wait_returns (hub w') None (Ok ())"
  using connections_clean_up [OF late_offline [of demo_deps "SQLiteStore demo_sqlite" "''a''"]] by blast

text \<open>C18: Only a connection itself ends its registration, and only a newer connection of the same device
  replaces it: a step that changes a device's entry in the hub is either the registration of a
  new client, which then closes the old one, or the entry's own client leaving, which then marks the
  device offline. A connection that was replaced never gets to mark its device offline.\<close>

theorem connection_ownership:
  assumes "ws_reach p no_guard s w" and "ws_step p no_guard w w'"
  shows "(\<forall>d c. map_of (clients (hub w)) d = Some c \<longrightarrow>
      map_of (clients (hub w')) d = Some c \<or>
      (\<exists>c'. map_of (clients (hub w')) d = Some c' \<and> at_phase w c' Added \<and> at_phase w' c' (Replacing (Some c))) \<or>
      (map_of (clients (hub w')) d = None \<and> at_phase w c Leaving \<and> at_phase w' c MarkingOffline)) \<and>
    (\<forall>c. at_phase w' c MarkingOffline \<and> \<not> at_phase w c MarkingOffline \<longrightarrow> map_of (clients (hub w)) (DeviceID c) = Some c)"
proof -
  have inv: "ws_inv w" by (rule ws_inv_reach [OF assms(1)])
  from assms(2) show ?thesis
  proof cases
    case (register c old h)
    then have h: "h = snd (Register c (hub w))" "old = map_of (clients (hub w)) (DeviceID c)" by (simp_all add: Register_def)
    show ?thesis
      using register(1,2) by (auto simp: h at_phase_move split: if_splits)
  next
    case (unregister c mine h)
    have h: "h = snd (Unregister c (hub w))" "mine = fst (Unregister c (hub w))" using unregister by simp_all
    have same: "c' = c \<and> d = DeviceID c" if "map_of (clients (hub w)) d = Some c'" "client_addr c' = client_addr c" for d c'
      using ws_inv_same [OF inv unregister(2) that] by blast
    have entry: "map_of (clients (hub w)) (DeviceID c) = Some c" if mine
    proof -
      from that obtain y where "map_of (clients (hub w)) (DeviceID c) = Some y" "client_addr y = client_addr c"
        unfolding h(2) fst_Unregister same_client_def by (cases "map_of (clients (hub w)) (DeviceID c)") auto
      with same show ?thesis by blast
    qed
    have left: "map_of (clients h) d = (if d = DeviceID c \<and> mine then None else map_of (clients (hub w)) d)" for d
      by (simp add: h map_of_Unregister)
    show ?thesis
      using unregister(1,2) entry by (cases mine) (auto simp: left at_phase_move split: if_splits)
  next
    case (finish c h)
    then have "h = hub w \<lparr> wg := wg (hub w) - 1 \<rparr>" by (auto simp: wg_Done_def split: if_splits)
    with finish(1) show ?thesis by (auto simp: at_phase_def split: if_splits)
  qed (auto simp: at_phase_move wg_Add_def split: if_splits)
qed

theorem connection_ownership_witness:
  "\<exists>w w'. ws_reach demo_deps no_guard (SQLiteStore demo_sqlite) w \<and> ws_step demo_deps no_guard w w' \<and>
     map_of (clients (hub w)) ''a'' = Some (client 1 ''a'') \<and> map_of (clients (hub w')) ''a'' = Some (client 1 ''a'')"
proof -
  let ?w = "pair_world \<lparr> clients = [(''a'', client 1 ''a'')], wg = 1 \<rparr> (SQLiteStore demo_sqlite) [(1, client 1 ''a'', MarkingOnline)] []"
  have reach: "ws_reach demo_deps no_guard (SQLiteStore demo_sqlite) ?w" by (rule one_connection)
  obtain w' where w': "ws_step demo_deps no_guard ?w w'" "w' = move (client 2 ''a'') Added (?w \<lparr> hub := wg_Add (hub ?w) \<rparr>)"
    using ws_step.connect [of ?w "client 2 ''a''"] by (simp add: pair_world_def)
  have entry: "map_of (clients (hub ?w)) ''a'' = Some (client 1 ''a'')" by (simp add: pair_world_def)
  have "\<not> at_phase ?w (client 1 ''a'') Leaving" "\<not> at_phase ?w c' Added" for c'
    by (auto simp: at_phase_def pair_world_def split: if_splits)
  with connection_ownership [OF reach w'(1)] entry have "map_of (clients (hub w')) ''a'' = Some (client 1 ''a'')" by blast
  with reach w'(1) entry show ?thesis by blast
qed



text \<open>C23: Two orders of the steps of two connections of one device leave its status wrong in a store that
  never fails: a device that is connected, with no write outstanding, can be offline in the
  store, because the earlier connection's offline mark came last; and a device with no connection can be
  online there for good, because a replaced connection wrote its online mark after the newer one had left.\<close>

theorem status_races:
  "(\<exists>w. ws_reach demo_deps no_guard (SQLiteStore demo_sqlite) w \<and> IsConnected ''a'' (hub w) \<and>
      at_phase w (client 2 ''a'') Running \<and> Hub_Count (hub w) = 1 \<and> length (conns w) = 1 \<and>
      status_of (db w) ''a'' = Some StatusOffline) \<and>
   (\<exists>w. ws_reach demo_deps no_guard (SQLiteStore demo_sqlite) w \<and> conns w = [] \<and> status_of (db w) ''a'' = Some StatusOnline)"
proof -
  let ?s = "SQLiteStore demo_sqlite"
  have row: "status_of ?s ''a'' \<noteq> None" by code_simp
  have set: "store_inv demo_deps (set_to d x s)" "store_quiet (set_to d x s)"
      "status_of s d \<noteq> None \<Longrightarrow> status_of (set_to d x s) d = Some x"
    if "store_inv demo_deps s" "store_quiet s" for d x s
    using that st.inv_set_status quiet_ops(2) by (simp_all add: set_to_def status_set)
  note s1 = set [OF demo_store, of "''a''" StatusOnline]
  note s2 = set [OF s1(1,2), of "''a''"]
  have "status_of (set_to ''a'' StatusOnline ?s) ''a'' \<noteq> None" using s1(3) row by simp
  then have two: "status_of (set_to ''a'' y (set_to ''a'' x (set_to ''a'' StatusOnline ?s))) ''a'' = Some y" for x y
    using s2 set(3) by simp
  have "status_of (db (pair_world h (set_to ''a'' y (set_to ''a'' x (set_to ''a'' StatusOnline ?s))) cs xs)) ''a'' = Some y"
    for h cs xs x y using two by (simp add: pair_world_def)
  moreover have "at_phase (pair_world h s [(2, client 2 ''a'', Running)] xs) (client 2 ''a'') Running" for h s xs
    by (simp add: at_phase_def pair_world_def)
  moreover have "conns (pair_world h s cs xs) = cs" "hub (pair_world h s cs xs) = h" for h s cs xs
    by (simp_all add: pair_world_def)
  ultimately show ?thesis
    using late_offline [of demo_deps ?s "''a''"] late_online [of demo_deps ?s "''a''"]
    by (intro conjI exI) (assumption | simp add: IsConnected_def Hub_Count_def)+
qed

end
