(* ===== verification/Auth.thy ===== *)
theory Auth
  imports Go_Time Go_Json
begin

text \<open>
  Tokens (\<^verbatim>\<open>internal/auth/jwt.go\<close>). The library golang-jwt is a parameter of the model: a record
  of the functions the code calls, with what its documentation says of them in \<open>jwt_ok\<close>. The MAC
  itself is the uninterpreted predicate \<open>Verifies\<close> of that record.
\<close>

type_synonym Role = string

definition RoleDevice :: Role where "RoleDevice = ''device''"
definition RoleAdmin :: Role where "RoleAdmin = ''admin''"

lemma roles_differ [simp]: "RoleDevice \<noteq> RoleAdmin" "RoleAdmin \<noteq> RoleDevice"
  by (simp_all add: RoleDevice_def RoleAdmin_def)

text \<open>The registered claims the code sets or the library checks, and the role.\<close>

record Claims =
  cl_Subject :: string
  cl_IssuedAt :: "time option"
  cl_ExpiresAt :: "time option"
  cl_NotBefore :: "time option"
  cl_Role :: Role

record Manager =
  secret :: string

section \<open>The library\<close>

datatype jwt_method = SigningMethodHMAC string | OtherMethod string

record jwt_token =
  tok_Claims :: "Claims option"
  tok_Valid :: bool

record jwt_lib =
  NewNumericDate :: "time \<Rightarrow> time"
  SignedString :: "jwt_method \<Rightarrow> Claims \<Rightarrow> string \<Rightarrow> goerr + string"
  ParseUnverified :: "string \<Rightarrow> (jwt_method \<times> Claims) option"
  Verifies :: "jwt_method \<Rightarrow> string \<Rightarrow> string \<Rightarrow> bool"
  ParseWithClaims :: "time \<Rightarrow> string \<Rightarrow> (jwt_method \<Rightarrow> goerr + string) \<Rightarrow> goerr + jwt_token"

definition claims_current :: "time \<Rightarrow> Claims \<Rightarrow> bool" where
  "claims_current now c \<longleftrightarrow>
     (case cl_ExpiresAt c of None \<Rightarrow> True | Some t \<Rightarrow> now < t) \<and>
     (case cl_NotBefore c of None \<Rightarrow> True | Some t \<Rightarrow> t \<le> now)"

definition whole_seconds :: "Claims \<Rightarrow> bool" where
  "whole_seconds c \<longleftrightarrow>
     (\<forall>t. t \<in> set_option (cl_IssuedAt c) \<union> set_option (cl_ExpiresAt c) \<union> set_option (cl_NotBefore c) \<longrightarrow> trunc_secs t = t)"

text \<open>
  What golang-jwt documents: dates have the precision of a second; a signed token carries its method and
  claims and verifies under its key; parsing asks the key function for the key of the token's method
  and succeeds exactly when the signature verifies under that key and the claims are current.
\<close>

definition jwt_ok :: "jwt_lib \<Rightarrow> bool" where
  "jwt_ok lib \<longleftrightarrow>
     (\<forall>t. NewNumericDate lib t = trunc_secs t) \<and>
     (\<forall>m c key tok. SignedString lib m c key = Inr tok \<and> whole_seconds c \<longrightarrow>
        ParseUnverified lib tok = Some (m, c) \<and> Verifies lib m key tok) \<and>
     (\<forall>now tok keyf t. ParseWithClaims lib now tok keyf = Inr t \<longleftrightarrow>
        (\<exists>m c key. ParseUnverified lib tok = Some (m, c) \<and> keyf m = Inr key \<and> Verifies lib m key tok \<and>
           claims_current now c \<and> t = \<lparr> tok_Claims = Some c, tok_Valid = True \<rparr>))"

section \<open>The manager\<close>

definition NewManager :: "string \<Rightarrow> Manager res" where
  "NewManager s =
     (if length s < 32 then Err (ErrText ''auth: JWT secret must be at least 32 characters'')
      else Ok \<lparr> secret = s \<rparr>)"

definition issue :: "jwt_lib \<Rightarrow> Manager \<Rightarrow> time \<Rightarrow> string \<Rightarrow> Role \<Rightarrow> duration \<Rightarrow> string res" where
  "issue lib m now subject role expiry =
     (let claims = \<lparr> cl_Subject = subject, cl_IssuedAt = Some (NewNumericDate lib now),
                     cl_ExpiresAt = Some (NewNumericDate lib (now + expiry)), cl_NotBefore = None, cl_Role = role \<rparr>
      in case SignedString lib (SigningMethodHMAC ''HS256'') claims (secret m) of
           Inl err \<Rightarrow> Err (Wrap ''auth: sign token: %w'' err)
         | Inr signed \<Rightarrow> Ok signed)"

definition IssueDeviceToken :: "jwt_lib \<Rightarrow> Manager \<Rightarrow> time \<Rightarrow> string \<Rightarrow> duration \<Rightarrow> string res" where
  "IssueDeviceToken lib m now deviceID expiry = issue lib m now deviceID RoleDevice expiry"

definition IssueAdminToken :: "jwt_lib \<Rightarrow> Manager \<Rightarrow> time \<Rightarrow> string \<Rightarrow> duration \<Rightarrow> string res" where
  "IssueAdminToken lib m now subject expiry = issue lib m now subject RoleAdmin expiry"

text \<open>The key function that \<^verbatim>\<open>Validate\<close> passes to the parser.\<close>

definition key_func :: "Manager \<Rightarrow> jwt_method \<Rightarrow> goerr + string" where
  "key_func m meth =
     (case meth of
        SigningMethodHMAC _ \<Rightarrow> Inr (secret m)
      | OtherMethod alg \<Rightarrow> Inl (ErrText (''auth: unexpected signing method: '' @ alg)))"

definition Validate :: "jwt_lib \<Rightarrow> Manager \<Rightarrow> time \<Rightarrow> string \<Rightarrow> Claims res" where
  "Validate lib m now tokenStr =
     (case ParseWithClaims lib now tokenStr (key_func m) of
        Inl err \<Rightarrow> Err (Wrap ''auth: validate token: %w'' err)
      | Inr token \<Rightarrow>
          (case tok_Claims token of
             None \<Rightarrow> Err (ErrText ''auth: invalid token claims'')
           | Some claims \<Rightarrow>
               if \<not> tok_Valid token then Err (ErrText ''auth: invalid token claims'') else Ok claims))"

section \<open>Lemmas\<close>

lemma trunc_secs_idem [simp]: "trunc_secs (trunc_secs t) = trunc_secs t"
  by (simp add: trunc_secs_def second_def secs_def)

lemma jwt_okD:
  assumes "jwt_ok lib"
  shows jwt_date: "NewNumericDate lib t = trunc_secs t"
    and jwt_signed: "SignedString lib meth c key = Inr tok \<Longrightarrow> whole_seconds c \<Longrightarrow>
      ParseUnverified lib tok = Some (meth, c) \<and> Verifies lib meth key tok"
    and jwt_parsed: "ParseWithClaims lib now tok keyf = Inr tk \<longleftrightarrow>
      (\<exists>meth c key. ParseUnverified lib tok = Some (meth, c) \<and> keyf meth = Inr key \<and> Verifies lib meth key tok \<and>
         claims_current now c \<and> tk = \<lparr> tok_Claims = Some c, tok_Valid = True \<rparr>)"
  using assms unfolding jwt_ok_def by blast+

lemma key_func_Inr_iff: "key_func m meth = Inr key \<longleftrightarrow> key = secret m \<and> (\<exists>alg. meth = SigningMethodHMAC alg)"
  by (cases meth) (auto simp: key_func_def)

lemma Validate_Ok_iff:
  assumes "jwt_ok lib"
  shows "Validate lib m now tok = Ok c \<longleftrightarrow>
    (\<exists>alg. ParseUnverified lib tok = Some (SigningMethodHMAC alg, c)
       \<and> Verifies lib (SigningMethodHMAC alg) (secret m) tok) \<and> claims_current now c"
proof -
  have "Validate lib m now tok = Ok c \<longleftrightarrow>
      ParseWithClaims lib now tok (key_func m) = Inr \<lparr> tok_Claims = Some c, tok_Valid = True \<rparr>"
    (is "?l \<longleftrightarrow> ?r")
  proof
    assume ?l
    then obtain t where "ParseWithClaims lib now tok (key_func m) = Inr t" "tok_Claims t = Some c" "tok_Valid t"
      by (auto simp: Validate_def split: sum.splits option.splits if_splits)
    then show ?r by simp
  qed (simp add: Validate_def)
  then show ?thesis
    unfolding jwt_parsed [OF assms] key_func_Inr_iff by auto
qed

lemma Validate_no_panic [simp]: "Validate lib m now tok \<noteq> Panic x"
  by (auto simp: Validate_def split: sum.splits option.splits)

lemma issue_no_panic [simp]: "issue lib m now sub r ex \<noteq> Panic x"
  by (auto simp: issue_def Let_def split: sum.splits)

lemma issue_Ok:
  assumes lib: "jwt_ok lib" and tok: "issue lib m now sub r ex = Ok tok"
  defines "c \<equiv> \<lparr> cl_Subject = sub, cl_IssuedAt = Some (trunc_secs now), cl_ExpiresAt = Some (trunc_secs (now + ex)),
                cl_NotBefore = None, cl_Role = r \<rparr>"
  shows "ParseUnverified lib tok = Some (SigningMethodHMAC ''HS256'', c) \<and> Verifies lib (SigningMethodHMAC ''HS256'') (secret m) tok"
proof -
  have "SignedString lib (SigningMethodHMAC ''HS256'') c (secret m) = Inr tok"
    using tok by (auto simp: issue_def c_def jwt_date [OF lib] Let_def split: sum.splits)
  moreover have "whole_seconds c" by (auto simp: whole_seconds_def c_def)
  ultimately show ?thesis by (rule jwt_signed [OF lib])
qed

lemma issued_claims:
  assumes lib: "jwt_ok lib" and tok: "issue lib m now sub r ex = Ok tok"
  shows "Validate lib m later tok = Ok c \<longleftrightarrow>
    later < trunc_secs (now + ex) \<and>
    c = \<lparr> cl_Subject = sub, cl_IssuedAt = Some (trunc_secs now), cl_ExpiresAt = Some (trunc_secs (now + ex)),
         cl_NotBefore = None, cl_Role = r \<rparr>"
  using issue_Ok [OF assms] unfolding Validate_Ok_iff [OF lib] by (auto simp: claims_current_def)

lemma trunc_secs_gap: "t - second < trunc_secs t \<and> trunc_secs t \<le> t"
proof -
  have "t = (t div second) * second + t mod second" by simp
  moreover have "0 \<le> t mod second" "t mod second < second" by (simp_all add: second_def)
  ultimately show ?thesis unfolding trunc_secs_def secs_def by (simp add: second_def) linarith
qed

section \<open>A small library\<close>

text \<open>
  An instance of the library for concrete runs: a token is the JSON text of its method, its claims and
  its key, and verifies when the keys agree.
\<close>

definition show_int :: "int \<Rightarrow> json" where
  "show_int i = JArr (replicate (nat \<bar>i\<bar>) JNull @ (if i < 0 then [JBool True] else []))"

fun read_int :: "json \<Rightarrow> int" where
  "read_int (JArr xs) =
     (if xs \<noteq> [] \<and> List.last xs = JBool True then - int (length xs - 1) else int (length xs))"
| "read_int _ = 0"

lemma read_show_int [simp]: "read_int (show_int i) = i"
  by (cases "i < 0") (auto simp: show_int_def)

fun show_date :: "time option \<Rightarrow> json" where
  "show_date None = JNull"
| "show_date (Some t) = show_int t"

definition read_date :: "json \<Rightarrow> time option" where
  "read_date j = (if j = JNull then None else Some (read_int j))"

lemma read_show_date [simp]: "read_date (show_date d) = d"
  by (cases d) (auto simp: read_date_def, simp add: show_int_def)

fun method_json :: "jwt_method \<Rightarrow> json" where
  "method_json (SigningMethodHMAC a) = JArr [JStr a]"
| "method_json (OtherMethod a) = JStr a"

fun json_method :: "json \<Rightarrow> jwt_method" where
  "json_method (JArr [JStr a]) = SigningMethodHMAC a"
| "json_method (JStr a) = OtherMethod a"
| "json_method _ = OtherMethod []"

lemma json_method_json [simp]: "json_method (method_json m) = m"
  by (cases m) simp_all

definition demo_sign :: "jwt_method \<Rightarrow> Claims \<Rightarrow> string \<Rightarrow> string" where
  "demo_sign m c key = json_print
     (JArr [method_json m, JStr (cl_Subject c), show_date (cl_IssuedAt c), show_date (cl_ExpiresAt c),
            show_date (cl_NotBefore c), JStr (cl_Role c), JStr key])"

fun demo_fields :: "json option \<Rightarrow> (jwt_method \<times> Claims \<times> string) option" where
  "demo_fields (Some (JArr [m, JStr sub, iat, ex, nbf, JStr r, JStr key])) =
     Some (json_method m, \<lparr> cl_Subject = sub, cl_IssuedAt = read_date iat, cl_ExpiresAt = read_date ex,
       cl_NotBefore = read_date nbf, cl_Role = r \<rparr>, key)"
| "demo_fields _ = None"

definition demo_unverified :: "string \<Rightarrow> (jwt_method \<times> Claims \<times> string) option" where
  "demo_unverified tok = demo_fields (json_parse tok)"

definition demo_jwt :: jwt_lib where
  "demo_jwt =
     \<lparr> NewNumericDate = trunc_secs,
       SignedString = (\<lambda>m c key. Inr (demo_sign m c key)),
       ParseUnverified = (\<lambda>tok. map_option (\<lambda>(m, c, key). (m, c)) (demo_unverified tok)),
       Verifies = (\<lambda>m key tok. \<exists>c. demo_unverified tok = Some (m, c, key)),
       ParseWithClaims = (\<lambda>now tok keyf.
         case demo_unverified tok of
           None \<Rightarrow> Inl (ErrText ''token is malformed'')
         | Some (m, c, key) \<Rightarrow>
             (case keyf m of
                Inl e \<Rightarrow> Inl e
              | Inr k \<Rightarrow> if k = key \<and> claims_current now c then Inr \<lparr> tok_Claims = Some c, tok_Valid = True \<rparr>
                         else Inl (ErrText ''token is invalid''))) \<rparr>"

lemma show_date_wf: "json_wf (show_date d)"
  by (cases d) (auto simp: show_int_def)

lemma demo_unverified_sign [simp]: "demo_unverified (demo_sign m c key) = Some (m, c, key)"
proof -
  have "json_wf (method_json m)" by (cases m) simp_all
  then have "json_parse (demo_sign m c key) = Some (JArr [method_json m, JStr (cl_Subject c), show_date (cl_IssuedAt c),
      show_date (cl_ExpiresAt c), show_date (cl_NotBefore c), JStr (cl_Role c), JStr key])"
    unfolding demo_sign_def by (intro json_parse_print) (simp add: show_date_wf)
  then show ?thesis by (simp add: demo_unverified_def)
qed

lemma demo_jwt_ok: "jwt_ok demo_jwt"
  unfolding jwt_ok_def
proof (intro conjI allI)
  fix now tok keyf t
  show "ParseWithClaims demo_jwt now tok keyf = Inr t \<longleftrightarrow>
      (\<exists>m c key. ParseUnverified demo_jwt tok = Some (m, c) \<and> keyf m = Inr key \<and> Verifies demo_jwt m key tok \<and>
         claims_current now c \<and> t = \<lparr> tok_Claims = Some c, tok_Valid = True \<rparr>)"
    by (cases "demo_unverified tok") (auto simp: demo_jwt_def split: sum.splits if_splits)
qed (auto simp: demo_jwt_def)

lemma demo_issue [simp]:
  "issue demo_jwt m now sub r ex =
     Ok (demo_sign (SigningMethodHMAC ''HS256'')
       \<lparr> cl_Subject = sub, cl_IssuedAt = Some (trunc_secs now), cl_ExpiresAt = Some (trunc_secs (now + ex)),
         cl_NotBefore = None, cl_Role = r \<rparr> (secret m))"
  by (simp add: issue_def demo_jwt_def)

definition demo_manager :: Manager where
  "demo_manager = \<lparr> secret = ''0123456789abcdef0123456789abcdef'' \<rparr>"

section \<open>Properties\<close>

text \<open>A token issued to a device validates under the same key at every later instant before its
  expiry, cut to whole seconds, and then carries the device as its subject and the device role; from
  the expiry on it is refused. The same holds for an admin token with the admin role. A lifetime
  of a second or more makes a fresh token valid.\<close>

theorem issue_then_validate:
  assumes "jwt_ok lib" and "NewManager key = Ok m"
    and "IssueDeviceToken lib m now i ex = Ok tok" and "IssueAdminToken lib m now s ex = Ok tok'"
  shows "(if later < trunc_secs (now + ex)
          then (\<exists>c. Validate lib m later tok = Ok c \<and> cl_Subject c = i \<and> cl_Role c = RoleDevice) \<and>
               (\<exists>c. Validate lib m later tok' = Ok c \<and> cl_Subject c = s \<and> cl_Role c = RoleAdmin)
          else (\<exists>e. Validate lib m later tok = Err e) \<and> (\<exists>e. Validate lib m later tok' = Err e))
    \<and> (second \<le> ex \<longrightarrow> now < trunc_secs (now + ex))"
proof -
  note tok = issued_claims [OF assms(1) assms(3) [unfolded IssueDeviceToken_def], of later]
  note tok' = issued_claims [OF assms(1) assms(4) [unfolded IssueAdminToken_def], of later]
  have err: "(\<exists>e. Validate lib m later x = Err e) \<longleftrightarrow> (\<forall>c. Validate lib m later x \<noteq> Ok c)" for x
    by (cases "Validate lib m later x") auto
  show ?thesis
    unfolding err tok tok' using trunc_secs_gap [of "now + ex"] by auto
qed

theorem issue_then_validate_witness:
  "\<exists>tok c. IssueDeviceToken demo_jwt demo_manager 1500000000 ''d1'' (5 * second) = Ok tok \<and>
     Validate demo_jwt demo_manager 5900000000 tok = Ok c \<and> cl_Subject c = ''d1'' \<and> cl_Role c = RoleDevice"
proof -
  have "NewManager ''0123456789abcdef0123456789abcdef'' = Ok demo_manager"
    by (simp add: NewManager_def demo_manager_def)
  moreover obtain tok tok' where tok: "IssueDeviceToken demo_jwt demo_manager 1500000000 ''d1'' (5 * second) = Ok tok"
    and "IssueAdminToken demo_jwt demo_manager 1500000000 ''admin'' (5 * second) = Ok tok'"
    by (simp add: IssueDeviceToken_def IssueAdminToken_def)
  ultimately have "if 5900000000 < trunc_secs (1500000000 + 5 * second)
      then (\<exists>c. Validate demo_jwt demo_manager 5900000000 tok = Ok c \<and> cl_Subject c = ''d1'' \<and> cl_Role c = RoleDevice) \<and>
           (\<exists>c. Validate demo_jwt demo_manager 5900000000 tok' = Ok c \<and> cl_Subject c = ''admin'' \<and> cl_Role c = RoleAdmin)
      else (\<exists>e. Validate demo_jwt demo_manager 5900000000 tok = Err e) \<and> (\<exists>e. Validate demo_jwt demo_manager 5900000000 tok' = Err e)"
    by (rule issue_then_validate [OF demo_jwt_ok, THEN conjunct1])
  moreover have "5900000000 < trunc_secs (1500000000 + 5 * second)" by (simp add: trunc_secs_def secs_def second_def)
  ultimately show ?thesis using tok by auto
qed

text \<open>C26: \<^verbatim>\<open>Validate\<close> returns the claims of a token only when its header names an HMAC method, its MAC
  verifies under the manager's own secret, and it is neither expired nor early; every other token, one
  signed with another key or with the method none among them, gives an error. The secret of
  a manager has at least 32 bytes.\<close>

theorem validate_authentic:
  assumes "jwt_ok lib" and "NewManager key = Ok m"
  shows "32 \<le> length (secret m) \<and>
    (case Validate lib m now tok of
       Ok c \<Rightarrow> claims_current now c \<and>
         (\<exists>alg. ParseUnverified lib tok = Some (SigningMethodHMAC alg, c) \<and> Verifies lib (SigningMethodHMAC alg) key tok)
     | Err _ \<Rightarrow> \<not> (\<exists>alg c. ParseUnverified lib tok = Some (SigningMethodHMAC alg, c)
                    \<and> Verifies lib (SigningMethodHMAC alg) key tok \<and> claims_current now c)
     | Panic _ \<Rightarrow> False)"
proof -
  have m: "secret m = key" "32 \<le> length key" using assms(2) by (auto simp: NewManager_def split: if_splits)
  show ?thesis
    using Validate_Ok_iff [OF assms(1), of m now tok] m by (cases "Validate lib m now tok") auto
qed

theorem validate_authentic_witness:
  "\<exists>e. Validate demo_jwt demo_manager 0
     (demo_sign (OtherMethod ''none'') \<lparr> cl_Subject = ''d1'', cl_IssuedAt = None, cl_ExpiresAt = None, cl_NotBefore = None,
        cl_Role = RoleAdmin \<rparr> []) = Err e"
  (is "\<exists>e. Validate _ _ _ ?tok = _")
proof -
  have m: "NewManager ''0123456789abcdef0123456789abcdef'' = Ok demo_manager"
    by (simp add: NewManager_def demo_manager_def)
  have "\<nexists>alg c. ParseUnverified demo_jwt ?tok = Some (SigningMethodHMAC alg, c)"
    by (simp add: demo_jwt_def)
  with validate_authentic [OF demo_jwt_ok m, of 0 ?tok] show ?thesis
    by (cases "Validate demo_jwt demo_manager 0 ?tok") auto
qed

end
