(* ===== verification/Go_Number.thy ===== *)
theory Go_Number
  imports Go_Struct
begin

text \<open>
  Numbers in JSON: \<^verbatim>\<open>strconv.ParseInt\<close> and \<^verbatim>\<open>ParseFloat\<close> on a number literal, rounding to the nearest
  float32 with ties to even, and the shortest decimal text of a float32 that reads back to it. A
  float32 is the rational number it denotes; infinities and NaN are outside the model.
\<close>

section \<open>Member names\<close>

text \<open>Folding an ASCII name.\<close>

definition fold_ascii :: "char \<Rightarrow> char" where
  "fold_ascii a = (if 97 \<le> (of_char a :: nat) \<and> (of_char a :: nat) \<le> 122 then char_of (of_char a - 32 :: nat) else a)"

lemma fold_name_step: "a \<noteq> CHR 0xE2 \<Longrightarrow> a \<noteq> CHR 0xC5 \<Longrightarrow> fold_name (a # r) = fold_ascii a # fold_name r"
  by (subst fold_name.simps(2)) (simp add: fold_ascii_def del: fold_name.simps(2) split: list.split)

lemma fold_name_ascii:
  "list_all (\<lambda>ch. ch \<noteq> CHR 0xE2 \<and> ch \<noteq> CHR 0xC5) s \<Longrightarrow> fold_name s = map fold_ascii s"
  by (induction s) (simp_all add: fold_name_step del: fold_name.simps(2))

declare fold_name.simps(2) [simp del]

section \<open>Literals\<close>

definition digits_val :: "string \<Rightarrow> int" where
  "digits_val = foldl (\<lambda>x ch. 10 * x + dval ch) 0"

text \<open>The parts of a literal: sign, integer, fraction, exponent.\<close>

definition literal_sign :: "string \<Rightarrow> bool \<times> string" where
  "literal_sign s = (if s \<noteq> [] \<and> hd s = CHR ''-'' then (True, tl s) else (False, s))"

definition literal_frac :: "string \<Rightarrow> string \<times> string" where
  "literal_frac s =
     (if s \<noteq> [] \<and> hd s = CHR ''.'' then (takeWhile is_digit (tl s), dropWhile is_digit (tl s)) else ([], s))"

definition literal_exp :: "string \<Rightarrow> int" where
  "literal_exp s =
     (if s = [] then 0
      else let r = tl s
           in if r \<noteq> [] \<and> hd r = CHR ''-'' then - digits_val (tl r)
              else if r \<noteq> [] \<and> hd r = CHR ''+'' then digits_val (tl r) else digits_val r)"

definition number_value :: "string \<Rightarrow> rat" where
  "number_value s =
     (let (neg, s0) = literal_sign s;
          i = takeWhile is_digit s0;
          (f, r) = literal_frac (dropWhile is_digit s0);
          v = of_int (digits_val (i @ f)) * power_int 10 (literal_exp r - int (length f))
      in if neg then - v else v)"

text \<open>\<^verbatim>\<open>strconv.ParseInt(s, 10, 64)\<close> on a literal.\<close>

definition ParseInt64 :: "string \<Rightarrow> int option" where
  "ParseInt64 s =
     (let (neg, ds) = literal_sign s; v = (if neg then - digits_val ds else digits_val ds)
      in if ds = [] \<or> \<not> list_all is_digit ds \<or> v < - (2 ^ 63) \<or> v \<ge> 2 ^ 63 then None else Some v)"

section \<open>Rounding to float32\<close>

definition round_even :: "rat \<Rightarrow> int" where
  "round_even q =
     (let n = \<lfloor>q\<rfloor>; d = q - of_int n
      in if d < 1 / 2 then n else if d > 1 / 2 then n + 1 else if even n then n else n + 1)"

text \<open>The exponent of the last place: the least from -149 on at which the number has at most 24 bits.\<close>

definition ulp_exp :: "rat \<Rightarrow> int option" where
  "ulp_exp a = find (\<lambda>k. a < power_int 2 (k + 24)) [-149..104]"

definition f32_round :: "rat \<Rightarrow> rat option" where
  "f32_round q =
     (case ulp_exp \<bar>q\<bar> of
        None \<Rightarrow> None
      | Some k \<Rightarrow>
          let v = of_int (round_even (\<bar>q\<bar> / power_int 2 k)) * power_int 2 k
          in if v \<ge> 2 ^ 128 then None else Some (if q < 0 then - v else v))"

definition is_f32 :: "rat \<Rightarrow> bool" where
  "is_f32 v \<longleftrightarrow> f32_round v = Some v"

section \<open>Fields\<close>

definition set_int64 :: "string \<Rightarrow> int \<Rightarrow> int option" where
  "set_int64 raw v =
     (case json_parse raw of Some (JNum s) \<Rightarrow> ParseInt64 s | Some JNull \<Rightarrow> Some v | _ \<Rightarrow> None)"

definition set_float32 :: "string \<Rightarrow> rat \<Rightarrow> rat option" where
  "set_float32 raw v =
     (case json_parse raw of Some (JNum s) \<Rightarrow> f32_round (number_value s) | Some JNull \<Rightarrow> Some v | _ \<Rightarrow> None)"

text \<open>\<^verbatim>\<open>json.RawMessage\<close> keeps the text of the value.\<close>

definition set_raw :: "string \<Rightarrow> string \<Rightarrow> string option" where
  "set_raw raw v = Some raw"

section \<open>Printing\<close>

text \<open>\<^verbatim>\<open>strconv.Itoa\<close>\<close>

definition Itoa :: "int \<Rightarrow> string" where
  "Itoa n = (if n < 0 then CHR ''-'' # show_nat (- n) else show_nat n)"

text \<open>A positive decimal number \<open>m \<times> 10\<^sup>e\<close>, without trailing zeros in \<open>m\<close>.\<close>

type_synonym decimal = "int \<times> int"

definition dec_value :: "decimal \<Rightarrow> rat" where
  "dec_value d = of_int (fst d) * power_int 10 (snd d)"

function strip_zeros :: "int \<Rightarrow> int \<Rightarrow> decimal" where
  "strip_zeros m e = (if 0 < m \<and> m mod 10 = 0 then strip_zeros (m div 10) (e + 1) else (m, e))"
  by pat_completeness auto
termination
  by (relation "measure (\<lambda>(m, e). nat m)") auto

declare strip_zeros.simps [simp del]

text \<open>
  The candidates for the shortest text: for 1 to 9 digits the two neighbours of the number, the
  closer first. The last candidate is the number itself, whose decimal expansion is finite; nine
  digits are always enough for a float32, so it is there only to make the search total.
\<close>

definition dec_exp :: "rat \<Rightarrow> int" where
  "dec_exp v = (case find (\<lambda>p. v < power_int 10 (p + 1)) [-46..39] of Some p \<Rightarrow> p | None \<Rightarrow> 39)"

definition neighbours :: "rat \<Rightarrow> int \<Rightarrow> decimal list" where
  "neighbours v n =
     (let e = dec_exp v - n + 1; q = v / power_int 10 e; m = \<lfloor>q\<rfloor>
      in if q - of_int m \<le> 1 / 2 then [(m, e), (m + 1, e)] else [(m + 1, e), (m, e)])"

definition exact_decimal :: "rat \<Rightarrow> decimal" where
  "exact_decimal v = (let k = 149 in (\<lfloor>v * 10 ^ k\<rfloor>, - int k))"

definition shortest_decimal :: "rat \<Rightarrow> decimal" where
  "shortest_decimal v =
     (case find (\<lambda>d. 0 < fst d \<and> f32_round (dec_value d) = Some v) (concat (map (neighbours v) [1..9])) of
        Some d \<Rightarrow> strip_zeros (fst d) (snd d)
      | None \<Rightarrow> strip_zeros (fst (exact_decimal v)) (snd (exact_decimal v)))"

text \<open>The formats f and e of \<^verbatim>\<open>strconv.FormatFloat\<close>, the latter as encoding/json shortens it.\<close>

definition fmtF :: "decimal \<Rightarrow> string" where
  "fmtF d =
     (let ds = show_nat (fst d); e = snd d
      in if e \<ge> 0 then ds @ replicate (nat e) CHR ''0''
         else let k = nat (- e)
              in if k < length ds then take (length ds - k) ds @ CHR ''.'' # drop (length ds - k) ds
                 else CHR ''0'' # CHR ''.'' # replicate (k - length ds) CHR ''0'' @ ds)"

definition fmtE :: "decimal \<Rightarrow> string" where
  "fmtE d =
     (let ds = show_nat (fst d); x = snd d + int (length ds) - 1
      in hd ds # (if tl ds = [] then [] else CHR ''.'' # tl ds) @ CHR ''e'' # (if x < 0 then CHR ''-'' else CHR ''+'') # show_nat \<bar>x\<bar>)"

definition float32_text :: "rat \<Rightarrow> string" where
  "float32_text v =
     (if v = 0 then ''0''
      else let a = \<bar>v\<bar>; d = shortest_decimal a
           in (if v < 0 then ''-'' else []) @ (if a < 1 / 10 ^ 6 \<or> a \<ge> 10 ^ 21 then fmtE d else fmtF d))"

section \<open>Digits\<close>

lemma foldl_digits: "foldl (\<lambda>x ch. 10 * x + dval ch) a s = a * 10 ^ length s + foldl (\<lambda>x ch. 10 * x + dval ch) 0 s"
proof (induction s arbitrary: a)
  case (Cons ch s)
  show ?case
    using Cons [of "10 * a + dval ch"] Cons [of "dval ch"] by (simp add: algebra_simps)
qed simp

lemma digits_val_append: "digits_val (s @ t) = digits_val s * 10 ^ length t + digits_val t"
  unfolding digits_val_def foldl_append by (rule foldl_digits)

lemma digits_val_Nil [simp]: "digits_val [] = 0"
  by (simp add: digits_val_def)

lemma digits_val_single [simp]: "digits_val [ch] = dval ch"
  by (simp add: digits_val_def)

lemma digit_0: "CHR ''0'' = digit 0"
  unfolding digit_def by code_simp

lemma dval_0 [simp]: "dval CHR ''0'' = 0"
  by (simp add: dval_def)

lemma digits_val_Cons: "digits_val (ch # s) = dval ch * 10 ^ length s + digits_val s"
  using digits_val_append [of "[ch]" s] by simp

lemma digits_val_zeros [simp]: "digits_val (replicate n CHR ''0'') = 0"
  by (induction n) (simp_all add: digits_val_Cons)

lemma show_nat_props:
  "0 \<le> n \<Longrightarrow> digits_val (show_nat n) = n \<and> list_all is_digit (show_nat n) \<and> show_nat n \<noteq> [] \<and>
     (0 < n \<longrightarrow> hd (show_nat n) \<noteq> CHR ''0'')"
proof (induction n rule: show_nat.induct)
  case (1 n)
  show ?case
  proof (cases "n < 10")
    case True
    with 1(2) have "show_nat n = [digit n]" by (simp add: show_nat_digit)
    with True 1(2) show ?thesis
      by (auto simp: digit_0 digit_eq_iff)
  next
    case False
    then have eq: "show_nat n = show_nat (n div 10) @ [digit (n mod 10)]"
      by (subst show_nat.simps) simp
    have "0 \<le> n div 10" "0 < n div 10" using False by auto
    with 1(1) [OF False] show ?thesis
      unfolding eq by (simp add: digits_val_append)
  qed
qed

lemmas show_nat_value = show_nat_props [THEN conjunct1]
lemmas show_nat_digits = show_nat_props [THEN conjunct2, THEN conjunct1]
lemmas show_nat_nonempty = show_nat_props [THEN conjunct2, THEN conjunct2, THEN conjunct1]
lemmas show_nat_hd = show_nat_props [THEN conjunct2, THEN conjunct2, THEN conjunct2, rule_format]

lemma digits_split:
  assumes "list_all is_digit ds" and "r = [] \<or> \<not> is_digit (hd r)"
  shows "takeWhile is_digit (ds @ r) = ds" and "dropWhile is_digit (ds @ r) = r"
  using assms by (induction ds) (cases r; auto)+

lemma marks_not_digit [simp]:
  "\<not> is_digit CHR ''.''" "\<not> is_digit CHR ''e''" "\<not> is_digit CHR ''-''" "\<not> is_digit CHR ''+''"
  "is_digit CHR ''0''"
  by (simp_all add: is_digit_def)

lemma list_all_hd: "list_all P xs \<Longrightarrow> xs \<noteq> [] \<Longrightarrow> P (hd xs)"
  by (cases xs) auto

text \<open>A literal put together from its parts, and its value.\<close>

definition literal :: "string \<Rightarrow> string \<Rightarrow> int option \<Rightarrow> string" where
  "literal i f x =
     i @ (if f = [] then [] else CHR ''.'' # f) @
     (case x of None \<Rightarrow> [] | Some n \<Rightarrow> CHR ''e'' # (if n < 0 then CHR ''-'' else CHR ''+'') # show_nat \<bar>n\<bar>)"

lemma literal_value:
  assumes i: "list_all is_digit i" "i \<noteq> []" and f: "list_all is_digit f"
  shows "number_value (literal i f x) =
    of_int (digits_val (i @ f)) * power_int 10 ((case x of None \<Rightarrow> 0 | Some n \<Rightarrow> n) - int (length f))"
proof -
  define tail where "tail = (case x of None \<Rightarrow> [] | Some n \<Rightarrow> CHR ''e'' # (if n < 0 then CHR ''-'' else CHR ''+'') # show_nat \<bar>n\<bar>)"
  define frac where "frac = (if f = [] then [] else CHR ''.'' # f)"
  have lit: "literal i f x = i @ frac @ tail" by (simp add: literal_def tail_def frac_def)
  have tail: "tail = [] \<or> \<not> is_digit (hd tail)" by (auto simp: tail_def split: option.splits)
  have no_dot: "\<not> (tail \<noteq> [] \<and> hd tail = CHR ''.'')" by (auto simp: tail_def split: option.splits)
  have rest: "frac @ tail = [] \<or> \<not> is_digit (hd (frac @ tail))" using tail by (auto simp: frac_def)
  have sign: "literal_sign (i @ frac @ tail) = (False, i @ frac @ tail)"
    using i list_all_hd [OF i] by (auto simp: literal_sign_def)
  have fr: "literal_frac (frac @ tail) = (f, tail)"
    using no_dot digits_split [OF f tail] by (auto simp: literal_frac_def frac_def)
  have ex: "literal_exp tail = (case x of None \<Rightarrow> 0 | Some n \<Rightarrow> n)"
    by (auto simp: tail_def literal_exp_def Let_def show_nat_value split: option.splits)
  show ?thesis
    unfolding lit number_value_def sign prod.case Let_def digits_split [OF i(1) rest] fr ex by simp
qed

lemma literal_num_ok:
  assumes i: "list_all is_digit i" "i \<noteq> []" "i = ''0'' \<or> hd i \<noteq> CHR ''0''" and f: "list_all is_digit f"
  shows "num_ok (literal i f x)" and "num_ok (CHR ''-'' # literal i f x)"
proof -
  define tail where "tail = (case x of None \<Rightarrow> [] | Some n \<Rightarrow> CHR ''e'' # (if n < 0 then CHR ''-'' else CHR ''+'') # show_nat \<bar>n\<bar>)"
  define frac where "frac = (if f = [] then [] else CHR ''.'' # f)"
  have lit: "literal i f x = i @ frac @ tail" by (simp add: literal_def tail_def frac_def)
  have tail: "tail = [] \<or> \<not> is_digit (hd tail)" by (auto simp: tail_def split: option.splits)
  have rest: "frac @ tail = [] \<or> \<not> is_digit (hd (frac @ tail))" using tail by (auto simp: frac_def)
  have no_dot: "tail = [] \<or> hd tail \<noteq> CHR ''.''" by (auto simp: tail_def split: option.splits)
  have int: "scan_int (i @ frac @ tail) = Some (i, frac @ tail)"
    using i list_all_hd [OF i(1,2)] digits_split [OF i(1) rest]
    by (cases i) (auto simp: scan_int_def)
  have fr: "scan_frac (frac @ tail) = Some (frac, tail)"
    using no_dot digits_split [OF f tail] f by (cases f; cases tail) (auto simp: scan_frac_def frac_def)
  have ex: "scan_exp tail = Some (tail, [])"
  proof (cases x)
    case (Some n)
    have ok: "list_all is_digit (show_nat \<bar>n\<bar>)" "show_nat \<bar>n\<bar> \<noteq> []" by (simp_all add: show_nat_digits show_nat_nonempty)
    have "takeWhile is_digit (show_nat \<bar>n\<bar>) = show_nat \<bar>n\<bar>" "dropWhile is_digit (show_nat \<bar>n\<bar>) = []"
      using digits_split [OF ok(1), of "[]"] by (simp_all only: append_Nil2 simp_thms)
    with ok(2) show ?thesis
      by (auto simp: scan_exp_def tail_def Some Let_def takeWhile_eq_Nil_iff)
  qed (simp add: scan_exp_def tail_def)
  have first: "\<exists>ch r. i @ frac @ tail = ch # r \<and> ch \<noteq> CHR ''-''"
    using i list_all_hd [OF i(1,2)] by (cases i) auto
  then obtain ch r where chr: "i @ frac @ tail = ch # r" "ch \<noteq> CHR ''-''" by blast
  have "scan_number (i @ frac @ tail) = Some (i @ frac @ tail, [])"
    unfolding scan_number_def using chr int fr ex by (simp add: Let_def)
  then show "num_ok (literal i f x)" by (simp add: num_ok_def lit)
  have "scan_number (CHR ''-'' # i @ frac @ tail) = Some (CHR ''-'' # i @ frac @ tail, [])"
    unfolding scan_number_def using int fr ex by (simp add: Let_def)
  then show "num_ok (CHR ''-'' # literal i f x)" by (simp add: num_ok_def lit)
qed

section \<open>A printed float32 reads back\<close>

lemma dec_value_strip: "dec_value (strip_zeros m e) = dec_value (m, e)"
proof (induction m e rule: strip_zeros.induct)
  case (1 m e)
  show ?case
  proof (cases "0 < m \<and> m mod 10 = 0")
    case True
    then obtain k where k: "m = 10 * k" by auto
    then have "dec_value (m, e) = of_int (m div 10) * (10 * power_int 10 e)"
      by (simp add: dec_value_def)
    also have "\<dots> = dec_value (m div 10, e + 1)" by (simp add: dec_value_def power_int_add)
    finally show ?thesis using 1 True by (simp add: strip_zeros.simps [of m])
  qed (auto simp: strip_zeros.simps [of m])
qed

lemma strip_zeros_pos: "0 < m \<Longrightarrow> 0 < fst (strip_zeros m e)"
proof (induction m e rule: strip_zeros.induct)
  case (1 m e)
  show ?case
  proof (cases "0 < m \<and> m mod 10 = 0")
    case True
    then have "0 < m div 10" by auto
    with 1(1) [OF True] True show ?thesis by (simp add: strip_zeros.simps [of m])
  qed (use 1 in \<open>simp add: strip_zeros.simps [of m]\<close>)
qed

lemma fmtE_literal:
  assumes "0 < fst d"
  shows "\<exists>i f x. fmtE d = literal i f x \<and> list_all is_digit i \<and> i \<noteq> [] \<and> (i = ''0'' \<or> hd i \<noteq> CHR ''0'') \<and>
    list_all is_digit f \<and> dec_value d = of_int (digits_val (i @ f)) * power_int 10 ((case x of None \<Rightarrow> 0 | Some n \<Rightarrow> n) - int (length f))"
proof -
  define ds where "ds = show_nat (fst d)"
  have ds: "list_all is_digit ds" "ds \<noteq> []" "hd ds \<noteq> CHR ''0''" "digits_val ds = fst d"
    using assms by (auto simp: ds_def show_nat_digits show_nat_nonempty show_nat_hd show_nat_value)
  define x where "x = snd d + int (length ds) - 1"
  have "fmtE d = literal [hd ds] (tl ds) (Some x)"
    by (simp add: fmtE_def Let_def literal_def x_def ds_def)
  moreover have "list_all is_digit [hd ds]" "list_all is_digit (tl ds)" "[hd ds] @ tl ds = ds"
    using ds by (cases ds; simp)+
  moreover have "x - int (length (tl ds)) = snd d" using ds(2) by (simp add: x_def of_nat_diff Suc_le_eq)
  ultimately show ?thesis
    using ds(3,4) by (intro exI [of _ "[hd ds]"] exI [of _ "tl ds"] exI [of _ "Some x"]) (simp add: dec_value_def)
qed

lemma fmtF_literal:
  assumes "0 < fst d"
  shows "\<exists>i f x. fmtF d = literal i f x \<and> list_all is_digit i \<and> i \<noteq> [] \<and> (i = ''0'' \<or> hd i \<noteq> CHR ''0'') \<and>
    list_all is_digit f \<and> dec_value d = of_int (digits_val (i @ f)) * power_int 10 ((case x of None \<Rightarrow> 0 | Some n \<Rightarrow> n) - int (length f))"
proof -
  define ds where "ds = show_nat (fst d)"
  have ds: "list_all is_digit ds" "ds \<noteq> []" "hd ds \<noteq> CHR ''0''" "digits_val ds = fst d"
    using assms by (auto simp: ds_def show_nat_digits show_nat_nonempty show_nat_hd show_nat_value)
  consider (whole) "snd d \<ge> 0" | (mixed) "snd d < 0" "nat (- snd d) < length ds" | (small) "snd d < 0" "length ds \<le> nat (- snd d)"
    by linarith
  then show ?thesis
  proof cases
    case whole
    let ?i = "ds @ replicate (nat (snd d)) CHR ''0''"
    have "fmtF d = literal ?i [] None" using whole by (simp add: fmtF_def literal_def ds_def)
    moreover have "list_all is_digit ?i" "?i \<noteq> []" "hd ?i \<noteq> CHR ''0''" using ds by (auto simp: list_all_iff set_replicate_conv_if)
    moreover have "dec_value d = of_int (digits_val ?i)"
      using whole ds(4) by (simp add: dec_value_def digits_val_append power_int_def)
    ultimately show ?thesis by (intro exI [of _ ?i] exI [of _ "[]"] exI [of _ None]) simp
  next
    case mixed
    define n where "n = length ds - nat (- snd d)"
    have n: "0 < n" "n < length ds" "int (length ds - n) = - snd d" using mixed by (auto simp: n_def)
    have "fmtF d = literal (take n ds) (drop n ds) None"
      using mixed n by (simp add: fmtF_def Let_def literal_def ds_def n_def)
    moreover have "list_all is_digit (take n ds)" "list_all is_digit (drop n ds)"
      using ds(1) by (auto simp: list_all_iff dest: in_set_takeD in_set_dropD)
    moreover have "hd (take n ds) \<noteq> CHR ''0''" using ds n by (simp add: hd_take)
    ultimately show ?thesis
      using ds n by (intro exI [of _ "take n ds"] exI [of _ "drop n ds"] exI [of _ None]) (simp add: dec_value_def)
  next
    case small
    let ?f = "replicate (nat (- snd d) - length ds) CHR ''0'' @ ds"
    have "fmtF d = literal ''0'' ?f None" using small ds by (simp add: fmtF_def Let_def literal_def ds_def)
    moreover have "list_all is_digit ?f" using ds by (auto simp: list_all_iff set_replicate_conv_if)
    moreover have "int (length ?f) = - snd d" using small by simp
    moreover have "digits_val (''0'' @ ?f) = fst d" using ds by (simp add: digits_val_append digits_val_Cons)
    ultimately show ?thesis
      by (intro exI [of _ "''0''"] exI [of _ ?f] exI [of _ None]) (simp add: dec_value_def)
  qed
qed

lemma fmt_value:
  assumes "0 < fst d"
  shows "number_value (fmtF d) = dec_value d" "number_value (fmtE d) = dec_value d"
    "num_ok (fmtF d)" "num_ok (fmtE d)" "num_ok (CHR ''-'' # fmtF d)" "num_ok (CHR ''-'' # fmtE d)"
  using fmtF_literal [OF assms] fmtE_literal [OF assms] literal_value literal_num_ok by metis+

lemma literal_sign_digits: "num_ok s \<Longrightarrow> hd s \<noteq> CHR ''-'' \<Longrightarrow> literal_sign s = (False, s)"
  by (simp add: literal_sign_def)

lemma number_value_neg: "hd s \<noteq> CHR ''-'' \<Longrightarrow> number_value (CHR ''-'' # s) = - number_value s"
  by (simp add: number_value_def literal_sign_def Let_def split: prod.splits)

lemma fmt_hd: "0 < fst d \<Longrightarrow> hd (fmtF d) \<noteq> CHR ''-''" "0 < fst d \<Longrightarrow> hd (fmtE d) \<noteq> CHR ''-''"
proof -
  have "hd (literal i f x) \<noteq> CHR ''-''" if "list_all is_digit i" "i \<noteq> []" for i f x
    using that by (cases i) (auto simp: literal_def)
  then show "0 < fst d \<Longrightarrow> hd (fmtF d) \<noteq> CHR ''-''" "0 < fst d \<Longrightarrow> hd (fmtE d) \<noteq> CHR ''-''"
    using fmtF_literal [of d] fmtE_literal [of d] by metis+
qed

lemma f32_round_neg: "f32_round (- q) = map_option uminus (f32_round q)"
proof (cases "q = 0")
  case True
  have "f32_round 0 = Some 0" by code_simp
  with True show ?thesis by simp
next
  case False
  then show ?thesis by (auto simp: f32_round_def Let_def split: option.splits)
qed

lemma ulp_exp_range: "ulp_exp a = Some k \<Longrightarrow> -149 \<le> k"
  unfolding ulp_exp_def find_Some_iff by (metis atLeastAtMost_iff nth_mem set_upto)

lemma is_f32_dyadic:
  assumes "is_f32 v"
  shows "\<exists>n j. v = of_int n * 2 ^ j / 2 ^ 149"
proof -
  from assms obtain k where k: "ulp_exp \<bar>v\<bar> = Some k"
    and v: "v = (if v < 0 then - (of_int (round_even (\<bar>v\<bar> / power_int 2 k)) * power_int 2 k)
                 else of_int (round_even (\<bar>v\<bar> / power_int 2 k)) * power_int 2 k)"
    by (auto simp: is_f32_def f32_round_def Let_def split: option.splits if_splits)
  define r where "r = round_even (\<bar>v\<bar> / power_int 2 k)"
  define j where "j = nat (k + 149)"
  have "k = int j - 149" using ulp_exp_range [OF k] by (simp add: j_def)
  then have "(power_int 2 k :: rat) = 2 ^ j / 2 ^ 149" by (simp add: power_int_diff)
  with v have "v = of_int (if v < 0 then - r else r) * 2 ^ j / 2 ^ 149"
    unfolding r_def [symmetric] by (auto split: if_splits)
  then show ?thesis by blast
qed

lemma exact_decimal_value:
  assumes "is_f32 v" and "0 < v"
  shows "dec_value (exact_decimal v) = v" and "0 < fst (exact_decimal v)"
proof -
  from is_f32_dyadic [OF assms(1)] obtain n j where v: "v = of_int n * 2 ^ j / 2 ^ 149" by blast
  have "v * 10 ^ 149 = of_int (n * 2 ^ j * 5 ^ 149)"
    unfolding v by (simp add: power_mult_distrib [of 2 5 149, symmetric, simplified] field_simps)
  then have fl: "of_int \<lfloor>v * 10 ^ 149\<rfloor> = v * 10 ^ 149" by (metis floor_of_int)
  then show "dec_value (exact_decimal v) = v"
    by (simp add: exact_decimal_def dec_value_def power_int_minus field_simps)
  have "0 < v * 10 ^ 149" using assms(2) by simp
  then have "0 < (of_int \<lfloor>v * 10 ^ 149\<rfloor> :: rat)" unfolding fl .
  then show "0 < fst (exact_decimal v)" by (simp add: exact_decimal_def)
qed

lemma shortest_decimal_value:
  assumes "is_f32 v" and "0 < v"
  shows "f32_round (dec_value (shortest_decimal v)) = Some v \<and> 0 < fst (shortest_decimal v)"
proof (cases "find (\<lambda>d. 0 < fst d \<and> f32_round (dec_value d) = Some v) (concat (map (neighbours v) [1..9]))")
  case None
  have "shortest_decimal v = strip_zeros (fst (exact_decimal v)) (snd (exact_decimal v))"
    unfolding shortest_decimal_def None by simp
  then show ?thesis
    using exact_decimal_value [OF assms] assms(1) by (simp add: dec_value_strip strip_zeros_pos is_f32_def)
next
  case (Some d)
  have "0 < fst d" "f32_round (dec_value d) = Some v" using Some by (auto simp: find_Some_iff)
  moreover have "shortest_decimal v = strip_zeros (fst d) (snd d)"
    unfolding shortest_decimal_def Some by simp
  ultimately show ?thesis by (simp add: dec_value_strip strip_zeros_pos)
qed

lemma float32_text_value:
  assumes "is_f32 v"
  shows "num_ok (float32_text v) \<and> f32_round (number_value (float32_text v)) = Some v"
proof (cases "v = 0")
  case True
  have "num_ok ''0'' \<and> f32_round (number_value ''0'') = Some 0" by code_simp
  with True show ?thesis by (simp add: float32_text_def)
next
  case False
  define a where "a = \<bar>v\<bar>"
  have a: "is_f32 a" "0 < a"
    using assms False f32_round_neg [of v] by (auto simp: is_f32_def a_def abs_if)
  note sh = shortest_decimal_value [OF a]
  define t where "t = (if a < 1 / 10 ^ 6 \<or> a \<ge> 10 ^ 21 then fmtE (shortest_decimal a) else fmtF (shortest_decimal a))"
  have t: "num_ok t" "num_ok (CHR ''-'' # t)" "f32_round (number_value t) = Some a" "hd t \<noteq> CHR ''-''"
    using sh fmt_value [of "shortest_decimal a"] fmt_hd [of "shortest_decimal a"] by (auto simp: t_def)
  have "float32_text v = (if v < 0 then CHR ''-'' # t else t)"
    unfolding float32_text_def Let_def a_def [symmetric] t_def [symmetric] using False by simp
  moreover have "f32_round (number_value (CHR ''-'' # t)) = Some (- a)"
    using t by (simp add: number_value_neg f32_round_neg)
  ultimately show ?thesis using t by (auto simp: a_def)
qed

lemma set_float32_text [simp]: "is_f32 v \<Longrightarrow> set_float32 (json_print (JNum (float32_text v))) w = Some v"
  using json_parse_print [of "JNum (float32_text v)"] float32_text_value [of v] by (simp add: set_float32_def)

lemma Itoa_value:
  assumes "- (2 ^ 63) \<le> n" and "n < 2 ^ 63"
  shows "num_ok (Itoa n) \<and> ParseInt64 (Itoa n) = Some n"
proof -
  define ds where "ds = show_nat \<bar>n\<bar>"
  have ds: "list_all is_digit ds" "ds \<noteq> []" "digits_val ds = \<bar>n\<bar>"
    by (simp_all add: ds_def show_nat_digits show_nat_nonempty show_nat_value)
  have zero: "ds = ''0'' \<or> hd ds \<noteq> CHR ''0''"
    using show_nat_hd [of "\<bar>n\<bar>"] by (cases "n = 0") (auto simp: ds_def show_nat_digit digit_0)
  have hd: "hd ds \<noteq> CHR ''-''" using list_all_hd [OF ds(1,2)] by auto
  have itoa: "Itoa n = (if n < 0 then CHR ''-'' # ds else ds)" by (simp add: Itoa_def ds_def)
  have "literal ds [] None = ds" by (simp add: literal_def)
  then have "num_ok (Itoa n)"
    using literal_num_ok [OF ds(1,2) zero, of "[]" None] itoa by simp
  moreover have "ParseInt64 (Itoa n) = Some n"
    using ds hd assms by (simp add: itoa ParseInt64_def literal_sign_def Let_def)
  ultimately show ?thesis ..
qed

lemma set_int64_text [simp]: "- (2 ^ 63) \<le> n \<Longrightarrow> n < 2 ^ 63 \<Longrightarrow> set_int64 (json_print (JNum (Itoa n))) w = Some n"
  using json_parse_print [of "JNum (Itoa n)"] Itoa_value [of n] by (simp add: set_int64_def)

text \<open>Normal numbers: 24 significant bits and an exponent in range.\<close>

lemma find_first:
  assumes "sorted_wrt (<) xs" and "k \<in> set xs" and "P k" and "\<And>j. j \<in> set xs \<Longrightarrow> j < k \<Longrightarrow> \<not> P j"
  shows "find P xs = Some (k :: int)"
  using assms by (induction xs) force+

lemma is_f32_normal:
  assumes m: "2 ^ 23 \<le> m" "m < 2 ^ 24" and k: "-149 \<le> k" "k \<le> 104"
  shows "is_f32 (of_int m * power_int 2 k)"
proof -
  define v :: rat where "v = of_int m * power_int 2 k"
  have lo: "power_int 2 (k + 23) \<le> v" and hi: "v < power_int 2 (k + 24)"
  proof -
    have "(of_int (2 ^ 23) :: rat) \<le> of_int m" "of_int m < (of_int (2 ^ 24) :: rat)"
      using m by (simp_all only: of_int_le_iff of_int_less_iff)
    then have "(2 ^ 23 :: rat) \<le> of_int m" "of_int m < (2 ^ 24 :: rat)" by simp_all
    then have "2 ^ 23 * power_int 2 k \<le> v" "v < 2 ^ 24 * power_int 2 k"
      unfolding v_def by (intro mult_right_mono mult_strict_right_mono; simp)+
    then show "power_int 2 (k + 23) \<le> v" "v < power_int 2 (k + 24)" by (simp_all add: power_int_add mult.commute)
  qed
  have pos: "0 < v" using lo by (rule less_le_trans [rotated]) simp
  have "find (\<lambda>j. v < power_int 2 (j + 24)) [-149..104] = Some k"
  proof (rule find_first)
    fix j :: int
    assume "j < k"
    then have "(power_int 2 (j + 24) :: rat) \<le> power_int 2 (k + 23)" by (intro power_int_increasing) auto
    with lo show "\<not> v < power_int 2 (j + 24)" by linarith
  next
    show "sorted_wrt (<) [-149..(104 :: int)]" by (rule sorted_wrt_upto)
    show "k \<in> set [-149..104]" unfolding set_upto using k by (simp only: atLeastAtMost_iff)
  qed (rule hi)
  then have ulp: "ulp_exp \<bar>v\<bar> = Some k" using pos by (simp add: ulp_exp_def)
  have "\<bar>v\<bar> / power_int 2 k = of_int m" using pos by (simp add: v_def)
  then have r: "round_even (\<bar>v\<bar> / power_int 2 k) = m" by (simp add: round_even_def Let_def)
  have "(power_int 2 (k + 24) :: rat) \<le> power_int 2 128" using k by (intro power_int_increasing) auto
  then have "\<not> v \<ge> 2 ^ 128" using hi by (simp add: power_int_def)
  then have "f32_round v = Some v" using pos ulp r by (simp add: f32_round_def Let_def v_def)
  then show ?thesis by (simp add: is_f32_def v_def)
qed

lemma is_f32_0: "is_f32 0"
  unfolding is_f32_def by code_simp

end
