(* ===== verification/Http.thy ===== *)
theory Http
  imports Auth Rate_Limit Go_Number
begin

text \<open>
  HTTP handlers and the middleware around them (\<^verbatim>\<open>internal/server/middleware.go\<close>, the middleware of
  \<^verbatim>\<open>ratelimit.go\<close> and of \<^verbatim>\<open>internal/observability/metrics.go\<close>). A handler maps a request and a state
  to what it did with the response writer, in order, and the next state; a panic is part of the result.
  The theory is generic in the state of the handlers.
\<close>

section \<open>Requests and replies\<close>

text \<open>\<open>rq_Segments\<close> is the decoded path, cut at the slashes; \<open>rq_Query\<close> is \<^verbatim>\<open>URL.Query().Get\<close>.\<close>

record Request =
  rq_Method :: string
  rq_Segments :: "string list"
  rq_Header :: "string \<Rightarrow> string list"
  rq_Query :: "string \<Rightarrow> string"
  rq_RemoteAddr :: string
  rq_Body :: string

definition header_Get :: "Request \<Rightarrow> string \<Rightarrow> string" where
  "header_Get r name = (case rq_Header r name of [] \<Rightarrow> [] | v # _ \<Rightarrow> v)"

datatype action = SetHeader string string | WriteHeader int | Write string

record reply =
  rp_actions :: "action list"
  rp_panic :: "string option"
  rp_pattern :: string

type_synonym 's handler = "Request \<Rightarrow> 's \<Rightarrow> reply \<times> 's"

text \<open>The reply of a handler that returns.\<close>

definition reply :: "action list \<Rightarrow> reply" where
  "reply as = \<lparr> rp_actions = as, rp_panic = None, rp_pattern = [] \<rparr>"

definition panicking :: "string \<Rightarrow> reply" where
  "panicking m = \<lparr> rp_actions = [], rp_panic = Some m, rp_pattern = [] \<rparr>"

lemma reply_simps [simp]:
  "rp_actions (reply as) = as" "rp_panic (reply as) = None" "rp_pattern (reply as) = []"
  "rp_actions (panicking m) = []" "rp_panic (panicking m) = Some m" "rp_pattern (panicking m) = []"
  by (simp_all add: reply_def panicking_def)

text \<open>What net/http sends: the status of the first \<^verbatim>\<open>WriteHeader\<close>, 200 if a body or nothing comes first.\<close>

fun sent_status :: "action list \<Rightarrow> int" where
  "sent_status [] = 200"
| "sent_status (SetHeader _ _ # as) = sent_status as"
| "sent_status (WriteHeader code # as) = code"
| "sent_status (Write _ # as) = 200"

fun sent_body :: "action list \<Rightarrow> string" where
  "sent_body [] = []"
| "sent_body (Write s # as) = s @ sent_body as"
| "sent_body (_ # as) = sent_body as"

text \<open>
  What \<^verbatim>\<open>responseWriter\<close> and \<^verbatim>\<open>captureWriter\<close> hold after these actions: both store the code of every
  \<^verbatim>\<open>WriteHeader\<close> and pass the call on.
\<close>

fun captured_status :: "int \<Rightarrow> action list \<Rightarrow> int" where
  "captured_status s [] = s"
| "captured_status s (WriteHeader code # as) = captured_status code as"
| "captured_status s (_ # as) = captured_status s as"

lemma captured_append [simp]: "captured_status s (as @ bs) = captured_status (captured_status s as) bs"
  by (induction s as rule: captured_status.induct) auto

section \<open>Writing a response\<close>

text \<open>
  \<^verbatim>\<open>json.NewEncoder(w).Encode(v)\<close> writes the JSON text of \<open>v\<close> and a newline, or nothing when
  marshalling fails; \<open>v\<close> stands for that text.
\<close>

definition encode_body :: "string option \<Rightarrow> action list" where
  "encode_body v = (case v of Some j \<Rightarrow> [Write (j @ [CHR 0x0A])] | None \<Rightarrow> [])"

definition writeJSON :: "int \<Rightarrow> string option \<Rightarrow> action list" where
  "writeJSON status v = [SetHeader ''Content-Type'' ''application/json'', WriteHeader status] @ encode_body v"

definition writeError :: "int \<Rightarrow> string \<Rightarrow> action list" where
  "writeError status msg = writeJSON status (Some (print_members [(''error'', json_print (JStr msg))]))"

lemma written_status [simp]:
  "sent_status (writeJSON status v) = status" "captured_status s (writeJSON status v) = status"
  "sent_status (writeError status msg) = status" "captured_status s (writeError status msg) = status"
  by (auto simp: writeJSON_def writeError_def encode_body_def split: option.splits)

section \<open>Middleware\<close>

definition maxRequestBytes :: nat where
  "maxRequestBytes = 1048576"

text \<open>A read past the limit fails, so a handler sees at most that much of the body.\<close>

definition maxBytesMiddleware :: "'s handler \<Rightarrow> 's handler" where
  "maxBytesMiddleware next r s = next (r \<lparr> rq_Body := take maxRequestBytes (rq_Body r) \<rparr>) s"

definition recoveryMiddleware :: "'s handler \<Rightarrow> 's handler" where
  "recoveryMiddleware next r s =
     (let (rp, s') = next r s
      in case rp_panic rp of
           None \<Rightarrow> (rp, s')
         | Some m \<Rightarrow> (rp \<lparr> rp_actions := rp_actions rp @ writeError 500 ''internal server error'', rp_panic := None \<rparr>, s'))"

text \<open>A line of the access log: method, path, status, duration, remote address.\<close>

type_synonym log_line = "string \<times> string list \<times> int \<times> duration \<times> string"

definition loggingMiddleware ::
    "time \<Rightarrow> time \<Rightarrow> (log_line \<Rightarrow> 's \<Rightarrow> 's) \<Rightarrow> 's handler \<Rightarrow> 's handler" where
  "loggingMiddleware start finish put_log next r s =
     (let (rp, s') = next r s
      in case rp_panic rp of
           None \<Rightarrow> (rp, put_log (rq_Method r, rq_Segments r, captured_status 200 (rp_actions rp), finish - start, rq_RemoteAddr r) s')
         | Some _ \<Rightarrow> (rp, s'))"

definition requireAuth :: "jwt_lib \<Rightarrow> Manager \<Rightarrow> time \<Rightarrow> Role \<Rightarrow> (Claims \<Rightarrow> 's handler) \<Rightarrow> 's handler" where
  "requireAuth lib jwtMgr now requiredRole next r s =
     (let hdr = header_Get r ''Authorization''
      in if hdr = [] then (reply (writeError 401 ''authorization header required''), s)
         else if \<not> HasPrefix hdr ''Bearer '' then (reply (writeError 401 ''missing bearer token''), s)
         else case Validate lib jwtMgr now (TrimPrefix hdr ''Bearer '') of
           Err _ \<Rightarrow> (reply (writeError 401 ''invalid or expired token''), s)
         | Panic m \<Rightarrow> (panicking m, s)
         | Ok claims \<Rightarrow>
             if requiredRole \<noteq> [] \<and> cl_Role claims \<noteq> requiredRole
             then (reply (writeError 403 ''insufficient role''), s)
             else next claims r s)"

text \<open>
  \<^verbatim>\<open>net.SplitHostPort\<close>: the host before the last colon, without the brackets of an IPv6 address;
  none when there is no port, when an unbracketed host has a colon, or when a bracket is misplaced.
\<close>

definition split_last_colon :: "string \<Rightarrow> (string \<times> string) option" where
  "split_last_colon s =
     (if CHR '':'' \<in> set s
      then Some (rev (tl (dropWhile (\<lambda>ch. ch \<noteq> CHR '':'') (rev s))), rev (takeWhile (\<lambda>ch. ch \<noteq> CHR '':'') (rev s)))
      else None)"

definition SplitHostPort :: "string \<Rightarrow> string option" where
  "SplitHostPort hostport =
     (case split_last_colon hostport of
        None \<Rightarrow> None
      | Some (before, port) \<Rightarrow>
          if HasPrefix hostport ''['' then
            (let host = takeWhile (\<lambda>ch. ch \<noteq> CHR '']'') (tl hostport)
             in if before = ''['' @ host @ '']'' \<and> CHR ''['' \<notin> set host \<and> CHR ''['' \<notin> set port \<and> CHR '']'' \<notin> set port
                then Some host else None)
          else if CHR '':'' \<in> set before \<or> CHR ''['' \<in> set hostport \<or> CHR '']'' \<in> set hostport then None
          else Some before)"

definition clientIP :: "Request \<Rightarrow> string" where
  "clientIP r = (case SplitHostPort (rq_RemoteAddr r) of Some host \<Rightarrow> host | None \<Rightarrow> rq_RemoteAddr r)"

text \<open>\<open>get\<close> and \<open>put\<close> reach the limiter in the state.\<close>

definition rateLimit ::
    "time \<Rightarrow> ('s \<Rightarrow> keyedRateLimiter) \<Rightarrow> (keyedRateLimiter \<Rightarrow> 's \<Rightarrow> 's) \<Rightarrow> 's handler \<Rightarrow> 's handler" where
  "rateLimit now get put next r s =
     (let (ok, l) = allow (get s) now (clientIP r); s' = put l s
      in if \<not> ok then (reply (SetHeader ''Retry-After'' ''1'' # writeError 429 ''rate limit exceeded''), s')
         else next r s')"

section \<open>Metrics\<close>

record Metrics =
  httpRequestsTotal :: "(string \<times> string \<times> string, nat) gomap"
  httpRequestDuration :: "(string \<times> string, duration list) gomap"
  HeartbeatsTotal :: nat
  WSMessagesRejectedTotal :: nat

text \<open>Registering six collectors of different names in a fresh registry does not fail.\<close>

definition NewMetrics :: Metrics where
  "NewMetrics = \<lparr> httpRequestsTotal = [], httpRequestDuration = [], HeartbeatsTotal = 0, WSMessagesRejectedTotal = 0 \<rparr>"

definition IncHeartbeat :: "Metrics \<Rightarrow> Metrics" where
  "IncHeartbeat m = m \<lparr> HeartbeatsTotal := Suc (HeartbeatsTotal m) \<rparr>"

definition IncWSMessageRejected :: "Metrics \<Rightarrow> Metrics" where
  "IncWSMessageRejected m = m \<lparr> WSMessagesRejectedTotal := Suc (WSMessagesRejectedTotal m) \<rparr>"

definition httpMethodLabel :: "string \<Rightarrow> string" where
  "httpMethodLabel method = (if method = ''GET'' \<or> method = ''POST'' then method else ''other'')"

definition counter :: "('k, nat) gomap \<Rightarrow> 'k \<Rightarrow> nat" where
  "counter m k = (case map_of m k of Some n \<Rightarrow> n | None \<Rightarrow> 0)"

text \<open>The deferred function of the metrics middleware.\<close>

definition record_request :: "string \<Rightarrow> string \<Rightarrow> int \<Rightarrow> duration \<Rightarrow> Metrics \<Rightarrow> Metrics" where
  "record_request method pattern status d m =
     (let route = (if pattern = [] then ''unmatched'' else pattern);
          k = (method, route, Itoa status); k2 = (method, route)
      in m \<lparr> httpRequestsTotal := AList.update k (Suc (counter (httpRequestsTotal m) k)) (httpRequestsTotal m),
             httpRequestDuration := AList.update k2
               (d # (case map_of (httpRequestDuration m) k2 of Some ds \<Rightarrow> ds | None \<Rightarrow> [])) (httpRequestDuration m) \<rparr>)"

definition Metrics_Middleware ::
    "time \<Rightarrow> time \<Rightarrow> ((Metrics \<Rightarrow> Metrics) \<Rightarrow> 's \<Rightarrow> 's) \<Rightarrow> 's handler \<Rightarrow> 's handler" where
  "Metrics_Middleware start finish upd next r s =
     (let (rp, s') = next r s
      in (rp, upd (record_request (httpMethodLabel (rq_Method r)) (rp_pattern rp) (captured_status 200 (rp_actions rp)) (finish - start)) s'))"

section \<open>The chain\<close>

text \<open>\<open>t0\<close> to \<open>t3\<close> are the clock readings of the two measuring layers.\<close>

definition wrapMiddleware ::
    "(nat \<Rightarrow> time) \<Rightarrow> ((Metrics \<Rightarrow> Metrics) \<Rightarrow> 's \<Rightarrow> 's) \<Rightarrow> (log_line \<Rightarrow> 's \<Rightarrow> 's) \<Rightarrow> 's handler \<Rightarrow> 's handler" where
  "wrapMiddleware t upd put_log next =
     loggingMiddleware (t 0) (t 3) put_log
       (Metrics_Middleware (t 1) (t 2) upd
         (recoveryMiddleware
           (maxBytesMiddleware next)))"

end
