(* ===== verification/Messages.thy ===== *)
theory Messages
  imports Go_Number
begin

text \<open>
  The WebSocket protocol (\<^verbatim>\<open>internal/ws/message.go\<close>): an envelope with a type, an optional request
  id and a payload that is kept as the text it arrived in.
\<close>

type_synonym MessageType = string

definition TypeHeartbeat :: MessageType where "TypeHeartbeat = ''heartbeat''"
definition TypeDiagRequest :: MessageType where "TypeDiagRequest = ''diag_request''"
definition TypeDiagResponse :: MessageType where "TypeDiagResponse = ''diag_response''"
definition TypeError :: MessageType where "TypeError = ''error''"

lemmas type_defs = TypeHeartbeat_def TypeDiagRequest_def TypeDiagResponse_def TypeError_def

record Envelope =
  env_Type :: MessageType
  env_RequestID :: string
  env_Data :: string

record HeartbeatData =
  CPUPercent :: rat
  MemoryPercent :: rat
  DiskPercent :: rat
  UptimeSeconds :: int
  OSVersion :: string

record DiagRequestData =
  Scope :: string

record ErrorData =
  Message :: string

section \<open>Encoding\<close>

definition heartbeat_json :: "HeartbeatData \<Rightarrow> json" where
  "heartbeat_json d = JObj
     [(''cpuPercent'', JNum (float32_text (CPUPercent d))), (''memoryPercent'', JNum (float32_text (MemoryPercent d))),
      (''diskPercent'', JNum (float32_text (DiskPercent d))), (''uptimeSeconds'', JNum (Itoa (UptimeSeconds d))),
      (''osVersion'', JStr (OSVersion d))]"

definition diag_request_json :: "DiagRequestData \<Rightarrow> json" where
  "diag_request_json d = JObj [(''scope'', JStr (Scope d))]"

definition error_json :: "ErrorData \<Rightarrow> json" where
  "error_json d = JObj [(''message'', JStr (Message d))]"

text \<open>
  \<^verbatim>\<open>json.Marshal\<close> of an envelope: an empty request id and an empty payload are left out. The
  payload is an output of \<^verbatim>\<open>json.Marshal\<close>, so compacting it changes nothing.
\<close>

definition marshal_envelope :: "Envelope \<Rightarrow> string" where
  "marshal_envelope e = print_members
     ((''type'', json_print (JStr (env_Type e)))
      # (if env_RequestID e = [] then [] else [(''requestId'', json_print (JStr (env_RequestID e)))])
      @ (if env_Data e = [] then [] else [(''data'', env_Data e)]))"

text \<open>\<open>data\<close> is what \<^verbatim>\<open>json.Marshal\<close> makes of the payload, or its error.\<close>

definition Encode :: "MessageType \<Rightarrow> string \<Rightarrow> json res \<Rightarrow> string res" where
  "Encode msgType requestID data =
     (case data of
        Ok j \<Rightarrow> Ok (marshal_envelope \<lparr> env_Type = msgType, env_RequestID = requestID, env_Data = json_print j \<rparr>)
      | Err e \<Rightarrow> Err e
      | Panic m \<Rightarrow> Panic m)"

definition EncodeError :: "string \<Rightarrow> string \<Rightarrow> string res" where
  "EncodeError requestID message = Encode TypeError requestID (Ok (error_json \<lparr> Message = message \<rparr>))"

section \<open>Decoding\<close>

definition unmarshal_envelope :: "string \<Rightarrow> Envelope option" where
  "unmarshal_envelope raw = do {
     ms \<leftarrow> struct_members raw;
     ty \<leftarrow> read_field ''type'' set_string ms [];
     r \<leftarrow> read_field ''requestId'' set_string ms [];
     d \<leftarrow> read_field ''data'' set_raw ms [];
     Some \<lparr> env_Type = ty, env_RequestID = r, env_Data = d \<rparr> }"

definition unmarshal_heartbeat :: "string \<Rightarrow> HeartbeatData option" where
  "unmarshal_heartbeat raw = do {
     ms \<leftarrow> struct_members raw;
     cpu \<leftarrow> read_field ''cpuPercent'' set_float32 ms 0;
     mem \<leftarrow> read_field ''memoryPercent'' set_float32 ms 0;
     disk \<leftarrow> read_field ''diskPercent'' set_float32 ms 0;
     up \<leftarrow> read_field ''uptimeSeconds'' set_int64 ms 0;
     os \<leftarrow> read_field ''osVersion'' set_string ms [];
     Some \<lparr> CPUPercent = cpu, MemoryPercent = mem, DiskPercent = disk, UptimeSeconds = up, OSVersion = os \<rparr> }"

definition unmarshal_diag_request :: "string \<Rightarrow> DiagRequestData option" where
  "unmarshal_diag_request raw = do {
     ms \<leftarrow> struct_members raw;
     sc \<leftarrow> read_field ''scope'' set_string ms [];
     Some \<lparr> Scope = sc \<rparr> }"

section \<open>Round trips\<close>

definition heartbeat_ok :: "HeartbeatData \<Rightarrow> bool" where
  "heartbeat_ok d \<longleftrightarrow> is_f32 (CPUPercent d) \<and> is_f32 (MemoryPercent d) \<and> is_f32 (DiskPercent d) \<and>
     - (2 ^ 63) \<le> UptimeSeconds d \<and> UptimeSeconds d < 2 ^ 63"

lemma json_print_obj: "json_print (JObj kvs) = print_members (map (apsnd json_print) kvs)"
  by (rule print_members_obj [symmetric])

lemma struct_members_obj: "json_wf (JObj kvs) \<Longrightarrow> struct_members (json_print (JObj kvs)) = Some (map (apsnd json_print) kvs)"
  unfolding json_print_obj by (rule struct_members_print) auto

lemma heartbeat_json_wf: "heartbeat_ok d \<Longrightarrow> json_wf (heartbeat_json d)"
  by (simp add: heartbeat_json_def heartbeat_ok_def float32_text_value Itoa_value)

lemma envelope_names [simp]:
  "fold_name ''type'' = ''TYPE''" "fold_name ''requestId'' = ''REQUESTID''" "fold_name ''data'' = ''DATA''"
  "fold_name ''scope'' = ''SCOPE''"
  by (subst fold_name_ascii, code_simp, code_simp)+

lemma heartbeat_names:
  "fold_name ''cpuPercent'' = ''CPUPERCENT''" "fold_name ''memoryPercent'' = ''MEMORYPERCENT''"
  "fold_name ''diskPercent'' = ''DISKPERCENT''" "fold_name ''uptimeSeconds'' = ''UPTIMESECONDS''"
  "fold_name ''osVersion'' = ''OSVERSION''"
  by (subst fold_name_ascii, code_simp, code_simp)+

lemma heartbeat_names_differ:
  "''CPUPERCENT'' \<noteq> ''MEMORYPERCENT''" "''CPUPERCENT'' \<noteq> ''DISKPERCENT''" "''CPUPERCENT'' \<noteq> ''UPTIMESECONDS''"
  "''CPUPERCENT'' \<noteq> ''OSVERSION''" "''MEMORYPERCENT'' \<noteq> ''DISKPERCENT''" "''MEMORYPERCENT'' \<noteq> ''UPTIMESECONDS''"
  "''MEMORYPERCENT'' \<noteq> ''OSVERSION''" "''DISKPERCENT'' \<noteq> ''UPTIMESECONDS''" "''DISKPERCENT'' \<noteq> ''OSVERSION''"
  "''UPTIMESECONDS'' \<noteq> ''OSVERSION''"
  by simp_all

lemma unmarshal_heartbeat_json:
  assumes ok: "heartbeat_ok d"
  shows "unmarshal_heartbeat (json_print (heartbeat_json d)) = Some d"
proof -
  note members = struct_members_obj [OF heartbeat_json_wf [OF ok, unfolded heartbeat_json_def]]
  have f: "is_f32 (CPUPercent d)" "is_f32 (MemoryPercent d)" "is_f32 (DiskPercent d)"
    and i: "- (2 ^ 63) \<le> UptimeSeconds d" "UptimeSeconds d < 2 ^ 63"
    using ok unfolding heartbeat_ok_def by blast+
  note sets = f [THEN set_float32_text] set_int64_text [OF i] set_string_print
  show ?thesis
    unfolding unmarshal_heartbeat_def heartbeat_json_def members
    by (simp only: Option.bind.bind_lunit list.map apsnd_conv read_field.simps heartbeat_names heartbeat_names_differ
        heartbeat_names_differ [symmetric] if_True if_False sets HeartbeatData.surjective)
      simp
qed

lemma unmarshal_diag_request_json: "unmarshal_diag_request (json_print (diag_request_json d)) = Some d"
  using struct_members_obj [of "[(''scope'', JStr (Scope d))]"]
  unfolding unmarshal_diag_request_def diag_request_json_def by (simp del: json_print.simps)

lemma json_print_nonempty: "json_wf j \<Longrightarrow> json_print j \<noteq> []"
  using json_print_starts [of j] by (auto simp: starts_value_def)

lemma unmarshal_Encode:
  assumes "json_wf j" and "Encode ty r (Ok j) = Ok raw"
  shows "unmarshal_envelope raw = Some \<lparr> env_Type = ty, env_RequestID = r, env_Data = json_print j \<rparr>"
proof -
  let ?kvs = "(''type'', JStr ty) # (if r = [] then [] else [(''requestId'', JStr r)]) @ [(''data'', j)]"
  have raw: "raw = print_members (map (apsnd json_print) ?kvs)"
    using assms json_print_nonempty [OF assms(1)] by (cases "r = []") (auto simp: Encode_def marshal_envelope_def)
  have "struct_members raw = Some (map (apsnd json_print) ?kvs)"
    unfolding raw by (rule struct_members_print) (use assms(1) in \<open>auto split: if_splits\<close>)
  then show ?thesis
    by (simp add: unmarshal_envelope_def set_raw_def del: json_print.simps)
qed

section \<open>Properties\<close>

text \<open>C24: Every message that \<^verbatim>\<open>Encode\<close> builds is read back by the other side as it was sent: the envelope
  has the same type, request id and payload text, a heartbeat payload decodes to the same float32
  and int64 values, and a diagnostic request to the same scope.\<close>

theorem wire_roundtrip:
  assumes "json_wf j" and "heartbeat_ok d"
  shows "(\<exists>raw. Encode ty r (Ok j) = Ok raw \<and>
      unmarshal_envelope raw = Some \<lparr> env_Type = ty, env_RequestID = r, env_Data = json_print j \<rparr>) \<and>
    (\<exists>raw e. Encode ty r (Ok (heartbeat_json d)) = Ok raw \<and> unmarshal_envelope raw = Some e \<and>
      env_Type e = ty \<and> env_RequestID e = r \<and> unmarshal_heartbeat (env_Data e) = Some d) \<and>
    (\<exists>raw e. Encode ty r (Ok (diag_request_json q)) = Ok raw \<and> unmarshal_envelope raw = Some e \<and>
      env_Type e = ty \<and> env_RequestID e = r \<and> unmarshal_diag_request (env_Data e) = Some q)"
proof -
  have enc: "\<exists>raw. Encode ty r (Ok x) = Ok raw \<and>
      unmarshal_envelope raw = Some \<lparr> env_Type = ty, env_RequestID = r, env_Data = json_print x \<rparr>" if "json_wf x" for x
  proof -
    obtain raw where "Encode ty r (Ok x) = Ok raw" by (simp add: Encode_def)
    with unmarshal_Encode [OF that this] show ?thesis by blast
  qed
  have "json_wf (diag_request_json q)" by (simp add: diag_request_json_def)
  from enc [OF assms(1)] enc [OF heartbeat_json_wf [OF assms(2)]] enc [OF this] show ?thesis
    using unmarshal_heartbeat_json [OF assms(2)] unmarshal_diag_request_json [of q] by fastforce
qed

theorem wire_roundtrip_witness:
  "\<exists>raw e. Encode TypeHeartbeat [] (Ok (heartbeat_json \<lparr> CPUPercent = 25 / 2, MemoryPercent = 6376653 / 65536, DiskPercent = 0,
       UptimeSeconds = 86400, OSVersion = ''linux 6.1'' \<rparr>)) = Ok raw \<and> unmarshal_envelope raw = Some e \<and>
     env_Type e = TypeHeartbeat \<and> unmarshal_heartbeat (env_Data e) = Some \<lparr> CPUPercent = 25 / 2, MemoryPercent = 6376653 / 65536,
       DiskPercent = 0, UptimeSeconds = 86400, OSVersion = ''linux 6.1'' \<rparr>"
  (is "\<exists>raw e. Encode _ _ (Ok (heartbeat_json ?d)) = _ \<and> _")
proof -
  have "is_f32 (25 / 2)" "is_f32 (6376653 / 65536)"
    using is_f32_normal [of 13107200 "-20"] is_f32_normal [of 12753306 "-17"] by (simp_all add: power_int_minus field_simps)
  then have "heartbeat_ok ?d" by (simp add: heartbeat_ok_def is_f32_0)
  moreover have "json_wf JNull" by simp
  ultimately show ?thesis
    using wire_roundtrip [of JNull ?d TypeHeartbeat "[]", THEN conjunct2, THEN conjunct1] by blast
qed

end
