(* ===== verification/Broadcaster.thy ===== *)
theory Broadcaster
  imports Go_Json
begin

text \<open>
  The fan-out of events to the subscribers of \<^verbatim>\<open>GET /api/v1/events\<close>
  (\<^verbatim>\<open>internal/server/broadcaster.go\<close>). Each method runs under the mutex, so a run of the
  broadcaster is a sequence of whole operations; a receive on a channel is an operation too. A
  subscriber reads what was published since it subscribed, in order, less what was dropped while
  its buffer was full.
\<close>

section \<open>State and operations\<close>

text \<open>The payload of an event is what \<^verbatim>\<open>json.Marshal\<close> makes of it.\<close>

record Event =
  ev_Type :: string
  ev_Payload :: json

text \<open>
  A subscriber's channel is made by \<^verbatim>\<open>Subscribe\<close>, named by the subscriber's id, and read only until
  that subscriber unsubscribes: its buffer is kept under the id.
\<close>

record Broadcaster =
  subs :: "(string, Event list) gomap"

definition chan_cap :: nat where
  "chan_cap = 32"

definition NewBroadcaster :: Broadcaster where
  "NewBroadcaster = \<lparr> subs = [] \<rparr>"

text \<open>\<open>i\<close> is the fresh uuid of the subscriber.\<close>

definition Subscribe :: "string \<Rightarrow> Broadcaster \<Rightarrow> Broadcaster" where
  "Subscribe i b = b \<lparr> subs := AList.update i [] (subs b) \<rparr>"

definition unsub :: "string \<Rightarrow> Broadcaster \<Rightarrow> Broadcaster" where
  "unsub i b = b \<lparr> subs := AList.delete i (subs b) \<rparr>"

text \<open>A send in a select with a default: into the buffer if there is room, else nothing.\<close>

definition offer :: "Event \<Rightarrow> Event list \<Rightarrow> Event list" where
  "offer e buf = (if length buf < chan_cap then buf @ [e] else buf)"

definition Publish :: "Event \<Rightarrow> Broadcaster \<Rightarrow> Broadcaster" where
  "Publish e b = b \<lparr> subs := map (\<lambda>(i, buf). (i, offer e buf)) (subs b) \<rparr>"

definition Broadcaster_Count :: "Broadcaster \<Rightarrow> nat" where
  "Broadcaster_Count b = length (subs b)"

text \<open>A receive by the subscriber; on an empty buffer it would block, so nothing changes.\<close>

definition receive :: "string \<Rightarrow> Broadcaster \<Rightarrow> Event option \<times> Broadcaster" where
  "receive i b =
     (case map_of (subs b) i of
        Some (e # buf) \<Rightarrow> (Some e, b \<lparr> subs := AList.update i buf (subs b) \<rparr>)
      | _ \<Rightarrow> (None, b))"

section \<open>Runs\<close>

datatype bcast_op = OpSubscribe string | OpUnsub string | OpPublish Event | OpReceive string

fun bcast_step :: "bcast_op \<Rightarrow> Broadcaster \<Rightarrow> Broadcaster" where
  "bcast_step (OpSubscribe i) b = Subscribe i b"
| "bcast_step (OpUnsub i) b = unsub i b"
| "bcast_step (OpPublish e) b = Publish e b"
| "bcast_step (OpReceive i) b = snd (receive i b)"

fun bcast_run :: "bcast_op list \<Rightarrow> Broadcaster \<Rightarrow> Broadcaster" where
  "bcast_run [] b = b"
| "bcast_run (op # ops) b = bcast_run ops (bcast_step op b)"

text \<open>What subscriber \<open>i\<close> reads in a run, and what is published in it.\<close>

fun received :: "string \<Rightarrow> bcast_op list \<Rightarrow> Broadcaster \<Rightarrow> Event list" where
  "received i [] b = []"
| "received i (op # ops) b =
     (if op = OpReceive i then (case fst (receive i b) of Some e \<Rightarrow> [e] | None \<Rightarrow> []) else [])
     @ received i ops (bcast_step op b)"

fun published :: "bcast_op list \<Rightarrow> Event list" where
  "published [] = []"
| "published (OpPublish e # ops) = e # published ops"
| "published (op # ops) = published ops"

text \<open>Subscriber \<open>i\<close> keeps its subscription: it neither leaves nor subscribes again.\<close>

definition stays :: "string \<Rightarrow> bcast_op list \<Rightarrow> bool" where
  "stays i ops \<longleftrightarrow> OpSubscribe i \<notin> set ops \<and> OpUnsub i \<notin> set ops"

definition buffer :: "string \<Rightarrow> Broadcaster \<Rightarrow> Event list" where
  "buffer i b = (case map_of (subs b) i of Some buf \<Rightarrow> buf | None \<Rightarrow> [])"

text \<open>No event finds the subscriber's buffer full.\<close>

fun never_full :: "string \<Rightarrow> bcast_op list \<Rightarrow> Broadcaster \<Rightarrow> bool" where
  "never_full i [] b = True"
| "never_full i (op # ops) b =
     (((\<exists>e. op = OpPublish e) \<longrightarrow> length (buffer i b) < chan_cap) \<and> never_full i ops (bcast_step op b))"

section \<open>The invariant\<close>

definition bcast_inv :: "Broadcaster \<Rightarrow> bool" where
  "bcast_inv b \<longleftrightarrow> gomap_ok (subs b) \<and> (\<forall>(i, buf) \<in> set (subs b). length buf \<le> chan_cap)"

lemma map_of_offer: "map_of (map (\<lambda>(i, buf). (i, offer e buf)) m) i = map_option (offer e) (map_of m i)"
  by (induction m) auto

lemma length_offer: "length buf \<le> chan_cap \<Longrightarrow> length (offer e buf) \<le> chan_cap"
  by (simp add: offer_def)

lemma gomap_ok_map_snd: "gomap_ok (map (\<lambda>(i, v). (i, f v)) m) = gomap_ok m"
  by (simp add: gomap_ok_def comp_def case_prod_unfold)

lemma bcast_inv_iff: "bcast_inv b \<longleftrightarrow> gomap_ok (subs b) \<and> (\<forall>i buf. map_of (subs b) i = Some buf \<longrightarrow> length buf \<le> chan_cap)"
  by (auto simp: bcast_inv_def set_of_map_of)

lemma bcast_inv_new [inv_intros]: "bcast_inv NewBroadcaster"
  by (simp add: bcast_inv_def NewBroadcaster_def)

lemma bcast_inv_step [inv_intros]: "bcast_inv b \<Longrightarrow> bcast_inv (bcast_step op b)"
proof (induction op b rule: bcast_step.induct)
  case (3 e b)
  then show ?case
    by (auto simp: bcast_inv_iff Publish_def gomap_ok_map_snd map_of_offer length_offer)
next
  case (4 i b)
  show ?case
  proof (cases "map_of (subs b) i")
    case (Some buf)
    with 4 have "length buf \<le> chan_cap" by (auto simp: bcast_inv_iff)
    with Some 4 show ?thesis
      by (cases buf) (auto simp: bcast_inv_iff receive_def)
  qed (use 4 in \<open>simp add: receive_def\<close>)
qed (auto simp: bcast_inv_iff Subscribe_def unsub_def)

lemma bcast_inv_run [inv_intros]: "bcast_inv b \<Longrightarrow> bcast_inv (bcast_run ops b)"
  by (induction ops b rule: bcast_run.induct) (auto intro: bcast_inv_step)

section \<open>One subscriber's view\<close>

lemma buffer_step:
  assumes "stays i [op]" and "map_of (subs b) i \<noteq> None"
  shows "map_of (subs (bcast_step op b)) i \<noteq> None"
    and "buffer i (bcast_step op b) =
      (case op of OpPublish e \<Rightarrow> offer e (buffer i b) | OpReceive j \<Rightarrow> if j = i then tl (buffer i b) else buffer i b | _ \<Rightarrow> buffer i b)"
  using assms
  by (cases op; auto simp: stays_def buffer_def Subscribe_def unsub_def Publish_def receive_def map_of_offer
      split: option.splits list.splits)+

lemma receive_first: "fst (receive i b) = (case buffer i b of [] \<Rightarrow> None | e # _ \<Rightarrow> Some e)"
  by (auto simp: receive_def buffer_def split: option.splits list.splits)

lemma stays_ConsD: "stays i (op # ops) \<Longrightarrow> stays i [op]" "stays i (op # ops) \<Longrightarrow> stays i ops"
  by (auto simp: stays_def)

lemma run_keeps_sub: "stays i ops \<Longrightarrow> map_of (subs b) i \<noteq> None \<Longrightarrow> map_of (subs (bcast_run ops b)) i \<noteq> None"
proof (induction ops b rule: bcast_run.induct)
  case (2 op ops b)
  from 2(1) [OF stays_ConsD(2) [OF 2(2)] buffer_step(1) [OF stays_ConsD(1) [OF 2(2)] 2(3)]] show ?case by simp
qed simp

lemma fifo:
  assumes "stays i ops" and "map_of (subs b) i \<noteq> None"
  shows "\<exists>kept. subseq kept (published ops) \<and> (never_full i ops b \<longrightarrow> kept = published ops) \<and>
    received i ops b @ buffer i (bcast_run ops b) = buffer i b @ kept"
  using assms
proof (induction ops b rule: bcast_run.induct)
  case (1 b)
  then show ?case by simp
next
  case (2 op ops b)
  note st = stays_ConsD [OF 2(2)]
  note step = buffer_step [OF st(1) 2(3)]
  from 2(1) [OF st(2) step(1)] obtain kept where kept: "subseq kept (published ops)"
    "never_full i ops (bcast_step op b) \<longrightarrow> kept = published ops"
    "received i ops (bcast_step op b) @ buffer i (bcast_run ops (bcast_step op b)) = buffer i (bcast_step op b) @ kept"
    by blast
  show ?case
  proof (cases op)
    case (OpPublish e)
    show ?thesis
    proof (cases "length (buffer i b) < chan_cap")
      case True
      with kept OpPublish step(2) show ?thesis
        by (intro exI [of _ "e # kept"]) (auto simp: offer_def)
    next
      case False
      with kept OpPublish step(2) show ?thesis
        by (intro exI [of _ kept]) (auto simp: offer_def)
    qed
  next
    case (OpReceive j)
    with kept step(2) show ?thesis
      by (intro exI [of _ kept]) (auto simp: receive_first split: list.splits)
  qed (use kept step(2) in \<open>auto intro!: exI [of _ kept]\<close>)
qed

section \<open>Properties\<close>

text \<open>C25: In every run of the broadcaster each buffer holds at most 32 events, and a subscriber that
  keeps its subscription reads, together with what is still in its buffer, exactly a
  subsequence of what was published since it subscribed: nothing is reordered, repeated or made
  up. If no event found its buffer full, nothing is missing.\<close>

theorem broadcaster_fifo:
  assumes "stays i ops"
  shows "let b = bcast_run before NewBroadcaster; b0 = Subscribe i b; b1 = bcast_run ops b0 in
    (\<forall>(j, buf) \<in> set (subs b1). length buf \<le> 32) \<and> Broadcaster_Count b0 \<le> Suc (Broadcaster_Count b) \<and>
    subseq (received i ops b0 @ buffer i b1) (published ops) \<and>
    (never_full i ops b0 \<longrightarrow> received i ops b0 @ buffer i b1 = published ops)"
proof -
  define b where "b = bcast_run before NewBroadcaster"
  define b0 where "b0 = Subscribe i b"
  have inv: "bcast_inv b" unfolding b_def by (intro inv_intros)
  have "bcast_step (OpSubscribe i) b = b0" by (simp add: b0_def)
  with inv have "bcast_inv b0" by (metis bcast_inv_step)
  then have "bcast_inv (bcast_run ops b0)" by (rule inv_intros)
  moreover have "map_of (subs b0) i \<noteq> None" and "buffer i b0 = []" by (simp_all add: b0_def Subscribe_def buffer_def)
  moreover have "Broadcaster_Count b0 \<le> Suc (Broadcaster_Count b)"
  proof -
    have "length (AList.update i v m) \<le> Suc (length m)" for v and m :: "(string, Event list) gomap"
      by (induction m) auto
    then show ?thesis by (simp add: b0_def Subscribe_def Broadcaster_Count_def)
  qed
  ultimately show ?thesis
    using fifo [OF assms, of b0] unfolding b_def [symmetric] b0_def [symmetric] Let_def
    by (auto simp: bcast_inv_def chan_cap_def)
qed

theorem broadcaster_fifo_witness:
  "let e = (\<lambda>n. \<lparr> ev_Type = ''device.connected'', ev_Payload = JNum [n] \<rparr>);
       ops = [OpPublish (e CHR ''1''), OpReceive ''s'', OpPublish (e CHR ''2''), OpReceive ''t''];
       b0 = Subscribe ''s'' (bcast_run [OpSubscribe ''t'', OpPublish (e CHR ''0'')] NewBroadcaster)
   in received ''s'' ops b0 @ buffer ''s'' (bcast_run ops b0) = [e CHR ''1'', e CHR ''2'']"
proof -
  let ?e = "\<lambda>n. \<lparr> ev_Type = ''device.connected'', ev_Payload = JNum [n] \<rparr>"
  let ?ops = "[OpPublish (?e CHR ''1''), OpReceive ''s'', OpPublish (?e CHR ''2''), OpReceive ''t'']"
  let ?b0 = "Subscribe ''s'' (bcast_run [OpSubscribe ''t'', OpPublish (?e CHR ''0'')] NewBroadcaster)"
  have "stays ''s'' ?ops" by (simp add: stays_def)
  moreover have "never_full ''s'' ?ops ?b0"
    by (simp add: buffer_def Subscribe_def Publish_def receive_def NewBroadcaster_def offer_def chan_cap_def)
  ultimately have "received ''s'' ?ops ?b0 @ buffer ''s'' (bcast_run ?ops ?b0) = published ?ops"
    using broadcaster_fifo [of "''s''" ?ops "[OpSubscribe ''t'', OpPublish (?e CHR ''0'')]"] unfolding Let_def by blast
  then show ?thesis unfolding Let_def by (simp only: published.simps)
qed

end
