(* ===== verification/Responses.thy ===== *)
theory Responses
  imports Model Messages Broadcaster
begin

text \<open>
  The JSON texts of the values the server answers with (\<^verbatim>\<open>internal/model/device.go\<close>): what
  \<^verbatim>\<open>json.Marshal\<close> prints for each struct under its field tags, or \<open>None\<close> where it fails.
\<close>

section \<open>Pieces\<close>

text \<open>\<^verbatim>\<open>Time.MarshalJSON\<close> fails on a year outside 0 to 9999.\<close>

definition time_text :: "time \<Rightarrow> string option" where
  "time_text t = (if year_ok t then Some (json_print (JStr (Format_RFC3339Nano t))) else None)"

definition string_text :: "string \<Rightarrow> string option" where
  "string_text s = Some (json_print (JStr s))"

definition object_text :: "(string \<times> string option) list \<Rightarrow> string option" where
  "object_text kvs =
     (if \<exists>kv \<in> set kvs. snd kv = None then None else Some (print_members (map (\<lambda>(k, v). (k, the v)) kvs)))"

text \<open>A slice; the nil slice prints as null.\<close>

definition slice_text :: "('a \<Rightarrow> string option) \<Rightarrow> 'a list \<Rightarrow> string option" where
  "slice_text f xs =
     (if xs = [] then Some ''null''
      else if \<exists>x \<in> set xs. f x = None then None
      else Some (''['' @ join_with CHR '','' (map (\<lambda>x. the (f x)) xs) @ '']''))"

text \<open>
  A \<^verbatim>\<open>json.RawMessage\<close> is checked and compacted: white space outside strings goes, and inside
  strings the characters that HTML treats specially and the line separators are escaped.
\<close>

fun compact_text :: "bool \<Rightarrow> string \<Rightarrow> string" where
  "compact_text instr [] = []"
| "compact_text False (ch # s) =
     (if is_ws ch then compact_text False s else ch # compact_text (ch = quote_char) s)"
| "compact_text True (ch # s) =
     (if ch = backslash then (case s of [] \<Rightarrow> [ch] | x # s' \<Rightarrow> ch # x # compact_text True s')
      else if ch = quote_char then ch # compact_text False s
      else if ch = CHR ''<'' \<or> ch = CHR ''>'' \<or> ch = CHR 0x26 then esc_char ch @ compact_text True s
      else if HasPrefix (ch # s) [CHR 0xE2, CHR 0x80, CHR 0xA8] then backslash # ''u2028'' @ compact_text True (drop 2 s)
      else if HasPrefix (ch # s) [CHR 0xE2, CHR 0x80, CHR 0xA9] then backslash # ''u2029'' @ compact_text True (drop 2 s)
      else ch # compact_text True s)"

definition raw_text :: "string \<Rightarrow> string option" where
  "raw_text raw = (if json_parse raw = None then None else Some (compact_text False raw))"

section \<open>Structs\<close>

definition device_fields :: "Device \<Rightarrow> (string \<times> string option) list" where
  "device_fields d =
     [(''id'', string_text (dev_ID d)), (''name'', string_text (dev_Name d)), (''os'', string_text (dev_OS d)),
      (''arch'', string_text (dev_Arch d)), (''status'', string_text (dev_Status d)),
      (''registeredAt'', time_text (dev_RegisteredAt d))]
     @ (case dev_LastSeenAt d of None \<Rightarrow> [] | Some t \<Rightarrow> [(''lastSeenAt'', time_text t)])"

definition Device_text :: "Device \<Rightarrow> string option" where
  "Device_text d = object_text (device_fields d)"

definition Heartbeat_text :: "Heartbeat \<Rightarrow> string option" where
  "Heartbeat_text h = object_text
     [(''id'', Some (Itoa (hb_ID h))), (''deviceId'', string_text (hb_DeviceID h)), (''receivedAt'', time_text (hb_ReceivedAt h)),
      (''cpuPercent'', Some (float32_text (hb_CPUPercent h))), (''memoryPercent'', Some (float32_text (hb_MemoryPercent h))),
      (''diskPercent'', Some (float32_text (hb_DiskPercent h))), (''uptimeSeconds'', Some (Itoa (hb_UptimeSeconds h))),
      (''osVersion'', string_text (hb_OSVersion h))]"

definition DiagnosticResult_text :: "DiagnosticResult \<Rightarrow> string option" where
  "DiagnosticResult_text g = object_text
     ([(''id'', Some (Itoa (diag_ID g))), (''deviceId'', string_text (diag_DeviceID g)), (''requestId'', string_text (diag_RequestID g)),
       (''scope'', string_text (diag_Scope g)), (''requestedAt'', time_text (diag_RequestedAt g))]
      @ (case diag_ReceivedAt g of None \<Rightarrow> [] | Some t \<Rightarrow> [(''receivedAt'', time_text t)])
      @ (case diag_Payload g of None \<Rightarrow> [] | Some p \<Rightarrow> [(''payload'', raw_text p)])
      @ [(''status'', string_text (diag_Status g))])"

text \<open>The embedded device's fields come first.\<close>

definition DeviceDetail_text :: "DeviceDetail \<Rightarrow> string option" where
  "DeviceDetail_text d = object_text
     (device_fields (detail_Device d) @ [(''recentHeartbeats'', slice_text Heartbeat_text (detail_RecentHeartbeats d))])"

definition DeviceList_text :: "DeviceList \<Rightarrow> string option" where
  "DeviceList_text l = object_text
     ((''devices'', slice_text Device_text (list_Devices l))
      # (if list_NextCursor l = [] then [] else [(''nextCursor'', string_text (list_NextCursor l))]))"

definition RegisterResponse_text :: "RegisterResponse \<Rightarrow> string option" where
  "RegisterResponse_text r =
     object_text [(''deviceId'', string_text (resp_DeviceID r)), (''token'', string_text (resp_Token r))]"

definition Event_text :: "Event \<Rightarrow> string option" where
  "Event_text e = object_text [(''type'', string_text (ev_Type e)), (''payload'', Some (json_print (ev_Payload e)))]"

text \<open>The request the agent sends.\<close>

definition register_json :: "RegisterRequest \<Rightarrow> json" where
  "register_json req = JObj [(''name'', JStr (req_Name req)), (''os'', JStr (req_OS req)), (''arch'', JStr (req_Arch req)),
     (''secret'', JStr (req_Secret req))]"

lemma string_text_neq [simp]: "string_text s \<noteq> None"
  by (simp add: string_text_def)

lemma Device_text_defined:
  "year_ok (dev_RegisteredAt d) \<Longrightarrow> (\<forall>t. dev_LastSeenAt d = Some t \<longrightarrow> year_ok t) \<Longrightarrow> Device_text d \<noteq> None"
  by (auto simp: Device_text_def object_text_def device_fields_def time_text_def string_text_def split: option.splits)

lemma Event_text_defined [simp]: "Event_text e \<noteq> None"
  by (simp add: Event_text_def object_text_def)

end
