(* ===== verification/Go_Duration.thy ===== *)
theory Go_Duration
  imports Go_Calendar
begin

text \<open>
  \<^verbatim>\<open>time.ParseDuration\<close> and \<^verbatim>\<open>Duration.String\<close> of Go's package time, which read and print the
  durations of the configuration. The fraction of a value, a float64 in Go, is an exact quotient
  here. Every result of the parser is an int64.
\<close>

section \<open>Reading\<close>

text \<open>\<^verbatim>\<open>leadingInt\<close>: the integer at the start, unless it overflows, and the rest.\<close>

fun leadingInt :: "int \<Rightarrow> string \<Rightarrow> (int \<times> string) option" where
  "leadingInt x [] = Some (x, [])"
| "leadingInt x (ch # s) =
     (if \<not> is_digit ch then Some (x, ch # s)
      else if x > 2 ^ 63 div 10 then None
      else let x' = x * 10 + dval ch in if x' > 2 ^ 63 then None else leadingInt x' s)"

text \<open>\<^verbatim>\<open>leadingFraction\<close>: the digits after the point, their scale, and the rest; digits that no longer fit are skipped.\<close>

fun leadingFraction :: "bool \<Rightarrow> int \<Rightarrow> int \<Rightarrow> string \<Rightarrow> int \<times> int \<times> string" where
  "leadingFraction overflow x scale [] = (x, scale, [])"
| "leadingFraction overflow x scale (ch # s) =
     (if \<not> is_digit ch then (x, scale, ch # s)
      else if overflow \<or> x > (2 ^ 63 - 1) div 10 then leadingFraction True x scale s
      else let y = x * 10 + dval ch
           in if y > 2 ^ 63 then leadingFraction True x scale s
              else leadingFraction False y (scale * 10) s)"

text \<open>The units, the micro sign and the Greek letter mu in UTF-8.\<close>

definition unitMap :: "string \<Rightarrow> int option" where
  "unitMap = map_of
     [(''ns'', 1), (''us'', 1000), ([CHR 0xC2, CHR 0xB5, CHR ''s''], 1000), ([CHR 0xCE, CHR 0xBC, CHR ''s''], 1000),
      (''ms'', 1000000), (''s'', second), (''m'', minute), (''h'', hour)]"

definition number_char :: "char \<Rightarrow> bool" where
  "number_char ch \<longleftrightarrow> ch = CHR ''.'' \<or> is_digit ch"

definition has_point :: "string \<Rightarrow> bool" where
  "has_point s \<longleftrightarrow> s \<noteq> [] \<and> hd s = CHR ''.''"

text \<open>One number with its unit: the nanoseconds it stands for and the rest.\<close>

definition duration_part :: "string \<Rightarrow> (int \<times> string) option" where
  "duration_part s =
     (if s = [] \<or> \<not> number_char (hd s) then None
      else case leadingInt 0 s of
        None \<Rightarrow> None
      | Some (v, s1) \<Rightarrow>
          (let (f, scale, s2) = (if has_point s1 then leadingFraction False 0 1 (tl s1) else (0, 1, s1));
               digits_before = s1 \<noteq> s;
               digits_after = (has_point s1 \<and> s2 \<noteq> tl s1);
               u = takeWhile (\<lambda>ch. \<not> number_char ch) s2;
               rest = dropWhile (\<lambda>ch. \<not> number_char ch) s2
           in if \<not> digits_before \<and> \<not> digits_after then None
              else case unitMap u of
                None \<Rightarrow> None
              | Some unit \<Rightarrow>
                  if v > 2 ^ 63 div unit then None
                  else let w = v * unit + f * unit div scale
                       in if w > 2 ^ 63 then None else Some (w, rest)))"

lemma unitMap_Nil [simp]: "unitMap [] = None"
  by (simp add: unitMap_def)

lemma leadingInt_rest: "leadingInt x s = Some (v, r) \<Longrightarrow> length r \<le> length s"
  by (induction x s rule: leadingInt.induct) (auto simp: Let_def split: if_splits)

lemma leadingFraction_rest: "leadingFraction ov x sc s = (f, scale, r) \<Longrightarrow> length r \<le> length s"
  by (induction ov x sc s rule: leadingFraction.induct) (auto simp: Let_def split: if_splits)

lemma duration_part_shorter:
  assumes "duration_part s = Some (w, rest)"
  shows "length rest < length s"
proof -
  from assms obtain v s1 where lead: "leadingInt 0 s = Some (v, s1)"
    by (auto simp: duration_part_def split: if_splits option.splits)
  obtain f scale s2 where frac: "(if has_point s1 then leadingFraction False 0 1 (tl s1) else (0, 1, s1)) = (f, scale, s2)"
    by (metis prod_cases3)
  have le: "length s2 \<le> length s1"
    using frac leadingFraction_rest [of False 0 1 "tl s1" f scale s2] by (auto split: if_splits)
  have "takeWhile (\<lambda>ch. \<not> number_char ch) s2 \<noteq> []" and "rest = dropWhile (\<lambda>ch. \<not> number_char ch) s2"
    using assms unfolding duration_part_def lead option.case prod.case Let_def frac
    by (auto split: if_splits option.splits)
  then have "length rest < length s2"
    by (metis length_append length_greater_0_conv less_add_same_cancel2 takeWhile_dropWhile_id)
  with le leadingInt_rest [OF lead] show ?thesis by simp
qed

text \<open>The loop over the parts: \<open>d\<close> is the sum so far, a uint64.\<close>

function duration_parts :: "int \<Rightarrow> string \<Rightarrow> int option" where
  "duration_parts d s =
     (if s = [] then Some d
      else case duration_part s of
        None \<Rightarrow> None
      | Some (v, rest) \<Rightarrow>
          let d' = (d + v) mod 2 ^ 64 in if d' > 2 ^ 63 then None else duration_parts d' rest)"
  by pat_completeness auto
termination
  by (relation "measure (\<lambda>(d, s). length s)") (auto simp: duration_part_shorter)

declare duration_parts.simps [simp del]

definition ParseDuration :: "string \<Rightarrow> duration option" where
  "ParseDuration orig =
     (let signed = orig \<noteq> [] \<and> (hd orig = CHR ''-'' \<or> hd orig = CHR ''+'');
          neg = (signed \<and> hd orig = CHR ''-'');
          s = (if signed then tl orig else orig)
      in if s = ''0'' then Some 0
         else if s = [] then None
         else case duration_parts 0 s of
           None \<Rightarrow> None
         | Some d \<Rightarrow> if neg then Some (- d) else if d > 2 ^ 63 - 1 then None else Some d)"

section \<open>Printing\<close>

text \<open>\<^verbatim>\<open>fmtFrac\<close>: the point and \<open>prec\<close> digits, without trailing zeros.\<close>

definition fmtFrac :: "int \<Rightarrow> nat \<Rightarrow> string" where
  "fmtFrac v prec =
     (let ds = rev (dropWhile (\<lambda>ch. ch = CHR ''0'') (rev (append_int v prec)))
      in if ds = [] then [] else CHR ''.'' # ds)"

definition Duration_String :: "duration \<Rightarrow> string" where
  "Duration_String d =
     (let u = \<bar>d\<bar>; sign = (if d < 0 then ''-'' else [])
      in if u = 0 then ''0s''
         else if u < 1000 then sign @ show_nat u @ ''ns''
         else if u < 1000000 then sign @ show_nat (u div 1000) @ fmtFrac (u mod 1000) 3 @ [CHR 0xC2, CHR 0xB5, CHR ''s'']
         else if u < second then sign @ show_nat (u div 1000000) @ fmtFrac (u mod 1000000) 6 @ ''ms''
         else let s = u div second; f = fmtFrac (u mod second) 9
              in if s < 60 then sign @ show_nat s @ f @ ''s''
                 else let m = s div 60
                      in if m < 60 then sign @ show_nat m @ ''m'' @ show_nat (s mod 60) @ f @ ''s''
                         else sign @ show_nat (m div 60) @ ''h'' @ show_nat (m mod 60) @ ''m'' @ show_nat (s mod 60) @ f @ ''s'')"

section \<open>Bounds\<close>

lemma dval_nonneg: "is_digit ch \<Longrightarrow> 0 \<le> dval ch"
proof -
  assume "is_digit ch"
  then have "(48 :: nat) \<le> of_char ch" by (simp add: is_digit_def)
  then have "int 48 \<le> int (of_char ch :: nat)" by (simp only: of_nat_le_iff)
  then have "48 \<le> (of_char ch :: int)" by (simp only: of_nat_of_char of_nat_numeral)
  then show ?thesis by (simp add: dval_def)
qed

lemma leadingInt_nonneg: "leadingInt x s = Some (v, r) \<Longrightarrow> 0 \<le> x \<Longrightarrow> 0 \<le> v"
  by (induction x s rule: leadingInt.induct) (auto simp: Let_def dval_nonneg split: if_splits)

lemma leadingFraction_nonneg:
  "leadingFraction ov x sc s = (f, scale, r) \<Longrightarrow> 0 \<le> x \<Longrightarrow> 0 < sc \<Longrightarrow> 0 \<le> f \<and> 0 < scale"
  by (induction ov x sc s rule: leadingFraction.induct) (auto simp: Let_def dval_nonneg split: if_splits)

lemma unitMap_pos: "unitMap u = Some unit \<Longrightarrow> 0 < unit"
  by (auto simp: unitMap_def duration_defs split: if_splits)

lemma duration_part_nonneg:
  assumes "duration_part s = Some (w, rest)"
  shows "0 \<le> w"
proof -
  from assms obtain v s1 where lead: "leadingInt 0 s = Some (v, s1)"
    by (auto simp: duration_part_def split: if_splits option.splits)
  obtain f scale s2 where frac: "(if has_point s1 then leadingFraction False 0 1 (tl s1) else (0, 1, s1)) = (f, scale, s2)"
    by (metis prod_cases3)
  have f: "0 \<le> f \<and> 0 < scale"
    using frac leadingFraction_nonneg [of False 0 1 "tl s1" f scale s2] by (auto split: if_splits)
  obtain unit where "unitMap (takeWhile (\<lambda>ch. \<not> number_char ch) s2) = Some unit" and w: "w = v * unit + f * unit div scale"
    using assms unfolding duration_part_def lead option.case prod.case Let_def frac
    by (auto split: if_splits option.splits)
  then have "0 < unit" by (auto dest: unitMap_pos)
  with f leadingInt_nonneg [OF lead] show ?thesis
    unfolding w by (simp add: pos_imp_zdiv_nonneg_iff)
qed

lemma duration_parts_range: "duration_parts d s = Some r \<Longrightarrow> 0 \<le> d \<Longrightarrow> d \<le> 2 ^ 63 \<Longrightarrow> 0 \<le> r \<and> r \<le> 2 ^ 63"
proof (induction d s rule: duration_parts.induct)
  case (1 d s)
  show ?case
  proof (cases "s = []")
    case True
    with 1 show ?thesis by (simp add: duration_parts.simps)
  next
    case False
    with 1(2) obtain v rest where part: "duration_part s = Some (v, rest)" and le: "(d + v) mod 2 ^ 64 \<le> 2 ^ 63"
      and "duration_parts ((d + v) mod 2 ^ 64) rest = Some r"
      by (subst (asm) duration_parts.simps) (auto simp: Let_def split: option.splits if_splits)
    with 1(1) [OF False part refl refl] show ?thesis by simp
  qed
qed

lemma ParseDuration_int64:
  assumes "ParseDuration s = Some d"
  shows "- (2 ^ 63) \<le> d \<and> d < 2 ^ 63"
  using assms unfolding ParseDuration_def Let_def
  by (auto split: if_splits option.splits dest!: duration_parts_range)

end
