(* ===== verification/Config.thy ===== *)
theory Config
  imports Go_Duration
begin

text \<open>
  The server's configuration (\<^verbatim>\<open>internal/config\<close>): read from the environment, a function from
  names to values, with defaults, and validated before use.
\<close>

type_synonym environ = "string \<Rightarrow> string option"

record Config =
  HTTPAddr :: string
  TLSCertFile :: string
  TLSKeyFile :: string
  DatabaseURL :: string
  DBPath :: string
  JWTSecret :: string
  AdminSecret :: string
  DeviceTokenExpiry :: duration
  AdminTokenExpiry :: duration
  HeartbeatTimeout :: duration
  DiagnosticTimeout :: duration
  AllowedOrigins :: "string list"
  LogFormat :: string
  LogLevel :: string
  OTelEndpoint :: string

section \<open>Reading the environment\<close>

definition env :: "environ \<Rightarrow> string \<Rightarrow> string \<Rightarrow> string" where
  "env e key fallback = (case e key of Some v \<Rightarrow> v | None \<Rightarrow> fallback)"

text \<open>\<^verbatim>\<open>os.Getenv\<close>\<close>

definition Getenv :: "environ \<Rightarrow> string \<Rightarrow> string" where
  "Getenv e key = (case e key of Some v \<Rightarrow> v | None \<Rightarrow> [])"

definition envDuration :: "environ \<Rightarrow> string \<Rightarrow> duration \<Rightarrow> duration res" where
  "envDuration e key fallback =
     (case e key of
        None \<Rightarrow> Ok fallback
      | Some v \<Rightarrow>
          (case ParseDuration v of
             None \<Rightarrow> Err (Wrap (''invalid duration '' @ v) (ErrText (''time: invalid duration '' @ v)))
           | Some d \<Rightarrow> Ok d))"

fun trimmed_parts :: "string list \<Rightarrow> string list \<Rightarrow> string list" where
  "trimmed_parts [] out = out"
| "trimmed_parts (part # parts) out =
     (let p = TrimSpace part in if p \<noteq> [] then trimmed_parts parts (out @ [p]) else trimmed_parts parts out)"

definition splitAndTrim :: "string \<Rightarrow> string list" where
  "splitAndTrim s = (if s = [] then [] else trimmed_parts (split_on (CHR '','') s) [])"

definition TLSEnabled :: "Config \<Rightarrow> bool" where
  "TLSEnabled c \<longleftrightarrow> TLSCertFile c \<noteq> []"

section \<open>Validation\<close>

fun durations_positive :: "(string \<times> duration) list \<Rightarrow> unit res" where
  "durations_positive [] = Ok ()"
| "durations_positive ((name, value) # ds) =
     (if value \<le> 0 then Err (ErrText (''config: '' @ name @ '' must be positive, got '' @ Duration_String value))
      else durations_positive ds)"

definition validate :: "Config \<Rightarrow> unit res" where
  "validate c =
     (if (TLSCertFile c = []) \<noteq> (TLSKeyFile c = [])
      then Err (ErrText ''config: PULS_TLS_CERT and PULS_TLS_KEY must both be set or both be empty'')
      else if length (AdminSecret c) < 16
      then Err (ErrText ''config: PULS_ADMIN_SECRET must be at least 16 characters'')
      else if AdminSecret c = JWTSecret c
      then Err (ErrText ''config: PULS_ADMIN_SECRET must not equal PULS_JWT_SECRET'')
      else durations_positive
        [(''PULS_DEVICE_TOKEN_EXPIRY'', DeviceTokenExpiry c), (''PULS_ADMIN_TOKEN_EXPIRY'', AdminTokenExpiry c),
         (''PULS_HEARTBEAT_TIMEOUT'', HeartbeatTimeout c), (''PULS_DIAGNOSTIC_TIMEOUT'', DiagnosticTimeout c)])"

section \<open>Loading\<close>

fun bind_res :: "'a res \<Rightarrow> (goerr \<Rightarrow> goerr) \<Rightarrow> ('a \<Rightarrow> 'b res) \<Rightarrow> 'b res" where
  "bind_res (Ok v) f k = k v"
| "bind_res (Err e) f k = Err (f e)"
| "bind_res (Panic m) f k = Panic m"

definition Load :: "environ \<Rightarrow> Config res" where
  "Load e =
     bind_res (envDuration e ''PULS_DEVICE_TOKEN_EXPIRY'' (90 * 24 * hour)) (Wrap ''config: PULS_DEVICE_TOKEN_EXPIRY: %w'') (\<lambda>device_expiry.
     bind_res (envDuration e ''PULS_ADMIN_TOKEN_EXPIRY'' (24 * hour)) (Wrap ''config: PULS_ADMIN_TOKEN_EXPIRY: %w'') (\<lambda>admin_expiry.
     bind_res (envDuration e ''PULS_HEARTBEAT_TIMEOUT'' (90 * second)) (Wrap ''config: PULS_HEARTBEAT_TIMEOUT: %w'') (\<lambda>heartbeat.
     bind_res (envDuration e ''PULS_DIAGNOSTIC_TIMEOUT'' (60 * second)) (Wrap ''config: PULS_DIAGNOSTIC_TIMEOUT: %w'') (\<lambda>diagnostic.
       let c = \<lparr> HTTPAddr = env e ''PULS_HTTP_ADDR'' '':8080'',
                 TLSCertFile = env e ''PULS_TLS_CERT'' [],
                 TLSKeyFile = env e ''PULS_TLS_KEY'' [],
                 DatabaseURL = env e ''DATABASE_URL'' (env e ''PULS_DATABASE_URL'' []),
                 DBPath = env e ''PULS_DB_PATH'' '':memory:'',
                 JWTSecret = env e ''PULS_JWT_SECRET'' [],
                 AdminSecret = env e ''PULS_ADMIN_SECRET'' [],
                 DeviceTokenExpiry = device_expiry,
                 AdminTokenExpiry = admin_expiry,
                 HeartbeatTimeout = heartbeat,
                 DiagnosticTimeout = diagnostic,
                 AllowedOrigins = splitAndTrim (env e ''PULS_ALLOWED_ORIGINS'' []),
                 LogFormat = env e ''PULS_LOG_FORMAT'' ''json'',
                 LogLevel = env e ''PULS_LOG_LEVEL'' ''info'',
                 OTelEndpoint = env e ''PULS_OTEL_ENDPOINT'' (env e ''OTEL_EXPORTER_OTLP_ENDPOINT'' []) \<rparr>
       in bind_res (validate c) id (\<lambda>_. Ok c)))))"

section \<open>What a loaded configuration satisfies\<close>

definition config_ok :: "Config \<Rightarrow> bool" where
  "config_ok c \<longleftrightarrow>
     (TLSEnabled c \<longleftrightarrow> TLSKeyFile c \<noteq> []) \<and> 16 \<le> length (AdminSecret c) \<and> AdminSecret c \<noteq> JWTSecret c \<and>
     (\<forall>d \<in> {DeviceTokenExpiry c, AdminTokenExpiry c, HeartbeatTimeout c, DiagnosticTimeout c}. 0 < d)"

lemma bind_res_Ok_iff: "bind_res r f k = Ok v \<longleftrightarrow> (\<exists>a. r = Ok a \<and> k a = Ok v)"
  by (cases r) auto

lemma durations_positive_iff: "durations_positive ds = Ok () \<longleftrightarrow> (\<forall>(n, d) \<in> set ds. 0 < d)"
  by (induction ds rule: durations_positive.induct) auto

lemma validate_iff: "validate c = Ok () \<longleftrightarrow> config_ok c"
  by (auto simp: validate_def config_ok_def TLSEnabled_def durations_positive_iff)

lemma envDuration_range:
  assumes "envDuration e key fallback = Ok d" and "- (2 ^ 63) \<le> fallback" and "fallback < 2 ^ 63"
  shows "- (2 ^ 63) \<le> d \<and> d < 2 ^ 63"
  using assms by (auto simp: envDuration_def dest: ParseDuration_int64 split: option.splits)

lemma trimmed_parts_filter: "trimmed_parts ps out = out @ filter (\<lambda>p. p \<noteq> []) (map TrimSpace ps)"
  by (induction ps out rule: trimmed_parts.induct) (auto simp: Let_def)

text \<open>A trimmed text neither starts nor ends with white space.\<close>

definition has_space_end :: "string \<Rightarrow> bool" where
  "has_space_end s \<longleftrightarrow> (\<exists>r \<in> set space_runes. prefix r s \<or> suffix r s)"

lemma find_HasPrefix_None: "find (HasPrefix s) rs = None \<longleftrightarrow> (\<forall>r \<in> set rs. \<not> prefix r s)"
  by (auto simp: find_None_iff HasPrefix_iff prefix_def)

lemma space_runes_nonempty: "[] \<notin> set space_runes"
  by (simp add: space_runes_def)

lemma trim_left_clean:
  assumes "[] \<notin> set rs"
  shows "\<forall>r \<in> set rs. \<not> prefix r (trim_left rs s)"
  using trim_left_done [OF assms, of s "length s"] unfolding trim_left_def find_HasPrefix_None by simp

lemma trim_left_suffix: "suffix (trim_left rs s) s"
  using trim_left_fuel_suffix [of s rs "length s"] by (auto simp: trim_left_def suffix_def)

lemma TrimSpace_sublist: "set (TrimSpace s) \<subseteq> set s"
proof -
  have sub: "set (trim_left rs t) \<subseteq> set t" for rs t
    using trim_left_suffix [of rs t] by (rule set_mono_suffix)
  show ?thesis
    using sub [of "map rev space_runes" "rev (trim_left space_runes s)"] sub [of space_runes s]
    by (auto simp: TrimSpace_def)
qed

lemma TrimSpace_clean: "\<not> has_space_end (TrimSpace s)"
proof -
  let ?l = "trim_left space_runes s"
  let ?r = "trim_left (map rev space_runes) (rev ?l)"
  have left: "\<forall>r \<in> set space_runes. \<not> prefix r ?l"
    by (rule trim_left_clean [OF space_runes_nonempty])
  have right: "\<forall>r \<in> set (map rev space_runes). \<not> prefix r ?r"
    by (rule trim_left_clean) (use space_runes_nonempty in auto)
  have "suffix ?r (rev ?l)" by (rule trim_left_suffix)
  then have pre: "prefix (rev ?r) ?l" by (simp add: suffix_to_prefix)
  show ?thesis
    unfolding has_space_end_def TrimSpace_def
  proof (clarsimp, intro conjI)
    fix r
    assume r: "r \<in> set space_runes"
    show "\<not> prefix r (rev ?r)" using left r pre prefix_order.trans by blast
    show "\<not> suffix r (rev ?r)" using right r by (auto simp: suffix_to_prefix)
  qed
qed

section \<open>Properties\<close>

definition duration_keys :: "string set" where
  "duration_keys =
     {''PULS_DEVICE_TOKEN_EXPIRY'', ''PULS_ADMIN_TOKEN_EXPIRY'', ''PULS_HEARTBEAT_TIMEOUT'', ''PULS_DIAGNOSTIC_TIMEOUT''}"

lemma envDuration_Ok_iff:
  "envDuration e key fallback = Ok d \<longleftrightarrow>
     (case e key of None \<Rightarrow> d = fallback | Some v \<Rightarrow> ParseDuration v = Some d)"
  by (auto simp: envDuration_def split: option.splits)

lemma envDuration_positive_iff:
  "0 < fallback \<Longrightarrow>
     (\<exists>d. envDuration e key fallback = Ok d \<and> 0 < d) \<longleftrightarrow> (\<forall>v. e key = Some v \<longrightarrow> (\<exists>d. ParseDuration v = Some d \<and> 0 < d))"
  by (cases "e key") (auto simp: envDuration_Ok_iff)

lemma Load_Ok_iff:
  "Load e = Ok c \<longleftrightarrow>
     (\<exists>t a h g.
        envDuration e ''PULS_DEVICE_TOKEN_EXPIRY'' (90 * 24 * hour) = Ok t \<and>
        envDuration e ''PULS_ADMIN_TOKEN_EXPIRY'' (24 * hour) = Ok a \<and>
        envDuration e ''PULS_HEARTBEAT_TIMEOUT'' (90 * second) = Ok h \<and>
        envDuration e ''PULS_DIAGNOSTIC_TIMEOUT'' (60 * second) = Ok g \<and>
        c = \<lparr> HTTPAddr = env e ''PULS_HTTP_ADDR'' '':8080'', TLSCertFile = env e ''PULS_TLS_CERT'' [],
              TLSKeyFile = env e ''PULS_TLS_KEY'' [],
              DatabaseURL = env e ''DATABASE_URL'' (env e ''PULS_DATABASE_URL'' []),
              DBPath = env e ''PULS_DB_PATH'' '':memory:'', JWTSecret = env e ''PULS_JWT_SECRET'' [],
              AdminSecret = env e ''PULS_ADMIN_SECRET'' [], DeviceTokenExpiry = t, AdminTokenExpiry = a,
              HeartbeatTimeout = h, DiagnosticTimeout = g,
              AllowedOrigins = splitAndTrim (env e ''PULS_ALLOWED_ORIGINS'' []),
              LogFormat = env e ''PULS_LOG_FORMAT'' ''json'', LogLevel = env e ''PULS_LOG_LEVEL'' ''info'',
              OTelEndpoint = env e ''PULS_OTEL_ENDPOINT'' (env e ''OTEL_EXPORTER_OTLP_ENDPOINT'' []) \<rparr> \<and>
        config_ok c)"
proof -
  have unit: "(\<exists>a. validate c' = Ok a \<and> Ok c' = Ok c) \<longleftrightarrow> c' = c \<and> config_ok c" for c' :: Config
    using validate_iff [of c'] by (auto simp: unit_eq)
  show ?thesis
    unfolding Load_def bind_res_Ok_iff Let_def unit by blast
qed

lemma splitAndTrim_clean:
  assumes "p \<in> set (splitAndTrim s)"
  shows "p \<noteq> []" and "CHR '','' \<notin> set p" and "\<not> has_space_end p"
proof -
  from assms obtain q where q: "q \<in> set (split_on (CHR '','') s)" and p: "p = TrimSpace q" "p \<noteq> []"
    by (auto simp: splitAndTrim_def trimmed_parts_filter split: if_splits)
  show "p \<noteq> []" by (rule p)
  show "CHR '','' \<notin> set p" using split_on_no_sep [OF q] TrimSpace_sublist [of q] p by auto
  show "\<not> has_space_end p" using TrimSpace_clean p by simp
qed

lemma bind_res_no_panic: "(\<And>m. r \<noteq> Panic m) \<Longrightarrow> (\<And>v m. k v \<noteq> Panic m) \<Longrightarrow> bind_res r f k \<noteq> Panic m"
  by (cases r) auto

lemma envDuration_no_panic: "envDuration e key v \<noteq> Panic m"
  by (auto simp: envDuration_def split: option.splits)

lemma durations_positive_no_panic: "durations_positive ds \<noteq> Panic m"
  by (induction ds rule: durations_positive.induct) auto

lemma validate_no_panic: "validate c \<noteq> Panic m"
  using durations_positive_no_panic by (simp add: validate_def)

lemma Load_no_panic: "Load e \<noteq> Panic m"
  unfolding Load_def Let_def
  by (intro bind_res_no_panic envDuration_no_panic validate_no_panic) simp

text \<open>C27: A configuration that \<^verbatim>\<open>Load\<close> returns is usable: the certificate and the key are both given or
  both missing, the admin secret has at least 16 bytes and is not the signing key, every duration is
  positive and fits an int64, and the allowed origins are trimmed, non-empty and free of commas.\<close>

theorem load_valid:
  assumes "Load e = Ok c"
  shows "(TLSEnabled c \<longleftrightarrow> TLSKeyFile c \<noteq> []) \<and> 16 \<le> length (AdminSecret c) \<and> AdminSecret c \<noteq> JWTSecret c \<and>
    (\<forall>d \<in> {DeviceTokenExpiry c, AdminTokenExpiry c, HeartbeatTimeout c, DiagnosticTimeout c}. 0 < d \<and> d < 2 ^ 63) \<and>
    (\<forall>p \<in> set (AllowedOrigins c). p \<noteq> [] \<and> CHR '','' \<notin> set p \<and> \<not> has_space_end p)"
proof -
  have ok: "config_ok c" and origins: "\<exists>s. AllowedOrigins c = splitAndTrim s"
    using assms unfolding Load_Ok_iff by auto
  have bound: "\<forall>d \<in> {DeviceTokenExpiry c, AdminTokenExpiry c, HeartbeatTimeout c, DiagnosticTimeout c}. d < 2 ^ 63"
    using assms unfolding Load_Ok_iff by (auto dest: envDuration_range simp: duration_defs)
  have "\<forall>p \<in> set (AllowedOrigins c). p \<noteq> [] \<and> CHR '','' \<notin> set p \<and> \<not> has_space_end p"
    using origins by (auto dest: splitAndTrim_clean)
  with ok bound show ?thesis
    unfolding config_ok_def by simp
qed

text \<open>C28: \<^verbatim>\<open>Load\<close> accepts an environment exactly when every duration that is set parses to a positive value,
  the certificate and the key are both set or both empty, and the admin secret has at least 16 bytes and
  differs from the signing key; otherwise it returns an error, and it never panics.\<close>

theorem load_accepts_iff:
  "((\<exists>c. Load e = Ok c) \<longleftrightarrow>
     (\<forall>key \<in> duration_keys. \<forall>v. e key = Some v \<longrightarrow> (\<exists>d. ParseDuration v = Some d \<and> 0 < d)) \<and>
     (env e ''PULS_TLS_CERT'' [] = [] \<longleftrightarrow> env e ''PULS_TLS_KEY'' [] = []) \<and>
     16 \<le> length (env e ''PULS_ADMIN_SECRET'' []) \<and>
     env e ''PULS_ADMIN_SECRET'' [] \<noteq> env e ''PULS_JWT_SECRET'' []) \<and>
   (\<forall>m. Load e \<noteq> Panic m)"
proof
  have pos: "0 < 90 * 24 * hour" "0 < 24 * hour" "0 < 90 * second" "0 < 60 * second"
    by (simp_all add: duration_defs)
  note pos_iff = pos [THEN envDuration_positive_iff, symmetric]
  have four: "(\<exists>c t a h g. A t \<and> B a \<and> C h \<and> D g \<and> c = K t a h g \<and> ok c) \<longleftrightarrow>
      ((\<exists>t. A t \<and> 0 < t) \<and> (\<exists>a. B a \<and> 0 < a) \<and> (\<exists>h. C h \<and> 0 < h) \<and> (\<exists>g. D g \<and> 0 < g)) \<and> R"
    if "\<And>t a h g. ok (K t a h g) \<longleftrightarrow> R \<and> 0 < t \<and> 0 < a \<and> 0 < h \<and> 0 < g"
    for A B C D :: "int \<Rightarrow> bool" and R and ok :: "Config \<Rightarrow> bool" and K
    using that by blast
  show "(\<exists>c. Load e = Ok c) \<longleftrightarrow>
     (\<forall>key \<in> duration_keys. \<forall>v. e key = Some v \<longrightarrow> (\<exists>d. ParseDuration v = Some d \<and> 0 < d)) \<and>
     (env e ''PULS_TLS_CERT'' [] = [] \<longleftrightarrow> env e ''PULS_TLS_KEY'' [] = []) \<and>
     16 \<le> length (env e ''PULS_ADMIN_SECRET'' []) \<and>
     env e ''PULS_ADMIN_SECRET'' [] \<noteq> env e ''PULS_JWT_SECRET'' []"
    unfolding Load_Ok_iff duration_keys_def ball_simps
      pos_iff(1) [of e "''PULS_DEVICE_TOKEN_EXPIRY''"] pos_iff(2) [of e "''PULS_ADMIN_TOKEN_EXPIRY''"]
      pos_iff(3) [of e "''PULS_HEARTBEAT_TIMEOUT''"] pos_iff(4) [of e "''PULS_DIAGNOSTIC_TIMEOUT''"]
    by (subst four [where R = "(env e ''PULS_TLS_CERT'' [] = [] \<longleftrightarrow> env e ''PULS_TLS_KEY'' [] = []) \<and>
        16 \<le> length (env e ''PULS_ADMIN_SECRET'' []) \<and> env e ''PULS_ADMIN_SECRET'' [] \<noteq> env e ''PULS_JWT_SECRET'' []"])
      (simp_all add: config_ok_def TLSEnabled_def conj_ac)
  show "\<forall>m. Load e \<noteq> Panic m" by (simp add: Load_no_panic)
qed

definition demo_environ :: environ where
  "demo_environ = map_of
     [(''PULS_JWT_SECRET'', ''0123456789abcdef0123456789abcdef''), (''PULS_ADMIN_SECRET'', ''correct horse battery''),
      (''PULS_HEARTBEAT_TIMEOUT'', ''1m30.5s''), (''PULS_ALLOWED_ORIGINS'', '' a.example , ,b.example'')]"

theorem load_valid_witness:
  "\<exists>c. Load demo_environ = Ok c \<and> HeartbeatTimeout c = 90500000000 \<and> AllowedOrigins c = [''a.example'', ''b.example''] \<and>
     16 \<le> length (AdminSecret c) \<and> AdminSecret c \<noteq> JWTSecret c"
proof -
  define c where "c = (case Load demo_environ of Ok c \<Rightarrow> c)"
  have c: "Load demo_environ = Ok c" "HeartbeatTimeout c = 90500000000" "AllowedOrigins c = [''a.example'', ''b.example'']"
    unfolding c_def by code_simp+
  from load_valid [OF c(1)] c show ?thesis by blast
qed

theorem load_accepts_iff_witness:
  "(\<exists>c. Load demo_environ = Ok c) \<and> \<not> (\<exists>c. Load (demo_environ(''PULS_HEARTBEAT_TIMEOUT'' \<mapsto> ''-5s'')) = Ok c)"
proof
  have "ParseDuration ''1m30.5s'' = Some 90500000000" "ParseDuration ''-5s'' = Some (- 5000000000)" by code_simp+
  then show "\<exists>c. Load demo_environ = Ok c"
    "\<not> (\<exists>c. Load (demo_environ(''PULS_HEARTBEAT_TIMEOUT'' \<mapsto> ''-5s'')) = Ok c)"
    unfolding load_accepts_iff [THEN conjunct1] by (simp_all add: demo_environ_def duration_keys_def env_def)
qed

end
