(* ===== verification/Server.thy ===== *)
theory Server
  imports Http Responses Config Connections
begin

text \<open>
  The server (\<^verbatim>\<open>internal/server\<close>): its state, one definition per HTTP handler, the routes, and
  the handling of a device's messages. What the handlers take from outside, the clock, uuids, the
  outcome of a write to a connection, the token library, the texts of decoding errors, is one record
  per call; successive clock readings of a call are \<open>clock 0\<close>, \<open>clock 1\<close> and so on.
\<close>

section \<open>State\<close>

record server =
  sv_cfg :: Config
  sv_store :: store
  sv_hub :: Hub
  sv_jwtMgr :: Manager
  sv_metrics :: Metrics
  sv_broadcaster :: Broadcaster
  sv_wsLimiter :: keyedRateLimiter
  sv_publicLimiter :: keyedRateLimiter
  sv_metricsLimiter :: keyedRateLimiter
  sv_log :: "log_line list"
  sv_frames :: "(Client \<times> string) list"
  sv_closed :: "nat list"

record call =
  jwt :: jwt_lib
  stdeps :: store_deps
  clock :: "nat \<Rightarrow> time"
  uuid :: string
  conn_write :: "Client \<Rightarrow> string \<Rightarrow> unit res"
  json_err :: "string \<Rightarrow> string"

definition New :: "time \<Rightarrow> Config \<Rightarrow> store \<Rightarrow> Hub \<Rightarrow> Manager \<Rightarrow> server" where
  "New now cf st h m =
     \<lparr> sv_cfg = cf, sv_store = st, sv_hub = h, sv_jwtMgr = m, sv_metrics = NewMetrics, sv_broadcaster = NewBroadcaster,
       sv_wsLimiter = newRateLimiter now 5 20, sv_publicLimiter = newRateLimiter now 1 5,
       sv_metricsLimiter = newRateLimiter now 2 10, sv_log = [], sv_frames = [], sv_closed = [] \<rparr>"

text \<open>A call on the store.\<close>

definition on_db :: "(store \<Rightarrow> 'r res \<times> store) \<Rightarrow> server \<Rightarrow> 'r res \<times> server" where
  "on_db f s = (let (r, st) = f (sv_store s) in (r, s \<lparr> sv_store := st \<rparr>))"

definition publish :: "Event \<Rightarrow> server \<Rightarrow> server" where
  "publish e s = s \<lparr> sv_broadcaster := Publish e (sv_broadcaster s) \<rparr>"

text \<open>A frame that the connection took is logged.\<close>

definition log_frame :: "unit res \<Rightarrow> Client option \<Rightarrow> string \<Rightarrow> server \<Rightarrow> server" where
  "log_frame r c msg s =
     (case (r, c) of (Ok _, Some c) \<Rightarrow> s \<lparr> sv_frames := sv_frames s @ [(c, msg)] \<rparr> | _ \<Rightarrow> s)"

definition hub_send :: "call \<Rightarrow> string \<Rightarrow> string \<Rightarrow> server \<Rightarrow> unit res \<times> server" where
  "hub_send e deviceID msg s =
     (let r = Send (conn_write e) deviceID msg (sv_hub s)
      in (r, log_frame r (map_of (clients (sv_hub s)) deviceID) msg s))"

definition client_send :: "call \<Rightarrow> Client \<Rightarrow> string \<Rightarrow> server \<Rightarrow> unit res \<times> server" where
  "client_send e c msg s = (let r = send (conn_write e) c msg in (r, log_frame r (Some c) msg s))"

definition respond :: "int \<Rightarrow> string option \<Rightarrow> server \<Rightarrow> reply \<times> server" where
  "respond status v s = (reply (writeJSON status v), s)"

definition refuse :: "int \<Rightarrow> string \<Rightarrow> server \<Rightarrow> reply \<times> server" where
  "refuse status msg s = (reply (writeError status msg), s)"

section \<open>Decoding a request body\<close>

text \<open>One JSON object at the front of the body whose members are all fields of the struct.\<close>

definition decode_strict :: "string list \<Rightarrow> string \<Rightarrow> (string \<times> string) list option" where
  "decode_strict names body =
     (case struct_members_prefix body of
        None \<Rightarrow> None
      | Some ms \<Rightarrow> if list_all (\<lambda>(k, _). fold_name k \<in> set (map fold_name names)) ms then Some ms else None)"

definition decode_secret :: "string \<Rightarrow> string option" where
  "decode_secret body = do { ms \<leftarrow> decode_strict [''secret''] body; read_field ''secret'' set_string ms [] }"

definition decode_register :: "string \<Rightarrow> RegisterRequest option" where
  "decode_register body = do {
     ms \<leftarrow> decode_strict [''name'', ''os'', ''arch'', ''secret''] body;
     n \<leftarrow> read_field ''name'' set_string ms [];
     os \<leftarrow> read_field ''os'' set_string ms [];
     a \<leftarrow> read_field ''arch'' set_string ms [];
     sec \<leftarrow> read_field ''secret'' set_string ms [];
     Some \<lparr> req_Name = n, req_OS = os, req_Arch = a, req_Secret = sec \<rparr> }"

definition decode_scope :: "string \<Rightarrow> string option" where
  "decode_scope body = do { ms \<leftarrow> decode_strict [''scope''] body; read_field ''scope'' set_string ms ScopeFull }"

text \<open>\<^verbatim>\<open>strconv.Atoi\<close>\<close>

definition Atoi :: "string \<Rightarrow> int option" where
  "Atoi s = (if s \<noteq> [] \<and> hd s = CHR ''+'' \<and> (tl s = [] \<or> hd (tl s) \<noteq> CHR ''-'') then ParseInt64 (tl s) else ParseInt64 s)"

section \<open>Devices\<close>

definition defaultDeviceListLimit :: int where "defaultDeviceListLimit = 50"
definition maxDeviceListLimit :: int where "maxDeviceListLimit = 200"

definition handleAdminToken :: "call \<Rightarrow> server handler" where
  "handleAdminToken e r s =
     (case decode_secret (rq_Body r) of
        None \<Rightarrow> refuse 400 ''secret required'' s
      | Some sec \<Rightarrow>
          if sec = [] then refuse 400 ''secret required'' s
          else if sec \<noteq> AdminSecret (sv_cfg s) then refuse 401 ''invalid secret'' s
          else case IssueAdminToken (jwt e) (sv_jwtMgr s) (clock e 0) ''admin'' (AdminTokenExpiry (sv_cfg s)) of
            Err _ \<Rightarrow> refuse 500 ''failed to issue token'' s
          | Panic m \<Rightarrow> (panicking m, s)
          | Ok token \<Rightarrow> respond 200 (Some (print_members [(''token'', json_print (JStr token))])) s)"

text \<open>\<^verbatim>\<open>validateRegisterRequest\<close> trims the name and the secret of the request it is given.\<close>

definition validateRegisterRequest :: "RegisterRequest \<Rightarrow> RegisterRequest res" where
  "validateRegisterRequest req0 =
     (let req = req0 \<lparr> req_Name := TrimSpace (req_Name req0), req_Secret := TrimSpace (req_Secret req0) \<rparr>
      in if req_Name req = [] then Err (ErrText ''name is required'')
         else if req_OS req \<noteq> OSWindows \<and> req_OS req \<noteq> OSLinux
              then Err (ErrText (''os must be '' @ [CHR 0x27] @ ''windows'' @ [CHR 0x27] @ '' or '' @ [CHR 0x27] @ ''linux'' @ [CHR 0x27]))
         else if req_Arch req = [] then Err (ErrText ''arch is required'')
         else if length (req_Secret req) < 16 then Err (ErrText ''secret must be at least 16 characters'')
         else Ok req)"

fun error_text :: "goerr \<Rightarrow> string" where
  "error_text (ErrText m) = m"
| "error_text (Wrap m e) = TrimSuffix m ''%w'' @ error_text e"
| "error_text ErrNotFound = ''store: not found''"
| "error_text ErrInvalidCursor = ''store: invalid cursor''"
| "error_text ErrNoRows = ''sql: no rows in result set''"
| "error_text ErrUnauthorized = ''device token rejected by server''"

definition handleRegister :: "call \<Rightarrow> server handler" where
  "handleRegister e r s =
     (case decode_register (rq_Body r) of
        None \<Rightarrow> refuse 400 (''invalid request body: '' @ json_err e (rq_Body r)) s
      | Some req0 \<Rightarrow>
          (case validateRegisterRequest req0 of
             Err err \<Rightarrow> refuse 422 (error_text err) s
           | Panic m \<Rightarrow> (panicking m, s)
           | Ok req \<Rightarrow>
               (case on_db (Store_CreateDevice (stdeps e) (uuid e) (clock e 0) req) s of
                  (Err _, s1) \<Rightarrow> refuse 500 ''failed to register device'' s1
                | (Panic m, s1) \<Rightarrow> (panicking m, s1)
                | (Ok device, s1) \<Rightarrow>
                    (case IssueDeviceToken (jwt e) (sv_jwtMgr s1) (clock e 1) (dev_ID device) (DeviceTokenExpiry (sv_cfg s1)) of
                       Err _ \<Rightarrow> refuse 500 ''failed to issue token'' s1
                     | Panic m \<Rightarrow> (panicking m, s1)
                     | Ok token \<Rightarrow>
                         respond 201 (RegisterResponse_text \<lparr> resp_DeviceID = dev_ID device, resp_Token = token \<rparr>) s1))))"

text \<open>The limit of a request: the default, or the given number, at most the maximum.\<close>

definition list_limit :: "string \<Rightarrow> int option" where
  "list_limit raw =
     (if raw = [] then Some defaultDeviceListLimit
      else case Atoi raw of
        None \<Rightarrow> None
      | Some n \<Rightarrow> if n \<le> 0 then None else Some (if n > maxDeviceListLimit then maxDeviceListLimit else n))"

definition overlay_online :: "string list \<Rightarrow> Device list \<Rightarrow> Device list" where
  "overlay_online connectedIDs devices =
     map (\<lambda>d. if dev_ID d \<in> set connectedIDs then d \<lparr> dev_Status := StatusOnline \<rparr> else d) devices"

definition handleListDevices :: "call \<Rightarrow> server handler" where
  "handleListDevices e r s =
     (case list_limit (rq_Query r ''limit'') of
        None \<Rightarrow> refuse 400 ''limit must be a positive integer'' s
      | Some limit \<Rightarrow>
          (case on_db (Store_ListDevices (stdeps e) limit (rq_Query r ''cursor'')) s of
             (Err err, s1) \<Rightarrow>
               if errors_is err ErrInvalidCursor then refuse 400 ''invalid cursor'' s1
               else refuse 500 ''failed to list devices'' s1
           | (Panic m, s1) \<Rightarrow> (panicking m, s1)
           | (Ok (devices, nextCursor), s1) \<Rightarrow>
               respond 200 (DeviceList_text
                 \<lparr> list_Devices = overlay_online (ConnectedDeviceIDs (sv_hub s1)) devices, list_NextCursor = nextCursor \<rparr>) s1))"

definition handleGetDevice :: "call \<Rightarrow> string \<Rightarrow> server handler" where
  "handleGetDevice e i r s =
     (case on_db (Store_GetDevice i) s of
        (Err err, s1) \<Rightarrow>
          if errors_is err ErrNotFound then refuse 404 ''device not found'' s1 else refuse 500 ''failed to get device'' s1
      | (Panic m, s1) \<Rightarrow> (panicking m, s1)
      | (Ok device, s1) \<Rightarrow>
          (case on_db (Store_ListHeartbeats (stdeps e) i 20) s1 of
             (Panic m, s2) \<Rightarrow> (panicking m, s2)
           | (hbs, s2) \<Rightarrow>
               respond 200 (DeviceDetail_text
                 \<lparr> detail_Device = (if IsConnected i (sv_hub s2) then device \<lparr> dev_Status := StatusOnline \<rparr> else device),
                   detail_RecentHeartbeats = (case hbs of Ok xs \<Rightarrow> xs | _ \<Rightarrow> []) \<rparr>) s2))"

section \<open>Diagnostics\<close>

definition deleteOrphanedDiagnosticRequest :: "string \<Rightarrow> server \<Rightarrow> server" where
  "deleteOrphanedDiagnosticRequest requestID s = snd (on_db (Store_DeleteDiagnosticRequest requestID) s)"

definition valid_scope :: "string \<Rightarrow> bool" where
  "valid_scope sc \<longleftrightarrow> sc = ScopeFull \<or> sc = ScopeNetwork \<or> sc = ScopeProcesses \<or> sc = ScopeStorage"

definition handleRequestDiagnostics :: "call \<Rightarrow> string \<Rightarrow> server handler" where
  "handleRequestDiagnostics e deviceID r s =
     (if \<not> IsConnected deviceID (sv_hub s) then refuse 503 ''device is not connected'' s
      else case decode_scope (rq_Body r) of
        None \<Rightarrow> refuse 400 (''invalid request body: '' @ json_err e (rq_Body r)) s
      | Some sc \<Rightarrow>
          if \<not> valid_scope sc then refuse 422 ''invalid scope'' s
          else
            (case on_db (Store_CreateDiagnosticRequest (stdeps e) (clock e 0) deviceID (uuid e) sc) s of
               (Err _, s1) \<Rightarrow> refuse 500 ''failed to create diagnostic request'' s1
             | (Panic m, s1) \<Rightarrow> (panicking m, s1)
             | (Ok result, s1) \<Rightarrow>
                 (case Encode TypeDiagRequest (uuid e) (Ok (diag_request_json \<lparr> Scope = sc \<rparr>)) of
                    Err _ \<Rightarrow> refuse 500 ''failed to encode request'' (deleteOrphanedDiagnosticRequest (uuid e) s1)
                  | Panic m \<Rightarrow> (panicking m, s1)
                  | Ok msg \<Rightarrow>
                      (case hub_send e deviceID msg s1 of
                         (Err _, s2) \<Rightarrow>
                           refuse 503 ''failed to deliver request to device'' (deleteOrphanedDiagnosticRequest (uuid e) s2)
                       | (Panic m, s2) \<Rightarrow> (panicking m, s2)
                       | (Ok _, s2) \<Rightarrow>
                           respond 202 (DiagnosticResult_text (result \<lparr> diag_Status := DiagnosticPending \<rparr>)) s2))))"

definition diagnosticStatus :: "time \<Rightarrow> DiagnosticResult \<Rightarrow> duration \<Rightarrow> DiagnosticRequestStatus" where
  "diagnosticStatus now d timeout =
     (if diag_Payload d \<noteq> None then DiagnosticCompleted
      else if now - diag_RequestedAt d > timeout then DiagnosticTimedOut
      else DiagnosticPending)"

fun set_statuses :: "(nat \<Rightarrow> time) \<Rightarrow> duration \<Rightarrow> DiagnosticResult list \<Rightarrow> DiagnosticResult list" where
  "set_statuses t timeout [] = []"
| "set_statuses t timeout (d # ds) =
     d \<lparr> diag_Status := diagnosticStatus (t 0) d timeout \<rparr> # set_statuses (t \<circ> Suc) timeout ds"

definition handleListDiagnostics :: "call \<Rightarrow> string \<Rightarrow> server handler" where
  "handleListDiagnostics e deviceID r s =
     (case on_db (Store_ListDiagnosticResults (stdeps e) deviceID 50) s of
        (Err _, s1) \<Rightarrow> refuse 500 ''failed to list diagnostics'' s1
      | (Panic m, s1) \<Rightarrow> (panicking m, s1)
      | (Ok results, s1) \<Rightarrow>
          respond 200 (slice_text DiagnosticResult_text
            (set_statuses (clock e) (DiagnosticTimeout (sv_cfg s1)) results)) s1)"

section \<open>Health\<close>

definition handleReadyz :: "server handler" where
  "handleReadyz r s =
     (case on_db Store_Ping s of
        (Err _, s1) \<Rightarrow> refuse 503 ''not ready'' s1
      | (Panic m, s1) \<Rightarrow> (panicking m, s1)
      | (Ok _, s1) \<Rightarrow> respond 200 (Some (print_members [(''status'', json_print (JStr ''ready''))])) s1)"

definition handleHealthz :: "server handler" where
  "handleHealthz r s = respond 200 (Some (print_members [(''status'', json_print (JStr ''ok''))])) s"

definition handleOpenapi :: "string \<Rightarrow> server handler" where
  "handleOpenapi spec r s =
     (reply [SetHeader ''Content-Type'' ''application/json'', WriteHeader 200, Write spec], s)"

end
