(* ===== verification/Server_Ws.thy ===== *)
theory Server_Ws
  imports Server
begin

text \<open>
  The connection of a device (\<^verbatim>\<open>routes_ws.go\<close> and the read loop of \<^verbatim>\<open>internal/ws/client.go\<close>) and
  the event stream (\<^verbatim>\<open>routes_events.go\<close>), each as one goroutine runs it from start to end; how the
  steps of several connections interleave is the subject of theory Connections.
\<close>

section \<open>The token of a device\<close>

definition wsBearerSubprotocol :: string where
  "wsBearerSubprotocol = ''puls.bearer''"

fun after_sentinel :: "string list \<Rightarrow> string" where
  "after_sentinel (p # q # ps) = (if p = wsBearerSubprotocol then q else after_sentinel (q # ps))"
| "after_sentinel _ = []"

definition subprotocolToken :: "Request \<Rightarrow> string" where
  "subprotocolToken r =
     after_sentinel (concat (map (\<lambda>v. map TrimSpace (split_on (CHR '','') v)) (rq_Header r ''Sec-WebSocket-Protocol'')))"

definition wsToken :: "Request \<Rightarrow> string" where
  "wsToken r =
     (let h = header_Get r ''Authorization''
      in if HasPrefix h ''Bearer '' then TrimSpace (TrimPrefix h ''Bearer '')
         else let tok = subprotocolToken r in if tok \<noteq> [] then tok else rq_Query r ''token'')"

section \<open>Messages of a device\<close>

definition event :: "string \<Rightarrow> (string \<times> json) list \<Rightarrow> Event" where
  "event ty kvs = \<lparr> ev_Type = ty, ev_Payload = JObj kvs \<rparr>"

text \<open>The keys of a map are printed in order.\<close>

definition heartbeat_event :: "string \<Rightarrow> HeartbeatData \<Rightarrow> Event" where
  "heartbeat_event deviceID d = event ''device.heartbeat''
     [(''cpuPercent'', JNum (float32_text (CPUPercent d))), (''diskPercent'', JNum (float32_text (DiskPercent d))),
      (''id'', JStr deviceID), (''memoryPercent'', JNum (float32_text (MemoryPercent d)))]"

definition handleHeartbeat :: "call \<Rightarrow> Client \<Rightarrow> Envelope \<Rightarrow> server \<Rightarrow> unit res \<times> server" where
  "handleHeartbeat e c envl s =
     (case unmarshal_heartbeat (env_Data envl) of
        None \<Rightarrow> (Err (ErrText (json_err e (env_Data envl))), s)
      | Some data \<Rightarrow>
          (let hb = \<lparr> hb_ID = 0, hb_DeviceID = DeviceID c, hb_ReceivedAt = zero_time, hb_CPUPercent = CPUPercent data,
                      hb_MemoryPercent = MemoryPercent data, hb_DiskPercent = DiskPercent data,
                      hb_UptimeSeconds = UptimeSeconds data, hb_OSVersion = OSVersion data \<rparr>
           in case on_db (Store_InsertHeartbeat (stdeps e) (clock e 1) hb) s of
                (Err err, s1) \<Rightarrow> (Err err, s1)
              | (Panic m, s1) \<Rightarrow> (Panic m, s1)
              | (Ok _, s1) \<Rightarrow>
                  (let s2 = s1 \<lparr> sv_metrics := IncHeartbeat (sv_metrics s1) \<rparr>
                   in case on_db (Store_UpdateLastSeen (stdeps e) (clock e 2) (DeviceID c)) s2 of
                        (Panic m, s3) \<Rightarrow> (Panic m, s3)
                      | (_, s3) \<Rightarrow> (Ok (), publish (heartbeat_event (DeviceID c) data) s3))))"

definition handleDiagResponse :: "call \<Rightarrow> Client \<Rightarrow> Envelope \<Rightarrow> server \<Rightarrow> unit res \<times> server" where
  "handleDiagResponse e c envl s =
     (if env_RequestID envl = [] then (Ok (), s)
      else on_db (Store_SaveDiagnosticResult (stdeps e) (clock e 1) (env_RequestID envl) (env_Data envl)) s)"

definition handleWSMessage :: "call \<Rightarrow> Client \<Rightarrow> Envelope \<Rightarrow> server \<Rightarrow> unit res \<times> server" where
  "handleWSMessage e c envl s =
     (if env_Type envl = TypeHeartbeat then handleHeartbeat e c envl s
      else if env_Type envl = TypeDiagResponse then handleDiagResponse e c envl s
      else (Ok (), s))"

text \<open>The callback \<^verbatim>\<open>allowMessage\<close>.\<close>

definition allowMessage :: "call \<Rightarrow> string \<Rightarrow> server \<Rightarrow> bool \<times> server" where
  "allowMessage e deviceID s =
     (let (ok, l) = allow (sv_wsLimiter s) (clock e 0) deviceID; s1 = s \<lparr> sv_wsLimiter := l \<rparr>
      in if ok then (True, s1) else (False, s1 \<lparr> sv_metrics := IncWSMessageRejected (sv_metrics s1) \<rparr>))"

text \<open>\<^verbatim>\<open>errMsg, _ := EncodeError(...)\<close> and the send of it, both without looking at errors.\<close>

definition send_error :: "call \<Rightarrow> Client \<Rightarrow> string \<Rightarrow> string \<Rightarrow> server \<Rightarrow> server" where
  "send_error e c requestID message s =
     snd (client_send e c (case EncodeError requestID message of Ok m \<Rightarrow> m | _ \<Rightarrow> []) s)"

text \<open>One message through the read loop of \<^verbatim>\<open>Client.Run\<close>; a panic of the handler ends the goroutine.\<close>

definition Run_message :: "call \<Rightarrow> Client \<Rightarrow> string \<Rightarrow> server \<Rightarrow> string option \<times> server" where
  "Run_message e c raw s =
     (case unmarshal_envelope raw of
        None \<Rightarrow> (None, send_error e c [] ''malformed message'' s)
      | Some envl \<Rightarrow>
          (case allowMessage e (DeviceID c) s of
             (False, s1) \<Rightarrow> (None, send_error e c (env_RequestID envl) ''rate limit exceeded'' s1)
           | (True, s1) \<Rightarrow>
               (case handleWSMessage e c envl s1 of
                  (Panic m, s2) \<Rightarrow> (Some m, s2)
                | (_, s2) \<Rightarrow> (None, s2))))"

text \<open>The loop over the messages that arrive before a read fails, each with its surroundings.\<close>

fun Run_loop :: "Client \<Rightarrow> (call \<times> string) list \<Rightarrow> server \<Rightarrow> string option \<times> server" where
  "Run_loop c [] s = (None, s)"
| "Run_loop c ((e, raw) # msgs) s =
     (case Run_message e c raw s of (Some m, s1) \<Rightarrow> (Some m, s1) | (None, s1) \<Rightarrow> Run_loop c msgs s1)"

text \<open>The deferred functions of \<^verbatim>\<open>Client.Run\<close>.\<close>

definition Run_deferred :: "Client \<Rightarrow> server \<Rightarrow> unit res \<times> server" where
  "Run_deferred c s =
     (let (mine, h) = Unregister c (sv_hub s); s1 = s \<lparr> sv_hub := h \<rparr>;
          s2 = (if mine then snd (on_db (Store_SetDeviceStatus (DeviceID c) StatusOffline) s1) else s1)
      in case wg_Done (sv_hub s2) of
           Ok h' \<Rightarrow> (Ok (), s2 \<lparr> sv_hub := h' \<rparr>)
         | Err err \<Rightarrow> (Err err, s2)
         | Panic m \<Rightarrow> (Panic m, s2))"

text \<open>\<^verbatim>\<open>Client.Close\<close> on the clients of a list.\<close>

definition close_clients :: "Client list \<Rightarrow> server \<Rightarrow> server" where
  "close_clients cs s = s \<lparr> sv_closed := sv_closed s @ map client_addr cs \<rparr>"

definition NewClient :: "Client \<Rightarrow> server \<Rightarrow> server" where
  "NewClient c s =
     (let (existing, h) = Register c (wg_Add (sv_hub s))
      in close_clients (case existing of None \<Rightarrow> [] | Some old \<Rightarrow> [old]) (s \<lparr> sv_hub := h \<rparr>))"

text \<open>
  \<open>accept r\<close> is the outcome of \<^verbatim>\<open>websocket.Accept\<close>: what it wrote on failure, or the address of the
  new connection's client. \<open>msgs\<close> are the messages the connection then carries.
\<close>

definition handleWebSocket ::
    "call \<Rightarrow> (Request \<Rightarrow> action list + nat) \<Rightarrow> (call \<times> string) list \<Rightarrow> server handler" where
  "handleWebSocket e accept msgs r s =
     (let tokenStr = wsToken r
      in if tokenStr = [] then refuse 401 ''missing token'' s
         else case Validate (jwt e) (sv_jwtMgr s) (clock e 0) tokenStr of
           Err _ \<Rightarrow> refuse 401 ''invalid or expired token'' s
         | Panic m \<Rightarrow> (panicking m, s)
         | Ok claims \<Rightarrow>
             if cl_Role claims \<noteq> RoleDevice then refuse 403 ''device token required'' s
             else case accept r of
               Inl written \<Rightarrow> (reply written, s)
             | Inr a \<Rightarrow>
                 (let deviceID = cl_Subject claims;
                      c = \<lparr> client_addr = a, DeviceID = deviceID, heartbeatTimeout = HeartbeatTimeout (sv_cfg s) \<rparr>;
                      s1 = NewClient c s;
                      s2 = snd (on_db (Store_SetDeviceStatus deviceID StatusOnline) s1);
                      s3 = publish (event ''device.connected'' [(''id'', JStr deviceID)]) s2;
                      (panicked, s4) = Run_loop c msgs s3;
                      (_, s5) = Run_deferred c s4
                  in case panicked of
                       Some m \<Rightarrow> (panicking m, s5)
                     | None \<Rightarrow> (reply [], publish (event ''device.disconnected'' [(''id'', JStr deviceID)]) s5)))"

section \<open>The event stream\<close>

text \<open>What a round of the select in \<^verbatim>\<open>handleEvents\<close> finds ready, and whether a write then succeeds.\<close>

datatype sse_input = CtxDone | Keepalive bool | Incoming bool

definition sse_line :: "string \<Rightarrow> string" where
  "sse_line data = ''data: '' @ data @ [CHR 0x0A, CHR 0x0A]"

fun sse_loop :: "string \<Rightarrow> sse_input list \<Rightarrow> server \<Rightarrow> action list \<times> server" where
  "sse_loop i [] s = ([], s)"
| "sse_loop i (CtxDone # ins) s = ([], s)"
| "sse_loop i (Keepalive ok # ins) s =
     (if ok then apfst (Cons (Write ('': keepalive'' @ [CHR 0x0A, CHR 0x0A]))) (sse_loop i ins s) else ([], s))"
| "sse_loop i (Incoming ok # ins) s =
     (case receive i (sv_broadcaster s) of
        (None, _) \<Rightarrow> sse_loop i ins s
      | (Some ev, b) \<Rightarrow>
          (let s1 = s \<lparr> sv_broadcaster := b \<rparr>
           in case Event_text ev of
                None \<Rightarrow> sse_loop i ins s1
              | Some data \<Rightarrow> if ok then apfst (Cons (Write (sse_line data))) (sse_loop i ins s1) else ([], s1)))"

definition handleEvents :: "call \<Rightarrow> sse_input list \<Rightarrow> server handler" where
  "handleEvents e ins r s =
     (let s1 = s \<lparr> sv_broadcaster := Subscribe (uuid e) (sv_broadcaster s) \<rparr>;
          (written, s2) = sse_loop (uuid e) ins s1
      in (reply ([SetHeader ''Content-Type'' ''text/event-stream'', SetHeader ''Cache-Control'' ''no-cache'',
                  SetHeader ''Connection'' ''keep-alive''] @ written),
          s2 \<lparr> sv_broadcaster := unsub (uuid e) (sv_broadcaster s2) \<rparr>))"

section \<open>Routes\<close>

text \<open>What a request needs beyond the call: the outcome of the upgrade, the connection's messages, the
  rounds of the event stream, the embedded API document and the text of the metrics.\<close>

record surroundings =
  accept :: "Request \<Rightarrow> action list + nat"
  messages :: "(call \<times> string) list"
  rounds :: "sse_input list"
  openapiSpec :: string
  metrics_page :: "Metrics \<Rightarrow> nat \<Rightarrow> nat \<Rightarrow> string"

text \<open>
  The patterns and their handlers, in the order of \<^verbatim>\<open>registerRoutes\<close>. A pattern for GET also takes
  HEAD; the segments after the leading slash have to match one by one.
\<close>

definition takes :: "string \<Rightarrow> Request \<Rightarrow> bool" where
  "takes method r \<longleftrightarrow> rq_Method r = method \<or> (method = ''GET'' \<and> rq_Method r = ''HEAD'')"

definition with_pattern :: "string \<Rightarrow> reply \<times> server \<Rightarrow> reply \<times> server" where
  "with_pattern p = apfst (\<lambda>rp. rp \<lparr> rp_pattern := p \<rparr>)"

definition public_limit :: "call \<Rightarrow> server handler \<Rightarrow> server handler" where
  "public_limit e = rateLimit (clock e 0) sv_publicLimiter (\<lambda>l s. s \<lparr> sv_publicLimiter := l \<rparr>)"

definition metrics_limit :: "call \<Rightarrow> server handler \<Rightarrow> server handler" where
  "metrics_limit e = rateLimit (clock e 0) sv_metricsLimiter (\<lambda>l s. s \<lparr> sv_metricsLimiter := l \<rparr>)"

definition adminAuth :: "call \<Rightarrow> server handler \<Rightarrow> server handler" where
  "adminAuth e h r s = requireAuth (jwt e) (sv_jwtMgr s) (clock e 0) RoleAdmin (\<lambda>_. h) r s"

definition later :: "call \<Rightarrow> call" where
  "later e = e \<lparr> clock := clock e \<circ> Suc \<rparr>"

definition metrics_handler :: "surroundings \<Rightarrow> server handler" where
  "metrics_handler x r s =
     (reply [Write (metrics_page x (sv_metrics s) (Hub_Count (sv_hub s)) (Broadcaster_Count (sv_broadcaster s)))], s)"

definition mux :: "call \<Rightarrow> surroundings \<Rightarrow> server handler" where
  "mux e x r s =
     (let p = rq_Segments r; l = later e in
      if takes ''POST'' r \<and> p = [''api'', ''v1'', ''auth'', ''admin-token''] then
        with_pattern ''POST /api/v1/auth/admin-token'' (public_limit e (handleAdminToken l) r s)
      else if takes ''POST'' r \<and> p = [''api'', ''v1'', ''devices'', ''register''] then
        with_pattern ''POST /api/v1/devices/register'' (public_limit e (handleRegister l) r s)
      else if takes ''GET'' r \<and> p = [''api'', ''v1'', ''devices''] then
        with_pattern ''GET /api/v1/devices'' (adminAuth e (handleListDevices l) r s)
      else if takes ''GET'' r \<and> length p = 4 \<and> take 3 p = [''api'', ''v1'', ''devices''] \<and> p ! 3 \<noteq> [] then
        with_pattern ''GET /api/v1/devices/{id}'' (adminAuth e (handleGetDevice l (p ! 3)) r s)
      else if takes ''POST'' r \<and> length p = 5 \<and> take 3 p = [''api'', ''v1'', ''devices''] \<and> p ! 3 \<noteq> [] \<and> p ! 4 = ''diagnose'' then
        with_pattern ''POST /api/v1/devices/{id}/diagnose'' (adminAuth e (handleRequestDiagnostics l (p ! 3)) r s)
      else if takes ''GET'' r \<and> length p = 5 \<and> take 3 p = [''api'', ''v1'', ''devices''] \<and> p ! 3 \<noteq> [] \<and> p ! 4 = ''diagnostics'' then
        with_pattern ''GET /api/v1/devices/{id}/diagnostics'' (adminAuth e (handleListDiagnostics l (p ! 3)) r s)
      else if takes ''GET'' r \<and> p = [''api'', ''v1'', ''ws''] then
        with_pattern ''GET /api/v1/ws'' (handleWebSocket e (accept x) (messages x) r s)
      else if takes ''GET'' r \<and> p = [''api'', ''v1'', ''events''] then
        with_pattern ''GET /api/v1/events'' (adminAuth e (handleEvents l (rounds x)) r s)
      else if takes ''GET'' r \<and> p = [''openapi.json''] then
        with_pattern ''GET /openapi.json'' (handleOpenapi (openapiSpec x) r s)
      else if takes ''GET'' r \<and> p = [''healthz''] then with_pattern ''GET /healthz'' (handleHealthz r s)
      else if takes ''GET'' r \<and> p = [''readyz''] then with_pattern ''GET /readyz'' (handleReadyz r s)
      else if takes ''GET'' r \<and> p = [''metrics''] then
        with_pattern ''GET /metrics'' (metrics_limit e (metrics_handler x) r s)
      else (reply [SetHeader ''Content-Type'' ''text/plain; charset=utf-8'', WriteHeader (if
              p \<in> {[''api'', ''v1'', ''auth'', ''admin-token''], [''api'', ''v1'', ''devices'', ''register''], [''api'', ''v1'', ''devices''],
                    [''api'', ''v1'', ''ws''], [''api'', ''v1'', ''events''], [''openapi.json''], [''healthz''], [''readyz''], [''metrics'']} \<or>
              (take 3 p = [''api'', ''v1'', ''devices''] \<and> length p = 4 \<and> p ! 3 \<noteq> []) \<or>
              (take 3 p = [''api'', ''v1'', ''devices''] \<and> length p = 5 \<and> p ! 3 \<noteq> [] \<and> (p ! 4 = ''diagnose'' \<or> p ! 4 = ''diagnostics''))
            then 405 else 404)], s))"

text \<open>The handler of the HTTP server: the chain around the routes.\<close>

definition upd_metrics :: "(Metrics \<Rightarrow> Metrics) \<Rightarrow> server \<Rightarrow> server" where
  "upd_metrics f s = s \<lparr> sv_metrics := f (sv_metrics s) \<rparr>"

definition put_log :: "log_line \<Rightarrow> server \<Rightarrow> server" where
  "put_log l s = s \<lparr> sv_log := sv_log s @ [l] \<rparr>"

definition serve :: "(nat \<Rightarrow> time) \<Rightarrow> call \<Rightarrow> surroundings \<Rightarrow> server handler" where
  "serve t e x = wrapMiddleware t upd_metrics put_log (mux e x)"

section \<open>Start and shutdown\<close>

definition ErrServerClosed :: goerr where
  "ErrServerClosed = ErrText ''http: Server closed''"

text \<open>\<open>listen_tls\<close> and \<open>listen\<close> are the errors with which the two listen calls end.\<close>

definition Start :: "(string \<Rightarrow> string \<Rightarrow> goerr) \<Rightarrow> goerr \<Rightarrow> server \<Rightarrow> unit res" where
  "Start listen_tls listen s =
     (let err = (if TLSEnabled (sv_cfg s) then listen_tls (TLSCertFile (sv_cfg s)) (TLSKeyFile (sv_cfg s)) else listen)
      in if err \<noteq> ErrServerClosed then Err (Wrap ''server: %w'' err) else Ok ())"

text \<open>
  The clients are closed first. The wait comes to its end in a state \<open>s1\<close> that the connections'
  goroutines have brought about, with the result \<open>waited\<close>, which is only logged; the result is that of
  \<^verbatim>\<open>http.Server.Shutdown\<close>.
\<close>

definition Shutdown_begin :: "server \<Rightarrow> server" where
  "Shutdown_begin s = close_clients (CloseAll (sv_hub s)) s"

definition Shutdown_returns :: "goerr option \<Rightarrow> unit res \<Rightarrow> server \<Rightarrow> unit res \<Rightarrow> bool" where
  "Shutdown_returns ctx_err http_result s1 r \<longleftrightarrow> (\<exists>waited. Wait_returns (sv_hub s1) ctx_err waited) \<and> r = http_result"

section \<open>A concrete server\<close>

text \<open>A server on the store with the devices a and b, and its surroundings, for concrete runs.\<close>

definition demo_config :: Config where
  "demo_config =
     \<lparr> HTTPAddr = '':8080'', TLSCertFile = [], TLSKeyFile = [], DatabaseURL = [], DBPath = '':memory:'',
       JWTSecret = ''0123456789abcdef0123456789abcdef'', AdminSecret = ''correct horse battery'',
       DeviceTokenExpiry = 90 * 24 * hour, AdminTokenExpiry = 24 * hour, HeartbeatTimeout = 90 * second,
       DiagnosticTimeout = 60 * second, AllowedOrigins = [], LogFormat = ''json'', LogLevel = ''info'', OTelEndpoint = [] \<rparr>"

definition demo_now :: time where
  "demo_now = 1714564800000000000"

definition demo_server :: server where
  "demo_server = New demo_now demo_config (SQLiteStore demo_sqlite) NewHub demo_manager"

definition demo_call :: call where
  "demo_call =
     \<lparr> jwt = demo_jwt, stdeps = demo_deps, clock = (\<lambda>_. demo_now), uuid = ''u'', conn_write = (\<lambda>c m. Ok ()),
       json_err = (\<lambda>b. ''EOF'') \<rparr>"

definition demo_around :: surroundings where
  "demo_around =
     \<lparr> accept = (\<lambda>r. Inr 7), messages = [], rounds = [], openapiSpec = ''{}'', metrics_page = (\<lambda>m a b. []) \<rparr>"

definition demo_request :: "string \<Rightarrow> string list \<Rightarrow> string \<Rightarrow> Request" where
  "demo_request method path body =
     \<lparr> rq_Method = method, rq_Segments = path, rq_Header = (\<lambda>_. []), rq_Query = (\<lambda>_. []),
       rq_RemoteAddr = ''203.0.113.7:4711'', rq_Body = body \<rparr>"

end
