(* ===== verification/Server_Http.thy ===== *)
theory Server_Http
  imports Server_Ws
begin

text \<open>
  Properties of the HTTP side that hold for every request: what the middleware makes of a panic, which
  labels the metrics can have, and who gets past the authentication.
\<close>

section \<open>Status of a reply\<close>

text \<open>A reply whose status line is the handler's only one: the writers capture what the client sees.\<close>

fun one_status :: "action list \<Rightarrow> bool" where
  "one_status [] = True"
| "one_status (SetHeader _ _ # as) = one_status as"
| "one_status (WriteHeader _ # as) = (\<forall>a \<in> set as. \<forall>code. a \<noteq> WriteHeader code)"
| "one_status (Write _ # as) = (\<forall>a \<in> set as. \<forall>code. a \<noteq> WriteHeader code)"

lemma captured_none: "\<forall>a \<in> set as. \<forall>code. a \<noteq> WriteHeader code \<Longrightarrow> captured_status s as = s"
  by (induction s as rule: captured_status.induct) auto

lemma one_status_captured: "one_status as \<Longrightarrow> captured_status 200 as = sent_status as"
  by (induction as rule: one_status.induct) (auto simp: captured_none)

lemma sent_status_append: "\<forall>a \<in> set as. \<exists>k v. a = SetHeader k v \<Longrightarrow> sent_status (as @ bs) = sent_status bs"
  by (induction as rule: sent_status.induct) auto

section \<open>The chain\<close>

lemma wrapMiddleware_eq:
  assumes "next (r \<lparr> rq_Body := take maxRequestBytes (rq_Body r) \<rparr>) s = (rp, s')"
  shows "wrapMiddleware t upd_metrics put_log next r s =
    (let rp' = (case rp_panic rp of None \<Rightarrow> rp
                | Some m \<Rightarrow> rp \<lparr> rp_actions := rp_actions rp @ writeError 500 ''internal server error'', rp_panic := None \<rparr>);
         code = captured_status 200 (rp_actions rp')
     in (rp', put_log (rq_Method r, rq_Segments r, code, t 3 - t 0, rq_RemoteAddr r)
           (upd_metrics (record_request (httpMethodLabel (rq_Method r)) (rp_pattern rp) code (t 2 - t 1)) s')))"
  using assms
  by (auto simp: wrapMiddleware_def loggingMiddleware_def Metrics_Middleware_def recoveryMiddleware_def
      maxBytesMiddleware_def Let_def split: option.splits)

text \<open>C20: Around any handler, the middleware chain never lets a panic out: a handler that panics is answered
  with status 500, if it had not started its response, and both the request counter and the access
  log record 500 for it. For a handler that returns, they record the status the client got, if the handler
  set the status at most once.\<close>

theorem panic_becomes_500:
  assumes "next (r \<lparr> rq_Body := take maxRequestBytes (rq_Body r) \<rparr>) s = (rp, s')"
    and "wrapMiddleware t upd_metrics put_log next r s = (rp1, s1)"
  shows "rp_panic rp1 = None \<and>
    (\<exists>code. sv_log s1 = sv_log s' @ [(rq_Method r, rq_Segments r, code, t 3 - t 0, rq_RemoteAddr r)] \<and>
       sv_metrics s1 = record_request (httpMethodLabel (rq_Method r)) (rp_pattern rp) code (t 2 - t 1) (sv_metrics s') \<and>
       (rp_panic rp \<noteq> None \<longrightarrow> code = 500 \<and>
          ((\<forall>a \<in> set (rp_actions rp). \<exists>k v. a = SetHeader k v) \<longrightarrow> sent_status (rp_actions rp1) = 500)) \<and>
       (rp_panic rp = None \<longrightarrow> rp1 = rp \<and> (one_status (rp_actions rp) \<longrightarrow> code = sent_status (rp_actions rp1))))"
  using assms(2) unfolding wrapMiddleware_eq [of "next" r s, OF assms(1)] Let_def
  by (cases "rp_panic rp") (auto simp: put_log_def upd_metrics_def one_status_captured sent_status_append)

theorem panic_becomes_500_witness:
  "\<exists>rp1 s1. wrapMiddleware (\<lambda>_. 0) upd_metrics put_log (\<lambda>r s. (panicking ''boom'', s)) (demo_request ''GET'' [''x''] []) demo_server = (rp1, s1)
     \<and> rp_panic rp1 = None \<and> sent_status (rp_actions rp1) = 500
     \<and> sv_log s1 = [(''GET'', [''x''], 500, 0, ''203.0.113.7:4711'')]"
proof -
  let ?r = "demo_request ''GET'' [''x''] []" and ?h = "\<lambda>r s. (panicking ''boom'', s)"
  obtain rp1 s1 where run: "wrapMiddleware (\<lambda>_. 0) upd_metrics put_log ?h ?r demo_server = (rp1, s1)" by (metis surj_pair)
  have log: "sv_log demo_server = []" by (simp add: demo_server_def New_def)
  from panic_becomes_500 [of ?h ?r demo_server, OF refl run] log run show ?thesis
    by (auto simp: demo_request_def)
qed

section \<open>Labels of the metrics\<close>

definition routes :: "string set" where
  "routes = {''POST /api/v1/auth/admin-token'', ''POST /api/v1/devices/register'', ''GET /api/v1/devices'',
     ''GET /api/v1/devices/{id}'', ''POST /api/v1/devices/{id}/diagnose'', ''GET /api/v1/devices/{id}/diagnostics'',
     ''GET /api/v1/ws'', ''GET /api/v1/events'', ''GET /openapi.json'', ''GET /healthz'', ''GET /readyz'', ''GET /metrics''}"

definition labels_bounded :: "Metrics \<Rightarrow> bool" where
  "labels_bounded m \<longleftrightarrow>
     (\<forall>(method, route, status) \<in> fst ` set (httpRequestsTotal m).
        method \<in> {''GET'', ''POST'', ''other''} \<and> route \<in> insert ''unmatched'' routes) \<and>
     (\<forall>(method, route) \<in> fst ` set (httpRequestDuration m).
        method \<in> {''GET'', ''POST'', ''other''} \<and> route \<in> insert ''unmatched'' routes)"

lemma mux_pattern: "rp_pattern (fst (mux e x r s)) \<in> insert [] routes"
  by (simp add: mux_def Let_def with_pattern_def routes_def)

text \<open>What handlers leave alone: the request counters and the access log.\<close>

definition same_http :: "server \<Rightarrow> server \<Rightarrow> bool" where
  "same_http s s' \<longleftrightarrow> httpRequestsTotal (sv_metrics s') = httpRequestsTotal (sv_metrics s) \<and>
     httpRequestDuration (sv_metrics s') = httpRequestDuration (sv_metrics s) \<and> sv_log s' = sv_log s"

lemma same_http_refl [simp]: "same_http s s"
  by (simp add: same_http_def)

lemma same_http_trans: "same_http s s' \<Longrightarrow> same_http s' s'' \<Longrightarrow> same_http s s''"
  by (simp add: same_http_def)

lemma same_http_updates [simp]:
  "same_http s (s' \<lparr> sv_store := st \<rparr>) = same_http s s'" "same_http s (s' \<lparr> sv_hub := h \<rparr>) = same_http s s'"
  "same_http s (s' \<lparr> sv_broadcaster := b \<rparr>) = same_http s s'" "same_http s (s' \<lparr> sv_wsLimiter := l \<rparr>) = same_http s s'"
  "same_http s (s' \<lparr> sv_publicLimiter := l \<rparr>) = same_http s s'" "same_http s (s' \<lparr> sv_metricsLimiter := l \<rparr>) = same_http s s'"
  "same_http s (s' \<lparr> sv_frames := fs \<rparr>) = same_http s s'" "same_http s (s' \<lparr> sv_closed := xs \<rparr>) = same_http s s'"
  "same_http s (s' \<lparr> sv_metrics := IncHeartbeat (sv_metrics s') \<rparr>) = same_http s s'"
  "same_http s (s' \<lparr> sv_metrics := IncWSMessageRejected (sv_metrics s') \<rparr>) = same_http s s'"
  by (auto simp: same_http_def IncHeartbeat_def IncWSMessageRejected_def)

lemma same_http_on_db: "on_db f s = (r, s') \<Longrightarrow> same_http s0 s' = same_http s0 s"
  by (auto simp: on_db_def Let_def split: prod.splits)

lemma same_http_snd_on_db [simp]: "same_http s0 (snd (on_db f s)) = same_http s0 s"
  by (simp add: on_db_def Let_def split: prod.splits)

lemma same_http_publish [simp]: "same_http s0 (publish ev s) = same_http s0 s"
  by (simp add: publish_def)

lemma same_http_log_frame [simp]: "same_http s0 (log_frame r c msg s) = same_http s0 s"
  by (auto simp: log_frame_def split: res.splits option.splits)

lemma same_http_send: "hub_send e d msg s = (r, s') \<Longrightarrow> same_http s0 s' = same_http s0 s"
  by (auto simp: hub_send_def Let_def)

lemma same_http_client_send [simp]: "same_http s0 (snd (client_send e c msg s)) = same_http s0 s"
  by (simp add: client_send_def Let_def)

lemmas same_http_simps = respond_def refuse_def deleteOrphanedDiagnosticRequest_def same_http_on_db same_http_send

lemma same_http_handlers:
  "same_http s (snd (handleAdminToken e r s))" "same_http s (snd (handleRegister e r s))"
  "same_http s (snd (handleListDevices e r s))" "same_http s (snd (handleGetDevice e i r s))"
  "same_http s (snd (handleRequestDiagnostics e i r s))" "same_http s (snd (handleListDiagnostics e i r s))"
  "same_http s (snd (handleReadyz r s))"
  subgoal by (simp add: handleAdminToken_def same_http_simps split: option.splits res.splits)
  subgoal by (simp add: handleRegister_def same_http_simps split: option.splits res.splits prod.splits)
  subgoal by (simp add: handleListDevices_def same_http_simps split: option.splits res.splits prod.splits)
  subgoal by (simp add: handleGetDevice_def same_http_simps split: option.splits res.splits prod.splits)
  subgoal by (simp add: handleRequestDiagnostics_def same_http_simps split: option.splits res.splits prod.splits)
  subgoal by (simp add: handleListDiagnostics_def same_http_simps split: option.splits res.splits prod.splits)
  subgoal by (simp add: handleReadyz_def same_http_simps split: option.splits res.splits prod.splits)
  done

lemma same_http_allowMessage: "allowMessage e d s = (ok, s') \<Longrightarrow> same_http s0 s' = same_http s0 s"
  by (auto simp: allowMessage_def Let_def same_http_def IncWSMessageRejected_def split: prod.splits if_splits)

lemma same_http_handleWSMessage: "handleWSMessage e c m s = (r, s') \<Longrightarrow> same_http s0 s' = same_http s0 s"
  by (auto simp: handleWSMessage_def handleHeartbeat_def handleDiagResponse_def Let_def same_http_on_db
      split: if_splits option.splits prod.splits res.splits)

lemma same_http_Run_message: "Run_message e c raw s = (r, s') \<Longrightarrow> same_http s0 s' = same_http s0 s"
  by (auto simp: Run_message_def send_error_def same_http_allowMessage same_http_handleWSMessage
      split: option.splits prod.splits bool.splits res.splits)

lemma same_http_Run_loop: "Run_loop c msgs s = (r, s') \<Longrightarrow> same_http s0 s' = same_http s0 s"
proof (induction c msgs s rule: Run_loop.induct)
  case (2 c e raw msgs s)
  then show ?case
    using same_http_Run_message [of e c raw s] by (auto split: prod.splits option.splits)
qed simp

lemma same_http_Run_deferred: "Run_deferred c s = (r, s') \<Longrightarrow> same_http s0 s' = same_http s0 s"
  by (auto simp: Run_deferred_def Let_def split: prod.splits res.splits if_splits)

lemma same_http_handleWebSocket: "same_http s (snd (handleWebSocket e acc msgs r s))"
proof -
  have run: "same_http s s5" if "Run_loop c msgs (publish ev (snd (on_db f (NewClient c s)))) = (pk, s4)" "Run_deferred c s4 = (z, s5)"
    for c ev f pk s4 z s5
    using same_http_Run_loop [OF that(1), of s] same_http_Run_deferred [OF that(2), of s]
    by (simp add: NewClient_def close_clients_def Let_def split: prod.splits)
  show ?thesis
    by (auto simp: handleWebSocket_def Let_def refuse_def intro: run split: res.splits sum.splits prod.splits option.splits)
qed

lemma same_http_sse_loop: "sse_loop i ins s = (as, s') \<Longrightarrow> same_http s0 s' = same_http s0 s"
proof (induction i ins s arbitrary: as s' rule: sse_loop.induct)
  case (4 i ok ins s)
  show ?case
  proof (cases "receive i (sv_broadcaster s)")
    case (Pair ev b)
    with 4 show ?thesis
      by (cases ev) (auto simp: Let_def apfst_def map_prod_def split: option.splits if_splits prod.splits)
  qed
qed (auto simp: apfst_def map_prod_def split: if_splits prod.splits)

lemma same_http_handleEvents: "same_http s (snd (handleEvents e ins r s))"
  by (auto simp: handleEvents_def Let_def same_http_sse_loop split: prod.splits)

lemma same_http_rateLimit:
  "(\<And>l s. same_http s (put l s)) \<Longrightarrow> (\<And>s. same_http s (snd (h r s))) \<Longrightarrow> same_http s (snd (rateLimit now get put h r s))"
  by (auto simp: rateLimit_def Let_def intro: same_http_trans split: prod.splits)

lemma same_http_adminAuth: "(\<And>s. same_http s (snd (h r s))) \<Longrightarrow> same_http s (snd (adminAuth e h r s))"
  by (auto simp: adminAuth_def requireAuth_def Let_def split: res.splits)

lemma same_http_mux: "same_http s (snd (mux e x r s))"
proof -
  have pl: "same_http s (snd (public_limit e h r s))" if "\<And>s. same_http s (snd (h r s))" for h
    unfolding public_limit_def by (rule same_http_rateLimit) (use that in simp_all)
  have ml: "same_http s (snd (metrics_limit e (metrics_handler x) r s))"
    unfolding metrics_limit_def by (rule same_http_rateLimit) (simp_all add: metrics_handler_def)
  show ?thesis
    by (simp add: mux_def Let_def with_pattern_def pl ml same_http_adminAuth same_http_handlers same_http_handleWebSocket
        same_http_handleEvents handleOpenapi_def handleHealthz_def respond_def)
qed

text \<open>A sequence of requests.\<close>

type_synonym arrival = "(nat \<Rightarrow> time) \<times> call \<times> surroundings \<times> Request"

fun serve_all :: "arrival list \<Rightarrow> server \<Rightarrow> server" where
  "serve_all [] s = s"
| "serve_all ((t, e, x, r) # rs) s = serve_all rs (snd (serve t e x r s))"

lemma httpMethodLabel_range: "httpMethodLabel m \<in> {''GET'', ''POST'', ''other''}"
  by (simp add: httpMethodLabel_def)

lemma labels_record:
  assumes "labels_bounded m" and "route \<in> insert [] routes"
  shows "labels_bounded (record_request (httpMethodLabel meth) route status d m)"
proof -
  have keys: "fst ` set (AList.update k v l) = insert k (fst ` set l)" for k v and l :: "('k \<times> 'v) list"
    by (metis dom_map_of_conv_image_fst dom_fun_upd map_of_update option.distinct(1))
  have "(if route = [] then ''unmatched'' else route) \<in> insert ''unmatched'' routes" using assms(2) by auto
  with assms(1) httpMethodLabel_range [of meth] show ?thesis
    unfolding labels_bounded_def record_request_def Let_def by (simp add: keys)
qed

lemma serve_effect:
  "\<exists>code d. sv_metrics (snd (serve t e x r s)) =
     record_request (httpMethodLabel (rq_Method r)) (rp_pattern (fst (mux e x (r \<lparr> rq_Body := take maxRequestBytes (rq_Body r) \<rparr>) s)))
       code d (sv_metrics (snd (mux e x (r \<lparr> rq_Body := take maxRequestBytes (rq_Body r) \<rparr>) s)))"
proof -
  obtain rp s' where m: "mux e x (r \<lparr> rq_Body := take maxRequestBytes (rq_Body r) \<rparr>) s = (rp, s')" by (metis surj_pair)
  show ?thesis
    unfolding serve_def wrapMiddleware_eq [of "mux e x" r s, OF m] m Let_def by (auto simp: put_log_def upd_metrics_def)
qed


section \<open>Authentication\<close>

definition admin_patterns :: "string set" where
  "admin_patterns = {''GET /api/v1/devices'', ''GET /api/v1/devices/{id}'', ''POST /api/v1/devices/{id}/diagnose'',
     ''GET /api/v1/devices/{id}/diagnostics'', ''GET /api/v1/events''}"

definition admin_token :: "call \<Rightarrow> Request \<Rightarrow> server \<Rightarrow> bool" where
  "admin_token e r s \<longleftrightarrow>
     (\<exists>tok c. header_Get r ''Authorization'' = ''Bearer '' @ tok \<and>
        Validate (jwt e) (sv_jwtMgr s) (clock e 0) tok = Ok c \<and> cl_Role c = RoleAdmin)"

lemma adminAuth_refuses:
  assumes "\<not> admin_token e r s"
  shows "\<exists>code msg. code \<in> {401, 403} \<and> adminAuth e h r s = (reply (writeError code msg), s)"
proof -
  let ?hdr = "header_Get r ''Authorization''"
  consider (none) "?hdr = []" | (scheme) "?hdr \<noteq> []" "\<not> HasPrefix ?hdr ''Bearer ''"
    | (bearer) tok where "?hdr = ''Bearer '' @ tok" "HasPrefix ?hdr ''Bearer ''"
    by (auto simp: HasPrefix_iff)
  then show ?thesis
  proof cases
    case (bearer tok)
    then have "TrimPrefix ?hdr ''Bearer '' = tok" using TrimPrefix_append [of "''Bearer ''" tok] by simp
    with bearer assms show ?thesis
      by (cases "Validate (jwt e) (sv_jwtMgr s) (clock e 0) tok")
        (auto simp: adminAuth_def requireAuth_def admin_token_def RoleAdmin_def Let_def)
  qed (auto simp: adminAuth_def requireAuth_def Let_def)
qed

definition goes_through_auth :: "call \<Rightarrow> Request \<Rightarrow> server \<Rightarrow> reply \<times> server \<Rightarrow> bool" where
  "goes_through_auth e r s out \<longleftrightarrow>
     (rp_pattern (fst out) \<in> admin_patterns \<longrightarrow> (\<exists>h p. out = with_pattern p (adminAuth e h r s)))"

lemma rp_pattern_with [simp]: "rp_pattern (fst (with_pattern p out)) = p"
  by (simp add: with_pattern_def)

lemma goes_through_auth_admin: "goes_through_auth e r s (with_pattern p (adminAuth e h r s))"
  by (auto simp: goes_through_auth_def)

lemma goes_through_auth_other: "p \<notin> admin_patterns \<Longrightarrow> goes_through_auth e r s (with_pattern p out)"
  by (simp add: goes_through_auth_def)

lemma goes_through_auth_none: "goes_through_auth e r s (reply as, s')"
  by (simp add: goes_through_auth_def admin_patterns_def)

lemma other_patterns:
  "''POST /api/v1/auth/admin-token'' \<notin> admin_patterns" "''POST /api/v1/devices/register'' \<notin> admin_patterns"
  "''GET /api/v1/ws'' \<notin> admin_patterns" "''GET /openapi.json'' \<notin> admin_patterns" "''GET /healthz'' \<notin> admin_patterns"
  "''GET /readyz'' \<notin> admin_patterns" "''GET /metrics'' \<notin> admin_patterns"
  by (simp_all add: admin_patterns_def)

lemma mux_admin: "goes_through_auth e r s (mux e x r s)"
  unfolding mux_def Let_def
  by (simp only: goes_through_auth_admin goes_through_auth_other other_patterns goes_through_auth_none simp_thms split: if_split)

text \<open>C19: A request for one of the admin routes without a bearer token that validates under the
  server's secret and carries the admin role is answered 401 or 403 and changes nothing: no
  handler runs, so neither the store, nor the hub, nor the subscribers, nor any limiter is touched.\<close>

theorem admin_routes_guarded:
  assumes "mux e x r s = (rp, s')" and "rp_pattern rp \<in> admin_patterns" and "\<not> admin_token e r s"
  shows "sent_status (rp_actions rp) \<in> {401, 403} \<and> rp_panic rp = None \<and> s' = s"
proof -
  obtain h p where "mux e x r s = with_pattern p (adminAuth e h r s)"
    using mux_admin [of e r s x] assms(1,2) by (auto simp: goes_through_auth_def)
  with adminAuth_refuses [OF assms(3), of h] assms(1) show ?thesis by (auto simp: with_pattern_def)
qed

theorem admin_routes_guarded_witness:
  "\<exists>rp. mux demo_call demo_around (demo_request ''GET'' [''api'', ''v1'', ''devices''] []) demo_server = (rp, demo_server)
     \<and> sent_status (rp_actions rp) \<in> {401, 403}"
proof -
  let ?r = "demo_request ''GET'' [''api'', ''v1'', ''devices''] []"
  obtain rp s' where run: "mux demo_call demo_around ?r demo_server = (rp, s')" by (metis surj_pair)
  have "\<not> admin_token demo_call ?r demo_server" by (simp add: admin_token_def demo_request_def header_Get_def)
  moreover have "rp_pattern (fst (mux demo_call demo_around ?r demo_server)) \<in> admin_patterns"
    by (simp add: mux_def demo_request_def takes_def admin_patterns_def Let_def)
  then have "rp_pattern rp \<in> admin_patterns" using run by simp
  ultimately show ?thesis using admin_routes_guarded [OF run] run by auto
qed

end
