(* ===== verification/Server_Main.thy ===== *)
theory Server_Main
  imports Server_Http Config
begin

text \<open>
  The server's command (\<^verbatim>\<open>cmd/puls-server/main.go\<close>) and the set-up of tracing
  (\<^verbatim>\<open>internal/observability/tracing.go\<close>): start-up from the environment to a listening server, the end of a run,
  and the health check that containers call. Opening a database, the OpenTelemetry library, the listening
  socket and the health check's request are parameters.
\<close>

section \<open>Tracing\<close>

datatype otlp_option = WithEndpointURL string | WithEndpoint string | WithInsecure

record otel_lib =
  otlp_New :: "otlp_option list \<Rightarrow> goerr option"
  resource_New :: "goerr option"
  tp_Shutdown :: "unit res"

definition strings_Contains :: "string \<Rightarrow> string \<Rightarrow> bool" where
  "strings_Contains s p \<longleftrightarrow> list_ex (\<lambda>i. HasPrefix (drop i s) p) [0..<Suc (length s)]"

definition otlp_options :: "string \<Rightarrow> otlp_option list" where
  "otlp_options endpoint =
     (if strings_Contains endpoint ''://'' then [WithEndpointURL endpoint] else [WithEndpoint endpoint, WithInsecure])"

text \<open>The function it returns is represented by the outcome of calling it.\<close>

definition SetupTracing :: "otel_lib \<Rightarrow> string \<Rightarrow> (unit res) res" where
  "SetupTracing lib endpoint =
     (if endpoint = [] then Ok (Ok ())
      else case otlp_New lib (otlp_options endpoint) of
        Some e \<Rightarrow> Err (Wrap ''observability: OTLP exporter: %w'' e)
      | None \<Rightarrow>
          (case resource_New lib of
             Some e \<Rightarrow> Err (Wrap ''observability: build resource: %w'' e)
           | None \<Rightarrow> Ok (tp_Shutdown lib)))"

section \<open>The store\<close>

text \<open>The limits of a connection pool.\<close>

record pool =
  MaxOpenConns :: int
  MaxIdleConns :: int
  ConnMaxLifetime :: duration

text \<open>What \<^verbatim>\<open>sql.Open\<close> gives for a name: the database behind it, or an error.\<close>

record sql_drivers =
  open_pgx :: "string \<Rightarrow> postgres res"
  open_sqlite :: "string \<Rightarrow> sqlite res"

text \<open>The result, and the database as the call leaves it.\<close>

definition initStore :: "sql_drivers \<Rightarrow> Config \<Rightarrow> (store \<times> pool) res \<times> store option" where
  "initStore drv cfg =
     (if DatabaseURL cfg \<noteq> [] then
        (case open_pgx drv (DatabaseURL cfg) of
           Err e \<Rightarrow> (Err (Wrap ''open postgres: %w'' e), None)
         | Panic x \<Rightarrow> (Panic x, None)
         | Ok dbh \<Rightarrow>
             (case run ping dbh of
                (Err e, db1) \<Rightarrow> (Err (Wrap ''ping postgres: %w'' e), Some (PostgresStore db1))
              | (Panic x, db1) \<Rightarrow> (Panic x, Some (PostgresStore db1))
              | (Ok _, db1) \<Rightarrow>
                  (case NewPostgres db1 of
                     (Ok _, db2) \<Rightarrow>
                       (Ok (PostgresStore db2, \<lparr> MaxOpenConns = 15, MaxIdleConns = 5, ConnMaxLifetime = 5 * minute \<rparr>),
                        Some (PostgresStore db2))
                   | (Err e, db2) \<Rightarrow> (Err e, Some (PostgresStore db2))
                   | (Panic x, db2) \<Rightarrow> (Panic x, Some (PostgresStore db2)))))
      else
        (case open_sqlite drv (DBPath cfg) of
           Err e \<Rightarrow> (Err (Wrap ''open sqlite: %w'' e), None)
         | Panic x \<Rightarrow> (Panic x, None)
         | Ok dbh \<Rightarrow>
             (case run ping dbh of
                (Err e, db1) \<Rightarrow> (Err (Wrap ''ping sqlite: %w'' e), Some (SQLiteStore db1))
              | (Panic x, db1) \<Rightarrow> (Panic x, Some (SQLiteStore db1))
              | (Ok _, db1) \<Rightarrow>
                  (case NewSQLite db1 of
                     (Ok _, db2) \<Rightarrow>
                       (Ok (SQLiteStore db2, \<lparr> MaxOpenConns = 1, MaxIdleConns = 1, ConnMaxLifetime = 0 \<rparr>), Some (SQLiteStore db2))
                   | (Err e, db2) \<Rightarrow> (Err e, Some (SQLiteStore db2))
                   | (Panic x, db2) \<Rightarrow> (Panic x, Some (SQLiteStore db2))))))"

section \<open>A run\<close>

datatype slog_level = LevelDebug | LevelInfo | LevelWarn | LevelError
datatype slog_handler = TextHandler slog_level | JSONHandler slog_level

definition buildLogger :: "Config \<Rightarrow> slog_handler" where
  "buildLogger cfg =
     (let level = (if LogLevel cfg = ''debug'' then LevelDebug else if LogLevel cfg = ''warn'' then LevelWarn
                   else if LogLevel cfg = ''error'' then LevelError else LevelInfo)
      in if LogFormat cfg = ''text'' then TextHandler level else JSONHandler level)"

text \<open>
  How the select of \<^verbatim>\<open>run\<close> ends: the server stopped listening, with the errors of the two listen calls, or a signal came
  and \<^verbatim>\<open>Shutdown\<close> returned.
\<close>

datatype ending = Stopped "string \<Rightarrow> string \<Rightarrow> goerr" goerr | Signalled "unit res"

text \<open>The second component is the server that was started, if the run came that far.\<close>

definition server_run :: "environ \<Rightarrow> otel_lib \<Rightarrow> sql_drivers \<Rightarrow> time \<Rightarrow> ending \<Rightarrow> unit res \<times> server option" where
  "server_run e lib drv now fin =
     (case Load e of
        Err err \<Rightarrow> (Err (Wrap ''load config: %w'' err), None)
      | Panic x \<Rightarrow> (Panic x, None)
      | Ok cfg \<Rightarrow>
          (case SetupTracing lib (OTelEndpoint cfg) of
             Err err \<Rightarrow> (Err (Wrap ''setup tracing: %w'' err), None)
           | Panic x \<Rightarrow> (Panic x, None)
           | Ok tracingShutdown \<Rightarrow>
               (case fst (initStore drv cfg) of
                  Err err \<Rightarrow> (Err err, None)
                | Panic x \<Rightarrow> (Panic x, None)
                | Ok (st, _) \<Rightarrow>
                    (case NewManager (JWTSecret cfg) of
                       Err err \<Rightarrow> (Err (Wrap ''init jwt manager: %w'' err), None)
                     | Panic x \<Rightarrow> (Panic x, None)
                     | Ok jwtMgr \<Rightarrow>
                         (let srv = New now cfg st NewHub jwtMgr
                          in (case fin of
                                Stopped listen_tls listen \<Rightarrow> Start listen_tls listen srv
                              | Signalled shutdown \<Rightarrow> (case shutdown of Ok _ \<Rightarrow> tracingShutdown | r \<Rightarrow> r),
                              Some srv))))))"

section \<open>The health check\<close>

text \<open>The URL it asks for, and whether it skips the verification of the certificate.\<close>

definition health_url :: "environ \<Rightarrow> string \<times> bool" where
  "health_url e =
     (let addr0 = Getenv e ''PULS_HTTP_ADDR'';
          addr1 = (if addr0 = [] then '':8080'' else addr0);
          addr = (if hd addr1 = CHR '':'' then ''localhost'' @ addr1 else addr1);
          tls = Getenv e ''PULS_TLS_CERT'' \<noteq> []
      in ((if tls then ''https'' else ''http'') @ ''://'' @ addr @ ''/healthz'', tls))"

text \<open>\<open>get\<close> is the request of the HTTP client: the status of the answer, or an error.\<close>

definition healthcheck :: "(string \<Rightarrow> bool \<Rightarrow> int res) \<Rightarrow> environ \<Rightarrow> int" where
  "healthcheck get e =
     (let (url, insecure) = health_url e
      in case get url insecure of Ok status \<Rightarrow> if status \<noteq> 200 then 1 else 0 | _ \<Rightarrow> 1)"

text \<open>The exit code of the command; a panic ends a Go program with 2.\<close>

definition server_main ::
    "string list \<Rightarrow> (string \<Rightarrow> bool \<Rightarrow> int res) \<Rightarrow> environ \<Rightarrow> otel_lib \<Rightarrow> sql_drivers \<Rightarrow> time \<Rightarrow> ending \<Rightarrow> int" where
  "server_main args get e lib drv now fin =
     (if length args > 1 \<and> args ! 1 = ''healthcheck'' then healthcheck get e
      else case fst (server_run e lib drv now fin) of Ok _ \<Rightarrow> 0 | Err _ \<Rightarrow> 1 | Panic _ \<Rightarrow> 2)"

section \<open>A store that has been started\<close>

text \<open>The rows of a database, whichever tables its schema has.\<close>

definition rows_ok :: "('t \<Rightarrow> bool) \<Rightarrow> ('t, 'z) db_scheme \<Rightarrow> bool" where
  "rows_ok stmp s \<longleftrightarrow> db_inv stmp (s \<lparr> schema_objects := [''devices'', ''heartbeats'', ''diagnostic_results''] \<rparr>)"

lemma db_inv_rows:
  "db_inv stmp s \<longleftrightarrow> has_table s ''devices'' \<and> has_table s ''heartbeats'' \<and> has_table s ''diagnostic_results'' \<and> rows_ok stmp s"
  by (auto simp: rows_ok_def db_inv_def has_table_def)

lemma ping_same: "\<exists>fs. snd (run ping s) = s \<lparr> faults := fs \<rparr>"
  by (rule run_cases [of ping s]) (auto simp: ping_def)

lemma started_sqlite:
  assumes "schema_ok dbh" and "rows_ok stamp dbh" and "NewSQLite dbh = (Ok u, db2)"
  shows "sqlite_inv db2"
proof -
  have "started (dbh\<lparr>foreign_keys := foreign_keys db2\<rparr>) (Ok u, db2)" "foreign_keys db2"
    using new_sqlite_started [OF assms(1)] assms(3) by auto
  then have s: "schema_ok db2" "contents db2 = contents dbh" "2 \<le> user_version db2"
    by (auto simp: started_def contents_def)
  have "rows_ok stamp db2" using assms(2) s(2) by (simp add: rows_ok_def db_inv_def contents_def has_table_def)
  moreover have "{''devices'', ''heartbeats'', ''diagnostic_results''} \<subseteq> set (schema_objects db2)"
    using s(1,3) by (simp add: schema_ok_iff schemaV1_def)
  ultimately show ?thesis using \<open>foreign_keys db2\<close> by (simp add: sqlite_inv_def db_inv_rows has_table_def)
qed

lemma started_postgres:
  assumes "pg_schema_ok dbh" and "\<not> advisory_lock dbh" and "rows_ok (pg_stamp p) dbh" and "NewPostgres dbh = (Ok u, db2)"
  shows "pg_inv p db2"
proof -
  have s: "pg_schema_ok db2" "pg_contents db2 = pg_contents dbh" "schema_versions db2 = [1, 2]"
    using new_postgres_started [OF assms(1,2,4)] by auto
  have "rows_ok (pg_stamp p) db2" using assms(3) s(2) by (simp add: rows_ok_def db_inv_def pg_contents_def has_table_def)
  moreover have "{''devices'', ''heartbeats'', ''diagnostic_results''} \<subseteq> set (schema_objects db2)"
    using s(1,3) by (simp add: pg_schema_ok_def schemaPostgresV1_def)
  ultimately show ?thesis by (simp add: pg_inv_def db_inv_rows has_table_def)
qed

text \<open>What is known of the databases that can be opened: their migrations and rows are those of earlier runs.\<close>

definition drivers_ok :: "store_deps \<Rightarrow> sql_drivers \<Rightarrow> bool" where
  "drivers_ok p drv \<longleftrightarrow> deps_ok (for_sqlite p) \<and> pg_deps_ok (for_postgres p) \<and>
     (\<forall>dsn dbh. open_sqlite drv dsn = Ok dbh \<longrightarrow> schema_ok dbh \<and> rows_ok stamp dbh) \<and>
     (\<forall>dsn dbh. open_pgx drv dsn = Ok dbh \<longrightarrow> pg_schema_ok dbh \<and> \<not> advisory_lock dbh \<and> rows_ok (pg_stamp (for_postgres p)) dbh)"

lemma initStore_ready:
  assumes "drivers_ok p drv" and "fst (initStore drv cfg) = Ok (st, pl)"
  shows "store_inv p st \<and> ((\<exists>dbh. st = SQLiteStore dbh) \<longleftrightarrow> DatabaseURL cfg = []) \<and> (DatabaseURL cfg = [] \<longrightarrow> MaxOpenConns pl = 1)"
proof (cases "DatabaseURL cfg = []")
  case True
  from assms(2) True obtain dbh u db1 v db2 where dbh: "open_sqlite drv (DBPath cfg) = Ok dbh" "run ping dbh = (Ok u, db1)"
    "NewSQLite db1 = (Ok v, db2)" "st = SQLiteStore db2" "MaxOpenConns pl = 1"
    by (auto simp: initStore_def split: res.splits prod.splits)
  obtain fs where fs: "db1 = dbh \<lparr> faults := fs \<rparr>" using ping_same [of dbh] dbh(2) by auto
  have "schema_ok db1" "rows_ok stamp db1"
    using assms(1) dbh(1) by (auto simp: fs drivers_ok_def schema_ok_iff rows_ok_def db_inv_def has_table_def)
  from started_sqlite [OF this dbh(3)] True dbh assms(1) show ?thesis by (auto simp: store_inv_def drivers_ok_def)
next
  case False
  from assms(2) False obtain dbh u db1 v db2 where dbh: "open_pgx drv (DatabaseURL cfg) = Ok dbh" "run ping dbh = (Ok u, db1)"
    "NewPostgres db1 = (Ok v, db2)" "st = PostgresStore db2"
    by (auto simp: initStore_def split: res.splits prod.splits)
  obtain fs where fs: "db1 = dbh \<lparr> faults := fs \<rparr>" using ping_same [of dbh] dbh(2) by auto
  have "pg_schema_ok db1" "\<not> advisory_lock db1" "rows_ok (pg_stamp (for_postgres p)) db1"
    using assms(1) dbh(1) by (auto simp: fs drivers_ok_def pg_schema_ok_def rows_ok_def db_inv_def has_table_def)
  from started_postgres [OF this dbh(3)] False dbh assms(1) show ?thesis by (auto simp: store_inv_def drivers_ok_def)
qed

section \<open>Properties\<close>


definition demo_drivers :: sql_drivers where
  "demo_drivers = \<lparr> open_pgx = (\<lambda>_. Err (ErrText ''no such host'')), open_sqlite = (\<lambda>_. Ok empty_sqlite) \<rparr>"

definition demo_otel :: otel_lib where
  "demo_otel = \<lparr> otlp_New = (\<lambda>_. None), resource_New = None, tp_Shutdown = Ok () \<rparr>"

lemma demo_drivers_ok: "drivers_ok demo_deps demo_drivers"
  by (simp add: drivers_ok_def demo_deps_ok demo_drivers_def empty_sqlite_def schema_ok_iff rows_ok_def db_inv_def has_table_def)


lemma healthz_answer:
  assumes "rq_Method r = ''GET''" and "rq_Segments r = [''healthz'']"
  shows "sent_status (rp_actions (fst (serve t c x r s))) = 200"
  using assms
  by (simp add: serve_def wrapMiddleware_def loggingMiddleware_def Metrics_Middleware_def recoveryMiddleware_def maxBytesMiddleware_def
      mux_def takes_def with_pattern_def handleHealthz_def respond_def Let_def)

text \<open>C39: The health check asks the server it belongs to: for every environment the server accepts and in which the listen
  address is not set to the empty text, it asks for \<^verbatim>\<open>/healthz\<close> at the configured address, on the local host if the address
  names none, over TLS exactly when the server uses TLS. A server that answers at all answers 200, and
  that is the only answer that counts as healthy.\<close>

theorem healthcheck_probes_server:
  assumes "Load e = Ok cfg" and "HTTPAddr cfg \<noteq> []"
  shows "health_url e =
      ((if TLSEnabled cfg then ''https://'' else ''http://'') @ (if hd (HTTPAddr cfg) = CHR '':'' then ''localhost'' else []) @
       HTTPAddr cfg @ ''/healthz'', TLSEnabled cfg) \<and>
    (rq_Method r = ''GET'' \<and> rq_Segments r = [''healthz''] \<longrightarrow> sent_status (rp_actions (fst (serve t c x r s))) = 200) \<and>
    (healthcheck get e = 0 \<longleftrightarrow> get (fst (health_url e)) (snd (health_url e)) = Ok 200) \<and> healthcheck get e \<in> {0, 1}"
proof -
  have addr: "HTTPAddr cfg = env e ''PULS_HTTP_ADDR'' '':8080''" and cert: "TLSCertFile cfg = env e ''PULS_TLS_CERT'' []"
    using assms(1) unfolding Load_Ok_iff by auto
  have "health_url e = ((if TLSEnabled cfg then ''https://'' else ''http://'') @
      (if hd (HTTPAddr cfg) = CHR '':'' then ''localhost'' else []) @ HTTPAddr cfg @ ''/healthz'', TLSEnabled cfg)"
    using addr cert assms(2)
    by (auto simp: health_url_def Getenv_def env_def TLSEnabled_def Let_def split: option.splits)
  moreover have "healthcheck get e \<in> {0, 1}" "healthcheck get e = 0 \<longleftrightarrow> get (fst (health_url e)) (snd (health_url e)) = Ok 200"
    by (auto simp: healthcheck_def case_prod_unfold Let_def split: res.splits if_splits)
  ultimately show ?thesis using healthz_answer by blast
qed

theorem healthcheck_probes_server_witness:
  "fst (health_url demo_environ) = ''http://localhost:8080/healthz'' \<and>
   healthcheck (\<lambda>url insecure. if url = ''http://localhost:8080/healthz'' then Ok 200 else Err (ErrText ''refused'')) demo_environ = 0"
proof -
  have "is_ok (Load demo_environ)" by code_simp
  then obtain cfg where cfg: "Load demo_environ = Ok cfg" by (auto simp: is_ok_iff)
  have f: "HTTPAddr cfg = '':8080''" "TLSCertFile cfg = []"
    using cfg unfolding Load_Ok_iff by (auto simp: env_def demo_environ_def)
  then have n: "HTTPAddr cfg \<noteq> []" by simp
  show ?thesis
    using healthcheck_probes_server [OF cfg n, of "demo_request ''GET'' [''healthz''] []" "\<lambda>_. demo_now" demo_call demo_around demo_server
        "\<lambda>url insecure. if url = ''http://localhost:8080/healthz'' then Ok 200 else Err (ErrText ''refused'')"] f
    by (auto simp: TLSEnabled_def)
qed

text \<open>
  With \<^verbatim>\<open>PULS_HTTP_ADDR\<close> set to the empty text the two disagree: the configuration keeps the empty address, which \<^verbatim>\<open>net/http\<close>
  takes for port 80, and the health check asks port 8080.
\<close>

theorem healthcheck_empty_addr:
  assumes "Load e = Ok cfg" and "e ''PULS_HTTP_ADDR'' = Some []"
  shows "HTTPAddr cfg = [] \<and> fst (health_url e) = (if TLSEnabled cfg then ''https://'' else ''http://'') @ ''localhost:8080/healthz''"
proof -
  have "HTTPAddr cfg = env e ''PULS_HTTP_ADDR'' '':8080''" "TLSCertFile cfg = env e ''PULS_TLS_CERT'' []"
    using assms(1) unfolding Load_Ok_iff by auto
  with assms(2) show ?thesis
    by (auto simp: health_url_def Getenv_def env_def TLSEnabled_def Let_def split: option.splits)
qed

end
