(* ===== verification/Go_Json_Prefix.thy ===== *)
theory Go_Json_Prefix
  imports Go_Struct
begin

text \<open>
  What the JSON parser does with a longer text: a value that the parser has read to its end is read the
  same way when more text follows. So no proper beginning of an object's text is itself an object,
  which is what makes a partly written file recognisable.
\<close>

section \<open>Strings and numbers\<close>

lemma string_body_short:
  assumes "low_surrogate r = None" and "low_surrogate (r @ t) \<noteq> None"
  shows "string_body r = None"
proof -
  obtain a b c d u where rt: "r @ t = backslash # CHR ''u'' # a # b # c # d # u"
    using assms(2) by (auto simp: low_surrogate_def split: list.splits if_splits)
  consider "r = []" | "r = [backslash]" | "r = [backslash, CHR ''u'']" | "r = [backslash, CHR ''u'', a]"
    | "r = [backslash, CHR ''u'', a, b]" | "r = [backslash, CHR ''u'', a, b, c]"
    | v where "r = backslash # CHR ''u'' # a # b # c # d # v"
    using rt by (auto simp: append_eq_Cons_conv)
  then show ?thesis
    using assms rt by cases (auto simp: string_body.simps(2) low_surrogate_def split: option.splits if_splits)
qed

lemma low_surrogate_extend: "low_surrogate s = Some (n, r) \<Longrightarrow> low_surrogate (s @ t) = Some (n, r @ t)"
  by (auto simp: low_surrogate_def split: list.splits if_splits option.splits)

lemma low_surrogate_none: "low_surrogate u = None \<Longrightarrow> string_body u = Some y \<Longrightarrow> low_surrogate (u @ t) = None"
  by (metis string_body_short option.distinct(1))

lemma string_body_extend: "string_body s = Some (x, r) \<Longrightarrow> string_body (s @ t) = Some (x, r @ t)"
proof (induction s arbitrary: x r rule: length_induct)
  case (1 s)
  show ?case
  proof (cases s)
    case Nil
    with "1.prems" show ?thesis by simp
  next
    case (Cons ch r0)
    have IH: "string_body (u @ t) = Some (y, w @ t)" if "string_body u = Some (y, w)" "length u \<le> length r0" for u y w
      using "1.IH" that Cons by (simp add: less_Suc_eq_le)
    from "1.prems" show ?thesis
      unfolding Cons string_body.simps(2) append_Cons
      by (auto split: if_splits list.splits option.splits prod.splits
          simp: low_surrogate_extend low_surrogate_none IH dest: low_surrogate_shorter)
        (drule IH, simp, simp)+
  qed
qed

lemma digits_extend:
  "dropWhile is_digit s \<noteq> [] \<Longrightarrow>
     takeWhile is_digit (s @ t) = takeWhile is_digit s \<and> dropWhile is_digit (s @ t) = dropWhile is_digit s @ t"
  by (induction s) auto

lemma scan_extend:
  "scan_int s = Some (x, r) \<Longrightarrow> r \<noteq> [] \<Longrightarrow> scan_int (s @ t) = Some (x, r @ t)"
  "scan_frac s = Some (x, r) \<Longrightarrow> r \<noteq> [] \<Longrightarrow> scan_frac (s @ t) = Some (x, r @ t)"
  "scan_exp s = Some (x, r) \<Longrightarrow> r \<noteq> [] \<Longrightarrow> scan_exp (s @ t) = Some (x, r @ t)"
proof -
  show "scan_int s = Some (x, r) \<Longrightarrow> r \<noteq> [] \<Longrightarrow> scan_int (s @ t) = Some (x, r @ t)"
    by (cases s) (auto simp: scan_int_def digits_extend split: if_splits)
  show "scan_frac s = Some (x, r) \<Longrightarrow> r \<noteq> [] \<Longrightarrow> scan_frac (s @ t) = Some (x, r @ t)"
    by (cases s) (auto simp: scan_frac_def digits_extend split: if_splits)
  show "scan_exp s = Some (x, r) \<Longrightarrow> r \<noteq> [] \<Longrightarrow> scan_exp (s @ t) = Some (x, r @ t)"
    by (cases s; cases "tl s") (auto simp: scan_exp_def Let_def digits_extend split: if_splits)
qed

lemma scan_number_extend:
  assumes "scan_number s = Some (x, r)" and "r \<noteq> []"
  shows "scan_number (s @ t) = Some (x, r @ t)"
proof -
  define sg where "sg = (case s of x # _ \<Rightarrow> if x = CHR ''-'' then [x] else [] | [] \<Rightarrow> [])"
  from assms obtain i r1 f r2 y where
    i: "scan_int (drop (length sg) s) = Some (i, r1)" and f: "scan_frac r1 = Some (f, r2)"
    and y: "scan_exp r2 = Some (y, r)" "x = sg @ i @ f @ y"
    by (auto simp: scan_number_def Let_def sg_def split: option.splits)
  have "s \<noteq> []" using assms(1) by (auto simp: scan_number_def scan_int_def)
  then have s: "drop (length sg) (s @ t) = drop (length sg) s @ t"
    "(case s @ t of x # _ \<Rightarrow> if x = CHR ''-'' then [x] else [] | [] \<Rightarrow> []) = sg"
    by (auto simp: sg_def neq_Nil_conv)
  have "r2 \<noteq> []" using y(1) assms(2) by (auto simp: scan_exp_def)
  moreover from this have "r1 \<noteq> []" using f by (auto simp: scan_frac_def)
  ultimately show ?thesis
    using i f y assms(2) unfolding scan_number_def Let_def s by (simp add: scan_extend)
qed

section \<open>Values\<close>

lemma skip_ws_extend: "skip_ws s = x # r \<Longrightarrow> skip_ws (s @ t) = x # r @ t"
  unfolding skip_ws_def by (induction s) (auto split: if_splits)

lemma json_Nil [simp]: "json_value n [] = None" "json_elems n [] = None" "json_members n [] = None"
proof -
  show v: "json_value n [] = None" for n by (cases n) simp_all
  show "json_elems n [] = None" "json_members n [] = None" by (cases n; simp add: v)+
qed

text \<open>A number may go on in the text that follows; every other value has an end of its own.\<close>

lemma json_extend_all:
  "(\<forall>s v r. json_value n s = Some (v, r) \<and> (r = [] \<longrightarrow> (\<forall>x. v \<noteq> JNum x)) \<longrightarrow> json_value n (s @ t) = Some (v, r @ t))
   \<and> (\<forall>s vs r. json_elems n s = Some (vs, r) \<longrightarrow> json_elems n (s @ t) = Some (vs, r @ t))
   \<and> (\<forall>s ms r. json_members n s = Some (ms, r) \<longrightarrow> json_members n (s @ t) = Some (ms, r @ t))"
proof (induction n)
  case 0
  then show ?case by simp
next
  case (Suc n)
  have V: "json_value n (s @ t) = Some (v, r @ t)" if "json_value n s = Some (v, r)" "skip_ws r = x # u" for s v r x u
  proof -
    have "r \<noteq> []" using that(2) by (auto simp: skip_ws_def)
    with Suc.IH that(1) show ?thesis by blast
  qed
  have E: "json_elems n (s @ t) = Some (vs, r @ t)" if "json_elems n s = Some (vs, r)" for s vs r
    using Suc.IH that by blast
  have M: "json_members n (s @ t) = Some (ms, r @ t)" if "json_members n s = Some (ms, r)" for s ms r
    using Suc.IH that by blast
  have lit: "strip_lit l (s @ t) = Some (r @ t)" if "strip_lit l s = Some r" for l s r
    using that by (auto simp: strip_lit_def HasPrefix_iff split: if_splits)
  have "json_value (Suc n) (s @ t) = Some (v, r @ t)"
    if v: "json_value (Suc n) s = Some (v, r)" and num: "r = [] \<longrightarrow> (\<forall>x. v \<noteq> JNum x)" for s v r
  proof (cases s)
    case Nil
    with v show ?thesis by simp
  next
    case (Cons ch u)
    have lit': "strip_lit l (c # u @ t) = Some (r @ t)" if "strip_lit l (c # u) = Some r" for l c
      using lit [OF that] by simp
    have E': "json_elems n (x # w @ t) = Some (vs, r @ t)" if "json_elems n (x # w) = Some (vs, r)" for x w vs
      using E [OF that] by simp
    have M': "json_members n (x # w @ t) = Some (ms, r @ t)" if "json_members n (x # w) = Some (ms, r)" for x w ms
      using M [OF that] by simp
    have N': "scan_number (c # u @ t) = Some (x, r @ t)" if "scan_number (c # u) = Some (x, r)" "r \<noteq> []" for c x
      using scan_number_extend [OF that] by simp
    from v num show ?thesis
      unfolding Cons
      by (auto split: if_splits list.splits simp: lit' E' M' N' string_body_extend skip_ws_extend quote_char_neq quote_char_neq [symmetric])
  qed
  moreover have "json_elems (Suc n) (s @ t) = Some (vs, r @ t)" if "json_elems (Suc n) s = Some (vs, r)" for s vs r
    using that
  proof (rule json_elems_SucE)
    fix v u x w
    assume v: "json_value n s = Some (v, u)" and u: "skip_ws u = x # w"
      and fin: "x = CHR '']'' \<and> vs = [v] \<and> r = w
        \<or> x = CHR '','' \<and> (\<exists>vs'. json_elems n (skip_ws w) = Some (vs', r) \<and> vs = v # vs')"
    have "skip_ws (w @ t) = skip_ws w @ t" if "json_elems n (skip_ws w) = Some y" for y
      using that by (cases "skip_ws w") (auto simp: skip_ws_extend simp del: json_value.simps json_elems.simps json_members.simps)
    with fin show ?thesis using V [OF v u] by (auto simp: skip_ws_extend [OF u] E)
  qed
  moreover have "json_members (Suc n) (s @ t) = Some (ms, r @ t)" if "json_members (Suc n) s = Some (ms, r)" for s ms r
    using that
  proof (rule json_members_SucE)
    fix q k u w v y x z
    assume s: "s = quote_char # q" and k: "string_body q = Some (k, u)" and w: "skip_ws u = CHR '':'' # w"
      and v: "json_value n (skip_ws w) = Some (v, y)" and z: "skip_ws y = x # z"
      and fin: "x = CHR ''}'' \<and> ms = [(k, take (length (skip_ws w) - length y) (skip_ws w), v)] \<and> r = z
       \<or> x = CHR '','' \<and> (\<exists>ms'. json_members n (skip_ws z) = Some (ms', r)
          \<and> ms = (k, take (length (skip_ws w) - length y) (skip_ws w), v) # ms')"
    have ww: "skip_ws (w @ t) = skip_ws w @ t"
      using v by (cases "skip_ws w") (auto simp: skip_ws_extend simp del: json_value.simps json_elems.simps json_members.simps)
    have zz: "skip_ws (z @ t) = skip_ws z @ t" if "json_members n (skip_ws z) = Some y" for y
      using that by (cases "skip_ws z") (auto simp: skip_ws_extend simp del: json_value.simps json_elems.simps json_members.simps)
    have "length y \<le> length (skip_ws w)" using value_shorter [OF v] by simp
    with fin show ?thesis
      using V [OF v z] s string_body_extend [OF k] skip_ws_extend [OF w] skip_ws_extend [OF z] ww zz M
      by (auto simp: Let_def)
  qed
  ultimately show ?case by blast
qed

lemma json_prefix_extend:
  assumes "json_prefix p = Some (v, r)" and "\<And>x. v \<noteq> JNum x"
  shows "json_prefix (p @ t) = Some (v, r @ t)"
proof -
  define m where "m = 2 * length (p @ t) + 1"
  have "2 * length (skip_ws p) < 2 * length p + 1" "2 * length (skip_ws p) < m"
    using skip_ws_le [of p] by (simp_all add: m_def)
  then have v: "json_value m (skip_ws p) = Some (v, r)"
    using assms(1) json_fuel_enough unfolding json_prefix_def by metis
  then obtain ch u where ch: "skip_ws p = ch # u" by (cases "skip_ws p") (simp_all add: m_def)
  have "json_prefix (p @ t) = json_value m (skip_ws p @ t)"
    unfolding json_prefix_def m_def [symmetric] using skip_ws_extend [OF ch, of t] ch by simp
  with json_extend_all [of m t] v assms(2) show ?thesis by auto
qed

lemma members_of_extend:
  assumes "members_of p = Some ms"
  shows "members_of (p @ t) = Some ms"
proof (cases "skip_ws p")
  case Nil
  with assms show ?thesis by (simp add: members_of_def)
next
  case (Cons ch r)
  note pt = skip_ws_extend [OF Cons, of t]
  show ?thesis
  proof (cases "ch = CHR ''{''")
    case True
    obtain x r1 where x: "skip_ws r = x # r1"
      using assms Cons True by (cases "skip_ws r") (auto simp: members_of_def)
    have "json_members (2 * length (p @ t) + 2) (x # r1) = json_members (2 * length p + 2) (x # r1)"
    proof -
      have "2 * length (x # r1) + 1 < 2 * length p + 2" using skip_ws_le [of r] skip_ws_Cons [OF Cons] x by simp
      moreover have "2 * length p + 2 \<le> 2 * length (p @ t) + 2" by simp
      ultimately show ?thesis using json_fuel_all [of "2 * length p + 2"] by blast
    qed
    moreover have "json_members n (x # r1) = Some (ms', u) \<Longrightarrow> json_members n (x # r1 @ t) = Some (ms', u @ t)" for n ms' u
      using json_extend_all [of n t] by (metis append_Cons)
    ultimately show ?thesis
      using assms True x skip_ws_extend [OF x, of t]
      unfolding members_of_def Cons pt by (auto simp del: json_members.simps split: if_splits)
  next
    case False
    with assms show ?thesis unfolding members_of_def Cons pt by (auto split: if_splits)
  qed
qed

text \<open>What a decoder reads from a stream that goes on after an object.\<close>

lemma stream_members:
  assumes "json_wf (JObj kvs)"
  shows "struct_members_prefix (print_members (map (apsnd json_print) kvs) @ t) = Some (map (apsnd json_print) kvs)"
proof -
  have "json_prefix (print_members (map (apsnd json_print) kvs)) = Some (JObj kvs, [])"
    unfolding print_members_obj by (rule json_prefix_print [OF assms])
  then have "json_prefix (print_members (map (apsnd json_print) kvs) @ t) \<noteq> None"
    using json_prefix_extend by simp
  with members_of_extend [OF members_of_print [of kvs]] assms show ?thesis
    by (auto simp: struct_members_prefix_def)
qed

text \<open>An object's text has no proper beginning that is a JSON text.\<close>

theorem object_text_prefix:
  assumes "json_parse (p @ t) = Some (JObj kvs)" and "t \<noteq> []" and "\<not> is_ws (List.last (p @ t))"
  shows "json_parse p = None"
proof (rule ccontr)
  assume "json_parse p \<noteq> None"
  then obtain v r where p: "json_prefix p = Some (v, r)" "skip_ws r = []"
    by (auto simp: json_parse_def split: option.splits prod.splits if_splits)
  define m where "m = 2 * length (p @ t) + 1"
  have "2 * length (skip_ws p) < 2 * length p + 1" "2 * length (skip_ws p) < m"
    using skip_ws_le [of p] by (simp_all add: m_def)
  then have v: "json_value m (skip_ws p) = Some (v, r)"
    using p(1) json_fuel_enough unfolding json_prefix_def by metis
  then obtain ch u where ch: "skip_ws p = ch # u" by (cases "skip_ws p") (simp_all add: m_def)
  have pt: "json_prefix (p @ t) = json_value m (skip_ws p @ t)"
    unfolding json_prefix_def m_def [symmetric] using skip_ws_extend [OF ch, of t] ch by simp
  from assms(1) obtain r' where obj: "json_value m (ch # u @ t) = Some (JObj kvs, r')" "skip_ws r' = []"
    using pt ch by (auto simp: json_parse_def split: option.splits prod.splits if_splits)
  have "v \<noteq> JNum x" for x
    using v obj(1) unfolding ch m_def by (auto split: if_splits list.splits)
  then have "r' = r @ t"
    using json_extend_all [of m t] v obj(1) ch by (metis append_Cons option.inject prod.inject)
  then have "\<forall>c \<in> set t. is_ws c" using obj(2) p(2) by (auto simp: skip_ws_def dropWhile_eq_Nil_conv)
  with assms(2,3) show False by (auto simp: List.last_append)
qed

end
