(* ===== verification/Agent_State.thy ===== *)
theory Agent_State
  imports Go_Json_Prefix Go_Number
begin

text \<open>
  The agent's saved registration (\<^verbatim>\<open>cmd/puls-agent/state.go\<close>): reading, writing and removing the state
  file, on a file system whose calls may fail. A failing write may leave any beginning of the data
  behind, as \<^verbatim>\<open>os.WriteFile\<close> truncates first and writes in place.
\<close>

section \<open>The file system\<close>

text \<open>
  What the next call of package \<^verbatim>\<open>os\<close> meets: nothing, a failure before any effect, or a failure after
  part of the effect (for a write: after that many bytes).
\<close>

datatype io_fault = NoFault | Fails goerr | Partial nat goerr

record disk =
  fs_files :: "(string, string) gomap"
  fs_dirs :: "string list"
  fs_faults :: "io_fault list"

definition next_fault :: "disk \<Rightarrow> io_fault \<times> disk" where
  "next_fault d = (case fs_faults d of [] \<Rightarrow> (NoFault, d) | f # fs \<Rightarrow> (f, d \<lparr> fs_faults := fs \<rparr>))"

definition ENOENT :: goerr where
  "ENOENT = ErrText ''no such file or directory''"

definition PathError :: "string \<Rightarrow> string \<Rightarrow> goerr \<Rightarrow> goerr" where
  "PathError op path e = Wrap (op @ '' '' @ path) e"

text \<open>\<^verbatim>\<open>os.IsNotExist\<close> looks under the path error only.\<close>

definition os_IsNotExist :: "goerr \<Rightarrow> bool" where
  "os_IsNotExist e \<longleftrightarrow> (case e of Wrap _ e' \<Rightarrow> e' = ENOENT | _ \<Rightarrow> e = ENOENT)"

text \<open>\<^verbatim>\<open>filepath.Clean\<close> and \<^verbatim>\<open>filepath.Dir\<close> for slash-separated paths.\<close>

fun clean_parts :: "bool \<Rightarrow> string list \<Rightarrow> string list \<Rightarrow> string list" where
  "clean_parts rooted out [] = rev out"
| "clean_parts rooted out (w # ws) =
     (if w = [] \<or> w = ''.'' then clean_parts rooted out ws
      else if w = ''..'' then
        (if out \<noteq> [] \<and> hd out \<noteq> ''..'' then clean_parts rooted (tl out) ws
         else if rooted then clean_parts rooted out ws
         else clean_parts rooted (w # out) ws)
      else clean_parts rooted (w # out) ws)"

definition filepath_Clean :: "string \<Rightarrow> string" where
  "filepath_Clean path =
     (let rooted = path \<noteq> [] \<and> hd path = CHR ''/'';
          body = join_with CHR ''/'' (clean_parts rooted [] (split_on CHR ''/'' path))
      in if rooted then CHR ''/'' # body else if body = [] then ''.'' else body)"

definition filepath_Dir :: "string \<Rightarrow> string" where
  "filepath_Dir path = filepath_Clean (rev (dropWhile (\<lambda>c. c \<noteq> CHR ''/'') (rev path)))"

text \<open>A directory exists if it or one below it was made, or if it is the current or the root directory.\<close>

definition is_dir :: "disk \<Rightarrow> string \<Rightarrow> bool" where
  "is_dir d dir \<longleftrightarrow> dir = ''.'' \<or> dir = ''/'' \<or> list_ex (\<lambda>x. x = dir \<or> HasPrefix x (dir @ ''/'')) (fs_dirs d)"

definition os_ReadFile :: "string \<Rightarrow> disk \<Rightarrow> string res \<times> disk" where
  "os_ReadFile path d =
     (case next_fault d of
        (Fails e, d1) \<Rightarrow> (Err (PathError ''open'' path e), d1)
      | (Partial _ e, d1) \<Rightarrow> (Err (PathError ''read'' path e), d1)
      | (NoFault, d1) \<Rightarrow>
          (case map_of (fs_files d1) path of
             None \<Rightarrow> (Err (PathError ''open'' path ENOENT), d1)
           | Some raw \<Rightarrow> (Ok raw, d1)))"

definition os_MkdirAll :: "string \<Rightarrow> disk \<Rightarrow> unit res \<times> disk" where
  "os_MkdirAll dir d =
     (case next_fault d of
        (NoFault, d1) \<Rightarrow> (Ok (), d1 \<lparr> fs_dirs := dir # fs_dirs d1 \<rparr>)
      | (Fails e, d1) \<Rightarrow> (Err (PathError ''mkdir'' dir e), d1)
      | (Partial _ e, d1) \<Rightarrow> (Err (PathError ''mkdir'' dir e), d1))"

definition os_WriteFile :: "string \<Rightarrow> string \<Rightarrow> disk \<Rightarrow> unit res \<times> disk" where
  "os_WriteFile path raw d =
     (case next_fault d of
        (Fails e, d1) \<Rightarrow> (Err (PathError ''open'' path e), d1)
      | (f, d1) \<Rightarrow>
          if \<not> is_dir d1 (filepath_Dir path) then (Err (PathError ''open'' path ENOENT), d1)
          else (case f of
                  Partial n e \<Rightarrow> (Err (PathError ''write'' path e), d1 \<lparr> fs_files := AList.update path (take n raw) (fs_files d1) \<rparr>)
                | _ \<Rightarrow> (Ok (), d1 \<lparr> fs_files := AList.update path raw (fs_files d1) \<rparr>)))"

definition os_Remove :: "string \<Rightarrow> disk \<Rightarrow> unit res \<times> disk" where
  "os_Remove path d =
     (case next_fault d of
        (Fails e, d1) \<Rightarrow> (Err (PathError ''remove'' path e), d1)
      | (Partial _ e, d1) \<Rightarrow> (Err (PathError ''remove'' path e), d1 \<lparr> fs_files := AList.delete path (fs_files d1) \<rparr>)
      | (NoFault, d1) \<Rightarrow>
          (case map_of (fs_files d1) path of
             None \<Rightarrow> (Err (PathError ''remove'' path ENOENT), d1)
           | Some _ \<Rightarrow> (Ok (), d1 \<lparr> fs_files := AList.delete path (fs_files d1) \<rparr>)))"

section \<open>The state file\<close>

record state =
  state_DeviceID :: string
  state_Token :: string

text \<open>\<^verbatim>\<open>json.MarshalIndent(v, "", "  ")\<close> of a struct, from the texts of its fields.\<close>

fun indent_members :: "(string \<times> string) list \<Rightarrow> string" where
  "indent_members [] = []"
| "indent_members ((k, v) # ms) =
     [CHR 0x0A, CHR 0x20, CHR 0x20] @ json_quote k @ [CHR '':'', CHR 0x20] @ v @ (if ms = [] then [] else CHR '','' # indent_members ms)"

definition marshal_indent :: "(string \<times> string) list \<Rightarrow> string" where
  "marshal_indent ms = CHR ''{'' # indent_members ms @ [CHR 0x0A, CHR ''}'']"

definition state_text :: "state \<Rightarrow> string" where
  "state_text s = marshal_indent [(''deviceId'', json_quote (state_DeviceID s)), (''token'', json_quote (state_Token s))]"

definition unmarshal_state :: "string \<Rightarrow> state option" where
  "unmarshal_state raw = do {
     ms \<leftarrow> struct_members raw;
     i \<leftarrow> read_field ''deviceId'' set_string ms [];
     t \<leftarrow> read_field ''token'' set_string ms [];
     Some \<lparr> state_DeviceID = i, state_Token = t \<rparr> }"

definition loadState :: "string \<Rightarrow> disk \<Rightarrow> state option res \<times> disk" where
  "loadState path d =
     (case os_ReadFile path d of
        (Err e, d1) \<Rightarrow> if os_IsNotExist e then (Ok None, d1) else (Err (Wrap ''read state file: %w'' e), d1)
      | (Panic m, d1) \<Rightarrow> (Panic m, d1)
      | (Ok raw, d1) \<Rightarrow>
          (case unmarshal_state raw of
             None \<Rightarrow> (Err (Wrap ''parse state file: %w'' (ErrText ''json'')), d1)
           | Some s \<Rightarrow> if state_DeviceID s = [] \<or> state_Token s = [] then (Ok None, d1) else (Ok (Some s), d1)))"

definition saveState :: "string \<Rightarrow> state \<Rightarrow> disk \<Rightarrow> unit res \<times> disk" where
  "saveState path s d =
     (let dir = filepath_Dir path;
          (made, d1) = (if dir \<noteq> ''.'' then os_MkdirAll dir d else (Ok (), d))
      in case made of
           Err e \<Rightarrow> (Err (Wrap ''create state dir: %w'' e), d1)
         | Panic m \<Rightarrow> (Panic m, d1)
         | Ok _ \<Rightarrow>
             (case os_WriteFile path (state_text s) d1 of
                (Err e, d2) \<Rightarrow> (Err (Wrap ''write state file: %w'' e), d2)
              | (Panic m, d2) \<Rightarrow> (Panic m, d2)
              | (Ok _, d2) \<Rightarrow> (Ok (), d2)))"

definition clearState :: "string \<Rightarrow> disk \<Rightarrow> unit res \<times> disk" where
  "clearState path d =
     (case os_Remove path d of
        (Err e, d1) \<Rightarrow> if os_IsNotExist e then (Ok (), d1) else (Err (Wrap ''remove state file: %w'' e), d1)
      | (r, d1) \<Rightarrow> (r, d1))"

section \<open>Reading a saved state back\<close>

lemma json_value_quote: "json_value (Suc n) (json_quote s @ r) = Some (JStr s, r)"
  using string_body_quote [of s r] by (simp add: json_quote_def quote_char_neq)

lemma skip_ws_plain: "\<not> is_ws x \<Longrightarrow> skip_ws (x # r) = x # r"
  by (simp add: skip_ws_def)

lemma ws_chars [simp]: "is_ws CHR 0x0A" "is_ws CHR 0x20" "\<not> is_ws quote_char" "\<not> is_ws CHR '':''" "\<not> is_ws CHR ''}''" "\<not> is_ws CHR '',''" "\<not> is_ws CHR ''{''"
  by (simp_all add: is_ws_def quote_char_def)

lemma skip_ws_ws: "is_ws x \<Longrightarrow> skip_ws (x # r) = skip_ws r"
  by (simp add: skip_ws_def)

lemma skip_ws_quote: "skip_ws (json_quote s @ r) = json_quote s @ r"
  by (simp add: json_quote_def skip_ws_plain)

lemma state_members:
  "json_members (Suc (Suc (Suc n))) (skip_ws (indent_members [(k1, json_quote a), (k2, json_quote b)] @ [CHR 0x0A, CHR ''}''])) =
     Some ([(k1, json_quote a, JStr a), (k2, json_quote b, JStr b)], [])"
proof -
  have body: "string_body (concat (map esc_char k) @ quote_char # r) = Some (k, r)" for k r by (rule string_body_quote)
  have one: "json_members (Suc n) (json_quote k @ CHR '':'' # CHR 0x20 # json_quote v @ t) =
     (case skip_ws t of
        x # r4 \<Rightarrow> if x = CHR ''}'' then Some ([(k, json_quote v, JStr v)], r4)
                  else if x = CHR '','' then map_option (apfst (Cons (k, json_quote v, JStr v))) (json_members n (skip_ws r4)) else None
      | [] \<Rightarrow> None)" if pos: "0 < n" for n k v t
  proof -
    obtain m where n: "n = Suc m" using pos by (cases n) auto
    have q: "json_quote k @ CHR '':'' # CHR 0x20 # json_quote v @ t
        = quote_char # (concat (map esc_char k) @ quote_char # (CHR '':'' # CHR 0x20 # json_quote v @ t))"
      by (simp add: json_quote_def)
    show ?thesis
      unfolding q json_members.simps(2)
      by (simp add: body n skip_ws_plain skip_ws_ws skip_ws_quote json_value_quote Let_def
          del: json_members.simps json_value.simps split: list.split)
  qed
  show ?thesis
    by (simp add: one skip_ws_plain skip_ws_ws skip_ws_quote del: json_members.simps json_value.simps)
qed

lemma state_text_parse:
  "json_parse (state_text s) = Some (JObj [(''deviceId'', JStr (state_DeviceID s)), (''token'', JStr (state_Token s))])"
  "struct_members (state_text s) = Some [(''deviceId'', json_quote (state_DeviceID s)), (''token'', json_quote (state_Token s))]"
proof -
  let ?ms = "[(''deviceId'', json_quote (state_DeviceID s)), (''token'', json_quote (state_Token s))]"
  let ?b = "indent_members ?ms @ [CHR 0x0A, CHR ''}'']"
  have t: "state_text s = CHR ''{'' # ?b" by (simp add: state_text_def marshal_indent_def)
  obtain w where w: "skip_ws ?b = quote_char # w"
    by (simp add: skip_ws_ws json_quote_def skip_ws_plain)
  have m: "json_members n (quote_char # w) = Some ([(''deviceId'', json_quote (state_DeviceID s), JStr (state_DeviceID s)),
      (''token'', json_quote (state_Token s), JStr (state_Token s))], [])" if n3: "3 \<le> n" for n
  proof -
    obtain k where "n = Suc (Suc (Suc k))" using le_Suc_ex [OF n3] by (auto simp: numeral_3_eq_3)
    with state_members [of k "''deviceId''" "state_DeviceID s" "''token''" "state_Token s"] w show ?thesis by metis
  qed
  have len: "3 \<le> length ?b" by simp
  have pre: "json_prefix (state_text s) = Some (JObj [(''deviceId'', JStr (state_DeviceID s)), (''token'', JStr (state_Token s))], [])"
  proof -
    have "json_prefix (state_text s) = json_value (Suc (2 * length ?b + 2)) (CHR ''{'' # ?b)"
      unfolding json_prefix_def t by (simp add: skip_ws_plain del: json_value.simps indent_members.simps)
    also have "\<dots> = Some (JObj [(''deviceId'', JStr (state_DeviceID s)), (''token'', JStr (state_Token s))], [])"
      using m [of "2 * length ?b + 2"] len unfolding json_value.simps(2)
      by (simp add: w quote_char_def del: json_value.simps json_members.simps indent_members.simps)
    finally show ?thesis .
  qed
  then show parse: "json_parse (state_text s) = Some (JObj [(''deviceId'', JStr (state_DeviceID s)), (''token'', JStr (state_Token s))])"
    by (simp add: json_parse_def skip_ws_def)
  have "members_of (state_text s) = Some ?ms"
    using m [of "2 * length (state_text s) + 2"] w
    unfolding members_of_def by (simp add: t skip_ws_plain quote_char_def del: json_members.simps indent_members.simps)
  with parse show "struct_members (state_text s) = Some ?ms" by (simp add: struct_members_def)
qed

lemma state_names: "fold_name ''deviceId'' = ''DEVICEID''" "fold_name ''token'' = ''TOKEN''"
  by (subst fold_name_ascii, code_simp, code_simp)+

lemma set_string_quote: "set_string (json_quote s) v = Some s"
  using set_string_print [of s v] by simp

lemma unmarshal_state_text: "unmarshal_state (state_text s) = Some s"
  by (simp add: unmarshal_state_def state_text_parse(2) state_names set_string_quote)

lemma unmarshal_state_cut:
  assumes "unmarshal_state (take n (state_text s)) = Some s'"
  shows "s' = s"
proof (cases "drop n (state_text s) = []")
  case True
  then have "take n (state_text s) = state_text s" by simp
  with assms unmarshal_state_text show ?thesis by simp
next
  case False
  have "json_parse (take n (state_text s)) = None"
  proof (rule object_text_prefix)
    show "drop n (state_text s) \<noteq> []" by (rule False)
    show "\<not> is_ws (List.last (take n (state_text s) @ drop n (state_text s)))"
      unfolding append_take_drop_id by (simp add: state_text_def marshal_indent_def)
    show "json_parse (take n (state_text s) @ drop n (state_text s)) =
        Some (JObj [(''deviceId'', JStr (state_DeviceID s)), (''token'', JStr (state_Token s))])"
      unfolding append_take_drop_id by (rule state_text_parse)
  qed
  with assms show ?thesis by (simp add: unmarshal_state_def struct_members_def)
qed

section \<open>Properties\<close>

text \<open>The content of a file, and what \<^verbatim>\<open>loadState\<close> makes of it when the read succeeds.\<close>

definition loads :: "string \<Rightarrow> disk \<Rightarrow> state option res" where
  "loads path d = fst (loadState path (d \<lparr> fs_faults := [] \<rparr>))"

lemma loads_eq:
  "loads path d =
     (case map_of (fs_files d) path of
        None \<Rightarrow> Ok None
      | Some raw \<Rightarrow>
          (case unmarshal_state raw of
             None \<Rightarrow> Err (Wrap ''parse state file: %w'' (ErrText ''json''))
           | Some s \<Rightarrow> if state_DeviceID s = [] \<or> state_Token s = [] then Ok None else Ok (Some s)))"
  by (simp add: loads_def loadState_def os_ReadFile_def next_fault_def os_IsNotExist_def PathError_def split: option.split)

lemma next_fault_files [simp]: "next_fault d = (f, d1) \<Longrightarrow> fs_files d1 = fs_files d \<and> fs_dirs d1 = fs_dirs d"
  by (auto simp: next_fault_def split: list.splits)

lemma MkdirAll_files: "os_MkdirAll dir d = (r, d1) \<Longrightarrow> fs_files d1 = fs_files d"
  by (auto simp: os_MkdirAll_def split: prod.splits io_fault.splits)

lemma WriteFile_files:
  assumes "os_WriteFile path raw d = (r, d1)"
  shows "(fs_files d1 = fs_files d \<and> \<not> is_ok r) \<or> (\<exists>n. fs_files d1 = AList.update path (take n raw) (fs_files d) \<and> (is_ok r \<longrightarrow> take n raw = raw))"
  using assms
  by (auto simp: os_WriteFile_def split: prod.splits io_fault.splits if_splits) (metis take_all_iff order_refl)+

lemma io_no_panic: "os_MkdirAll dir d \<noteq> (Panic m, d1)" "os_WriteFile path raw d \<noteq> (Panic m, d1)"
  by (auto simp: os_MkdirAll_def os_WriteFile_def split: prod.splits io_fault.splits)

text \<open>The write happens as a whole, in part, or not at all.\<close>

lemma saveState_files:
  assumes "saveState path s d = (r, d')"
  shows "(fs_files d' = fs_files d \<and> \<not> is_ok r) \<or>
    (\<exists>n. fs_files d' = AList.update path (take n (state_text s)) (fs_files d) \<and> (is_ok r \<longrightarrow> take n (state_text s) = state_text s))"
proof -
  obtain made d1 where m: "(if filepath_Dir path \<noteq> ''.'' then os_MkdirAll (filepath_Dir path) d else (Ok (), d)) = (made, d1)"
    by (metis surj_pair)
  then have d1: "fs_files d1 = fs_files d" by (auto dest: MkdirAll_files split: if_splits)
  obtain w d2 where w: "os_WriteFile path (state_text s) d1 = (w, d2)" by (metis surj_pair)
  show ?thesis
    using assms m w WriteFile_files [OF w] d1 by (cases made; cases w) (auto simp: saveState_def)
qed

text \<open>C32: However the calls to the file system fail while the registration is saved, a later start reads
  either exactly the state that was being saved, or what it would have read before, or it reports the
  file as unreadable: a write cut short never leaves a file that loads as some other device or
  token. When \<^verbatim>\<open>saveState\<close> returns nil, the saved state is what \<^verbatim>\<open>loadState\<close> returns. Other files keep their content.\<close>

theorem state_file_safe:
  assumes "state_DeviceID s \<noteq> []" and "state_Token s \<noteq> []" and "saveState path s d = (r, d')"
  shows "(r = Ok () \<longrightarrow> loads path d' = Ok (Some s)) \<and>
    (\<forall>m. r \<noteq> Panic m) \<and>
    (loads path d' = Ok (Some s) \<or> loads path d' = loads path d \<or> (\<exists>e. loads path d' = Err e)) \<and>
    (\<forall>q. q \<noteq> path \<longrightarrow> map_of (fs_files d') q = map_of (fs_files d) q)"
proof -
  have np: "\<forall>m. r \<noteq> Panic m"
    using assms(3) by (auto simp: saveState_def io_no_panic Let_def split: prod.splits res.splits if_splits)
  from saveState_files [OF assms(3)] show ?thesis
  proof
    assume "fs_files d' = fs_files d \<and> \<not> is_ok r"
    with np show ?thesis by (cases r) (auto simp: loads_eq)
  next
    assume "\<exists>n. fs_files d' = AList.update path (take n (state_text s)) (fs_files d) \<and>
      (is_ok r \<longrightarrow> take n (state_text s) = state_text s)"
    then obtain n where n: "fs_files d' = AList.update path (take n (state_text s)) (fs_files d)"
      "is_ok r \<longrightarrow> take n (state_text s) = state_text s" by blast
    have "loads path d' = Ok (Some s) \<or> (\<exists>e. loads path d' = Err e)"
      using assms(1,2) unmarshal_state_cut [of n s] by (auto simp: loads_eq n(1) split: option.split)
    moreover have "loads path d' = Ok (Some s)" if "r = Ok ()"
      using that n assms(1,2) by (simp add: loads_eq unmarshal_state_text)
    ultimately show ?thesis using np n(1) by auto
  qed
qed

definition demo_state :: state where
  "demo_state = \<lparr> state_DeviceID = ''d1'', state_Token = ''}'' \<rparr>"

definition torn_disk :: disk where
  "torn_disk = \<lparr> fs_files = [], fs_dirs = [], fs_faults = [NoFault, Partial 38 (ErrText ''no space left on device'')] \<rparr>"

theorem state_file_safe_witness:
  "\<exists>r d'. saveState ''/home/p/.config/puls-agent/state.json'' demo_state torn_disk = (r, d') \<and> \<not> is_ok r \<and> fs_files d' \<noteq> [] \<and>
     loads ''/home/p/.config/puls-agent/state.json'' d' \<in> {Ok (Some demo_state), Ok None} \<union> range Err"
proof -
  let ?p = "''/home/p/.config/puls-agent/state.json''"
  obtain r d' where run: "saveState ?p demo_state torn_disk = (r, d')" by (metis surj_pair)
  have r: "\<not> is_ok (fst (saveState ?p demo_state torn_disk))" by code_simp
  have d: "fs_files (snd (saveState ?p demo_state torn_disk)) \<noteq> []" by code_simp
  have b: "loads ?p torn_disk = Ok None" by (simp add: loads_eq torn_disk_def)
  have "state_DeviceID demo_state \<noteq> []" "state_Token demo_state \<noteq> []" by (simp_all add: demo_state_def)
  from state_file_safe [OF this run] r d b run show ?thesis by auto
qed

lemma state_file_round:
  assumes "fs_faults d = []" and "state_DeviceID s \<noteq> []" and "state_Token s \<noteq> []"
  shows "\<exists>d'. saveState path s d = (Ok (), d') \<and> loadState path d' = (Ok (Some s), d')"
proof -
  have dir: "is_dir (d \<lparr> fs_dirs := filepath_Dir path # fs_dirs d \<rparr>) (filepath_Dir path)"
    "filepath_Dir path = ''.'' \<Longrightarrow> is_dir d (filepath_Dir path)"
    by (simp_all add: is_dir_def)
  have "loadState path d' = (Ok (Some s), d')" if "fs_faults d' = []" "map_of (fs_files d') path = Some (state_text s)" for d'
    using that assms(2,3) by (simp add: loadState_def os_ReadFile_def next_fault_def unmarshal_state_text)
  moreover have "\<exists>d'. saveState path s d = (Ok (), d') \<and> fs_faults d' = [] \<and> map_of (fs_files d') path = Some (state_text s)"
    using assms(1) dir by (auto simp: saveState_def os_MkdirAll_def os_WriteFile_def next_fault_def Let_def)
  ultimately show ?thesis by metis
qed

text \<open>C33: On a working file system the state round-trips through a directory that did not exist before, and
  after \<^verbatim>\<open>clearState\<close> has returned nil the next start finds no registration.\<close>

theorem state_file_roundtrip:
  assumes "fs_faults d = []" and "state_DeviceID s \<noteq> []" and "state_Token s \<noteq> []"
  shows "(\<exists>d'. saveState path s d = (Ok (), d') \<and> loadState path d' = (Ok (Some s), d')) \<and>
    (\<exists>d'. clearState path d = (Ok (), d') \<and> loadState path d' = (Ok None, d'))"
proof -
  have "\<exists>d'. clearState path d = (Ok (), d') \<and> fs_faults d' = [] \<and> map_of (fs_files d') path = None"
    using assms(1)
    by (cases "map_of (fs_files d) path") (auto simp: clearState_def os_Remove_def next_fault_def os_IsNotExist_def PathError_def)
  moreover have "loadState path d' = (Ok None, d')" if "fs_faults d' = []" "map_of (fs_files d') path = None" for d'
    using that by (simp add: loadState_def os_ReadFile_def next_fault_def os_IsNotExist_def PathError_def)
  ultimately show ?thesis using state_file_round [OF assms] by metis
qed

theorem state_file_roundtrip_witness:
  "\<exists>d'. saveState ''a/b/state.json'' demo_state \<lparr> fs_files = [], fs_dirs = [], fs_faults = [] \<rparr> = (Ok (), d') \<and>
     loadState ''a/b/state.json'' d' = (Ok (Some demo_state), d')"
  using state_file_roundtrip [of "\<lparr> fs_files = [], fs_dirs = [], fs_faults = [] \<rparr>" demo_state "''a/b/state.json''"]
  by (simp add: demo_state_def)

end
