(* ===== verification/Go_Float.thy ===== *)
theory Go_Float
  imports Go_Number
begin

text \<open>
  Conversion to float32 gives a float32, and the JSON text of a float64: the shortest decimal that
  rounds to it, as \<^verbatim>\<open>strconv\<close> prints it.
\<close>

section \<open>Rounding to float32 is a projection\<close>

lemma round_even_ge: "of_int n \<le> q \<Longrightarrow> n \<le> round_even q"
proof -
  assume "of_int n \<le> q"
  then have "n \<le> \<lfloor>q\<rfloor>" by (simp add: le_floor_iff)
  then show ?thesis unfolding round_even_def Let_def by auto
qed

lemma round_even_le: "q < of_int n \<Longrightarrow> round_even q \<le> n"
proof -
  assume "q < of_int n"
  then have "\<lfloor>q\<rfloor> < n" by (simp add: floor_less_iff)
  then show ?thesis unfolding round_even_def Let_def by auto
qed

lemma find_upto:
  assumes "find P [a..b] = Some (k :: int)"
  shows "a \<le> k" "k \<le> b" "P k" "k = a \<or> \<not> P (k - 1)"
proof -
  from assms obtain i where i: "i < length [a..b]" "P ([a..b] ! i)" "k = [a..b] ! i" "\<forall>j<i. \<not> P ([a..b] ! j)"
    unfolding find_Some_iff by auto
  then have k: "k = a + int i" by (simp add: nth_upto)
  show "a \<le> k" "k \<le> b" "P k" using i k by auto
  show "k = a \<or> \<not> P (k - 1)"
  proof (cases i)
    case (Suc j)
    then have "\<not> P ([a..b] ! j)" "[a..b] ! j = k - 1" using i k by (auto simp: nth_upto)
    then show ?thesis by simp
  qed (use k in simp)
qed

lemma ulp_exp_Some:
  assumes "ulp_exp a = Some k"
  shows "-149 \<le> k" "k \<le> 104" "a < power_int 2 (k + 24)" "k = -149 \<or> power_int 2 (k + 23) \<le> a"
  using find_upto [OF assms [unfolded ulp_exp_def]] by (auto simp: not_less algebra_simps)

lemma is_f32_small:
  assumes "0 \<le> m" and "m < 2 ^ 23"
  shows "is_f32 (of_int m * power_int 2 (- 149))"
proof -
  define v :: rat where "v = of_int m * power_int 2 (- 149)"
  have v0: "0 \<le> v" using assms(1) by (simp add: v_def)
  have "m < 2 ^ 24" by (rule less_trans [OF assms(2)]) simp
  then have "(of_int m :: rat) < of_int (2 ^ 24)" by (simp only: of_int_less_iff)
  then have "v < 2 ^ 24 * power_int 2 (- 149)" unfolding v_def by (intro mult_strict_right_mono) simp_all
  also have "2 ^ 24 * power_int 2 (- 149) = (power_int 2 (- 149 + 24) :: rat)" by (simp add: power_int_minus field_simps)
  finally have hi: "v < power_int 2 (- 149 + 24)" .
  have ulp: "ulp_exp \<bar>v\<bar> = Some (- 149)"
    unfolding ulp_exp_def by (subst upto.simps) (use hi v0 in simp)
  have "\<bar>v\<bar> / power_int 2 (- 149) = of_int m" using v0 by (simp add: v_def)
  then have r: "round_even (\<bar>v\<bar> / power_int 2 (- 149)) = m" by (simp add: round_even_def Let_def)
  have "(power_int 2 (- 149 + 24) :: rat) \<le> 2 ^ 128" by (simp add: power_int_minus field_simps)
  then have "\<not> v \<ge> 2 ^ 128" using hi by linarith
  then have "f32_round v = Some v" using v0 ulp r by (simp add: f32_round_def Let_def v_def)
  then show ?thesis by (simp add: is_f32_def v_def)
qed

lemma f32_round_is_f32:
  assumes "f32_round q = Some v"
  shows "is_f32 v"
proof -
  from assms obtain k where k: "ulp_exp \<bar>q\<bar> = Some k"
    and w: "of_int (round_even (\<bar>q\<bar> / power_int 2 k)) * power_int 2 k < (2 ^ 128 :: rat)"
    and v: "v = (if q < 0 then - (of_int (round_even (\<bar>q\<bar> / power_int 2 k)) * power_int 2 k)
                 else of_int (round_even (\<bar>q\<bar> / power_int 2 k)) * power_int 2 k)"
    by (auto simp: f32_round_def Let_def split: option.splits if_splits)
  define m where "m = round_even (\<bar>q\<bar> / power_int 2 k)"
  note b = ulp_exp_Some [OF k]
  have pos: "(0 :: rat) < power_int 2 k" by simp
  have "\<bar>q\<bar> / power_int 2 k < of_int (2 ^ 24)"
    using b(3) pos by (simp add: power_int_add divide_less_eq mult.commute)
  then have m24: "m \<le> 2 ^ 24" unfolding m_def by (rule round_even_le)
  have m0: "0 \<le> m" unfolding m_def by (rule round_even_ge) simp
  have m23: "2 ^ 23 \<le> m" if "k \<noteq> -149"
  proof -
    have "of_int (2 ^ 23) \<le> \<bar>q\<bar> / power_int 2 k"
      using b(4) that pos by (simp add: power_int_add le_divide_eq mult.commute)
    then show ?thesis unfolding m_def by (rule round_even_ge)
  qed
  have "is_f32 (of_int m * power_int 2 k)"
  proof (cases "m = 2 ^ 24")
    case True
    then have eq: "(of_int m * power_int 2 k :: rat) = of_int (2 ^ 23) * power_int 2 (k + 1)" by (simp add: power_int_add)
    have "k + 1 \<le> 104"
    proof (rule ccontr)
      assume "\<not> k + 1 \<le> 104"
      with b(2) have "k = 104" by simp
      with True w show False unfolding m_def [symmetric] by simp
    qed
    with b(1) show ?thesis unfolding eq by (intro is_f32_normal) auto
  next
    case False
    with m24 have "m < 2 ^ 24" by simp
    show ?thesis
    proof (cases "m < 2 ^ 23")
      case True
      with m23 have "k = -149" by fastforce
      show ?thesis unfolding \<open>k = -149\<close> using m0 True by (rule is_f32_small)
    next
      case False
      with \<open>m < 2 ^ 24\<close> b(1,2) show ?thesis by (intro is_f32_normal) simp_all
    qed
  qed
  then have "is_f32 (- (of_int m * power_int 2 k))" by (simp add: is_f32_def f32_round_neg)
  with \<open>is_f32 (of_int m * power_int 2 k)\<close> show ?thesis unfolding v m_def by (simp only: simp_thms split: if_split)
qed

section \<open>Printing a float64\<close>

definition ulp_exp64 :: "rat \<Rightarrow> int option" where
  "ulp_exp64 a = find (\<lambda>k. a < power_int 2 (k + 53)) [-1074..971]"

definition f64_round :: "rat \<Rightarrow> rat option" where
  "f64_round q =
     (case ulp_exp64 \<bar>q\<bar> of
        None \<Rightarrow> None
      | Some k \<Rightarrow>
          let v = of_int (round_even (\<bar>q\<bar> / power_int 2 k)) * power_int 2 k
          in if v \<ge> 2 ^ 1024 then None else Some (if q < 0 then - v else v))"

definition is_f64 :: "rat \<Rightarrow> bool" where
  "is_f64 v \<longleftrightarrow> f64_round v = Some v"

definition dec_exp64 :: "rat \<Rightarrow> int" where
  "dec_exp64 v = (case find (\<lambda>p. v < power_int 10 (p + 1)) [-325..309] of Some p \<Rightarrow> p | None \<Rightarrow> 309)"

definition neighbours64 :: "rat \<Rightarrow> int \<Rightarrow> decimal list" where
  "neighbours64 v n =
     (let e = dec_exp64 v - n + 1; q = v / power_int 10 e; m = \<lfloor>q\<rfloor>
      in if q - of_int m \<le> 1 / 2 then [(m, e), (m + 1, e)] else [(m + 1, e), (m, e)])"

definition exact_decimal64 :: "rat \<Rightarrow> decimal" where
  "exact_decimal64 v = (let k = 1074 in (\<lfloor>v * 10 ^ k\<rfloor>, - int k))"

definition shortest_decimal64 :: "rat \<Rightarrow> decimal" where
  "shortest_decimal64 v =
     (case find (\<lambda>d. 0 < fst d \<and> f64_round (dec_value d) = Some v) (concat (map (neighbours64 v) [1..17])) of
        Some d \<Rightarrow> strip_zeros (fst d) (snd d)
      | None \<Rightarrow> strip_zeros (fst (exact_decimal64 v)) (snd (exact_decimal64 v)))"

definition float64_text :: "rat \<Rightarrow> string" where
  "float64_text v =
     (if v = 0 then ''0''
      else let a = \<bar>v\<bar>; d = shortest_decimal64 a
           in (if v < 0 then ''-'' else []) @ (if a < 1 / 10 ^ 6 \<or> a \<ge> 10 ^ 21 then fmtE d else fmtF d))"

lemma is_f64_abs_min:
  assumes "is_f64 v" and "v \<noteq> 0"
  shows "power_int 2 (- 1074) \<le> \<bar>v\<bar>"
proof -
  from assms(1) obtain k where k: "ulp_exp64 \<bar>v\<bar> = Some k"
    and v: "\<bar>v\<bar> = \<bar>of_int (round_even (\<bar>v\<bar> / power_int 2 k)) * power_int 2 k\<bar>"
    by (auto simp: is_f64_def f64_round_def Let_def split: option.splits if_splits)
  define m where "m = round_even (\<bar>v\<bar> / power_int 2 k)"
  have "-1074 \<le> k" using k unfolding ulp_exp64_def find_Some_iff by (metis atLeastAtMost_iff nth_mem set_upto)
  then have "(power_int 2 (- 1074) :: rat) \<le> power_int 2 k" by (intro power_int_increasing) auto
  also have "m \<noteq> 0" using v assms(2) unfolding m_def [symmetric] by auto
  then have "(1 :: rat) \<le> of_int \<bar>m\<bar>" by (simp only: of_int_1_le_iff)
  then have "power_int 2 k \<le> of_int \<bar>m\<bar> * (power_int 2 k :: rat)" by (simp add: mult_le_cancel_right1 not_less [THEN iffD2])
  also have "\<dots> = \<bar>v\<bar>" using v unfolding m_def [symmetric] by (simp add: abs_mult)
  finally show ?thesis .
qed

lemma scaled_floor_pos:
  assumes "power_int 2 (- int n) \<le> (v :: rat)"
  shows "1 \<le> \<lfloor>v * 10 ^ n\<rfloor>"
proof -
  have "(10 :: rat) ^ n = 2 ^ n * 5 ^ n" by (simp add: power_mult_distrib [symmetric])
  then have "power_int 2 (- int n) * 10 ^ n = (5 :: rat) ^ n" by (simp add: power_int_minus)
  moreover have "(1 :: rat) \<le> 5 ^ n" by simp
  moreover have "power_int 2 (- int n) * 10 ^ n \<le> v * 10 ^ n" using assms by (intro mult_right_mono) auto
  ultimately have "1 \<le> v * 10 ^ n" by linarith
  then show ?thesis by simp
qed

lemma exact_decimal64_pos: "power_int 2 (- 1074) \<le> v \<Longrightarrow> 0 < fst (exact_decimal64 v)"
  using scaled_floor_pos [of 1074 v] unfolding exact_decimal64_def Let_def fst_conv of_nat_numeral by linarith

lemma float64_text_num_ok:
  assumes "is_f64 v"
  shows "num_ok (float64_text v)"
proof (cases "v = 0")
  case True
  have "num_ok ''0''" by (simp add: num_ok_def scan_number_def scan_int_def scan_frac_def scan_exp_def)
  with True show ?thesis by (simp add: float64_text_def)
next
  case False
  have "0 < fst (shortest_decimal64 \<bar>v\<bar>)"
  proof (cases "find (\<lambda>d. 0 < fst d \<and> f64_round (dec_value d) = Some \<bar>v\<bar>) (concat (map (neighbours64 \<bar>v\<bar>) [1..17]))")
    case None
    then show ?thesis
      using exact_decimal64_pos [OF is_f64_abs_min [OF assms False]] by (simp only: shortest_decimal64_def option.case strip_zeros_pos)
  next
    case (Some d)
    then have "0 < fst d" by (auto simp: find_Some_iff)
    then show ?thesis by (simp only: shortest_decimal64_def Some option.case strip_zeros_pos)
  qed
  then have "num_ok (fmtE (shortest_decimal64 \<bar>v\<bar>))" "num_ok (fmtF (shortest_decimal64 \<bar>v\<bar>))"
    "num_ok (''-'' @ fmtE (shortest_decimal64 \<bar>v\<bar>))" "num_ok (''-'' @ fmtF (shortest_decimal64 \<bar>v\<bar>))"
    by (simp_all add: fmt_value)
  then show ?thesis
    using False unfolding float64_text_def Let_def by (simp only: if_False append_Nil split: if_split) simp
qed

end
