(* ===== verification/Agent_Stats.thy ===== *)
theory Agent_Stats
  imports Go_Float Messages Model "HOL-Library.Word" "HOL-Library.Multiset"
begin

text \<open>
  What the agent measures (\<^verbatim>\<open>cmd/puls-agent/stats.go\<close>): the sample of a heartbeat and the payload of a
  diagnostic response. The measurements themselves are calls of gopsutil and come from a parameter;
  \<^verbatim>\<open>sort.Slice\<close>, which leaves the order of equal elements open, is one too.
\<close>

section \<open>The host\<close>

record host_info =
  hi_Hostname :: string
  hi_Platform :: string
  hi_PlatformVersion :: string
  hi_KernelVersion :: string
  hi_Uptime :: "64 word"

record usage_stat =
  us_UsedPercent :: rat
  us_Total :: "64 word"

record interface_stat =
  if_Name :: string
  if_Addrs :: "string list"

record partition_stat =
  pt_Device :: string
  pt_Mountpoint :: string
  pt_Fstype :: string

text \<open>A process: its name may fail to be read; the CPU and memory shares are used whatever their error.\<close>

record process_stat =
  ps_Pid :: int
  ps_Name :: "string res"
  ps_CPU :: rat
  ps_Mem :: rat

text \<open>
  The results of the gopsutil calls. \<^verbatim>\<open>host.InfoWithContext\<close> may return a value beside an error, so its
  two results are kept apart.
\<close>

record gopsutil =
  cpu_Percent :: "rat list res"
  cpu_Counts :: "int res"
  mem_VirtualMemory :: "usage_stat res"
  disk_Usage :: "string \<Rightarrow> usage_stat res"
  disk_Partitions :: "partition_stat list res"
  host_Info :: "host_info option"
  host_Info_err :: "goerr option"
  net_Interfaces :: "interface_stat list res"
  process_Processes :: "process_stat list res"

section \<open>Heartbeats\<close>

definition diskRoot :: "string \<Rightarrow> string" where
  "diskRoot GOOS = (if GOOS = ''windows'' then ''C:'' @ [backslash] else ''/'')"

text \<open>
  \<^verbatim>\<open>float32(x)\<close>. A value out of range becomes infinite, which \<^verbatim>\<open>json.Marshal\<close> refuses; the error is raised
  here, where the value arises.
\<close>

definition to_float32 :: "rat \<Rightarrow> rat res" where
  "to_float32 q = (case f32_round q of Some v \<Rightarrow> Ok v | None \<Rightarrow> Err (ErrText ''json: unsupported value: +Inf''))"

text \<open>A field that is only set when its measurement succeeds.\<close>

definition measured :: "rat option \<Rightarrow> rat res" where
  "measured m = (case m of None \<Rightarrow> Ok 0 | Some q \<Rightarrow> to_float32 q)"

definition heartbeatData :: "string \<Rightarrow> gopsutil \<Rightarrow> HeartbeatData res" where
  "heartbeatData GOOS g =
     (let cpu = measured (case cpu_Percent g of Ok (p # _) \<Rightarrow> Some p | _ \<Rightarrow> None);
          mem = measured (case mem_VirtualMemory g of Ok vm \<Rightarrow> Some (us_UsedPercent vm) | _ \<Rightarrow> None);
          disk = measured (case disk_Usage g (diskRoot GOOS) of Ok du \<Rightarrow> Some (us_UsedPercent du) | _ \<Rightarrow> None)
      in if host_Info_err g = None \<and> host_Info g = None then Panic ''nil pointer dereference''
         else case (cpu, mem, disk) of
           (Ok c, Ok m, Ok d) \<Rightarrow>
             Ok (case (host_Info_err g, host_Info g) of
                   (None, Some info) \<Rightarrow>
                     \<lparr> CPUPercent = c, MemoryPercent = m, DiskPercent = d, UptimeSeconds = sint (hi_Uptime info),
                       OSVersion = hi_Platform info @ '' '' @ hi_PlatformVersion info \<rparr>
                 | _ \<Rightarrow> \<lparr> CPUPercent = c, MemoryPercent = m, DiskPercent = d, UptimeSeconds = 0, OSVersion = [] \<rparr>)
         | (Err e, _, _) \<Rightarrow> Err e | (_, Err e, _) \<Rightarrow> Err e | (_, _, Err e) \<Rightarrow> Err e
         | (Panic x, _, _) \<Rightarrow> Panic x | (_, Panic x, _) \<Rightarrow> Panic x | (_, _, Panic x) \<Rightarrow> Panic x)"

section \<open>Diagnostics\<close>

text \<open>A \<^verbatim>\<open>map[string]any\<close> is marshalled with its keys in order.\<close>

definition map_json :: "(string, json) gomap \<Rightarrow> json" where
  "map_json m = JObj (sort_key fst m)"

definition float64_json :: "rat \<Rightarrow> json" where "float64_json q = JNum (float64_text q)"
definition int_json :: "int \<Rightarrow> json" where "int_json n = JNum (Itoa n)"

text \<open>A nil slice is marshalled as \<^verbatim>\<open>null\<close>.\<close>

definition networkInterfaces :: "gopsutil \<Rightarrow> json" where
  "networkInterfaces g =
     (case net_Interfaces g of
        Ok ifaces \<Rightarrow> JArr (map (\<lambda>i. map_json [(''name'', JStr (if_Name i)), (''addrs'', JArr (map JStr (if_Addrs i)))]) ifaces)
      | _ \<Rightarrow> JNull)"

record procStat =
  pid :: int
  name :: string
  cpuPct :: rat
  memPct :: rat

fun proc_stats :: "process_stat list \<Rightarrow> procStat list" where
  "proc_stats [] = []"
| "proc_stats (p # ps) =
     (case ps_Name p of
        Ok n \<Rightarrow> \<lparr> pid = ps_Pid p, name = n, cpuPct = ps_CPU p, memPct = ps_Mem p \<rparr> # proc_stats ps
      | _ \<Rightarrow> proc_stats ps)"

text \<open>\<open>sort_slice less\<close> sorts as \<^verbatim>\<open>sort.Slice\<close> does: a rearrangement in which no element is less than one before it.\<close>

definition top_stats :: "(procStat list \<Rightarrow> procStat list) \<Rightarrow> gopsutil \<Rightarrow> int \<Rightarrow> procStat list res" where
  "top_stats sort_slice g limit =
     (case process_Processes g of
        Ok procs \<Rightarrow>
          (let stats = sort_slice (proc_stats procs)
           in Ok (if int (length stats) > limit then take (nat limit) stats else stats))
      | Err e \<Rightarrow> Err e
      | Panic m \<Rightarrow> Panic m)"

definition topProcesses :: "(procStat list \<Rightarrow> procStat list) \<Rightarrow> gopsutil \<Rightarrow> int \<Rightarrow> json" where
  "topProcesses sort_slice g limit =
     (case top_stats sort_slice g limit of
        Ok stats \<Rightarrow>
          JArr (map (\<lambda>s. map_json [(''pid'', int_json (pid s)), (''name'', JStr (name s)),
                       (''cpuPercent'', float64_json (cpuPct s)), (''memPercent'', JNum (float32_text (memPct s)))]) stats)
      | _ \<Rightarrow> JNull)"

fun partition_entries :: "gopsutil \<Rightarrow> partition_stat list \<Rightarrow> json list" where
  "partition_entries g [] = []"
| "partition_entries g (p # ps) =
     (if pt_Mountpoint p = [] then partition_entries g ps
      else map_json ([(''device'', JStr (pt_Device p)), (''mountpoint'', JStr (pt_Mountpoint p)), (''fstype'', JStr (pt_Fstype p))] @
             (case disk_Usage g (pt_Mountpoint p) of
                Ok u \<Rightarrow> [(''usedPercent'', float64_json (us_UsedPercent u)), (''totalBytes'', int_json (uint (us_Total u)))]
              | _ \<Rightarrow> []))
           # partition_entries g ps)"

definition storagePartitions :: "gopsutil \<Rightarrow> json" where
  "storagePartitions g = (case disk_Partitions g of Ok ps \<Rightarrow> JArr (partition_entries g ps) | _ \<Rightarrow> JNull)"

definition base_payload :: "gopsutil \<Rightarrow> (string, json) gomap" where
  "base_payload g =
     (case host_Info g of
        Some h \<Rightarrow> [(''hostname'', JStr (hi_Hostname h)), (''platform'', JStr (hi_Platform h @ '' '' @ hi_PlatformVersion h)),
                   (''kernelVersion'', JStr (hi_KernelVersion h)), (''uptimeSeconds'', int_json (uint (hi_Uptime h)))]
      | None \<Rightarrow> []) @
     (case cpu_Counts g of Ok n \<Rightarrow> [(''cpuCores'', int_json n)] | _ \<Rightarrow> []) @
     (case mem_VirtualMemory g of
        Ok vm \<Rightarrow> [(''memoryTotalBytes'', int_json (uint (us_Total vm))), (''memoryUsedPercent'', float64_json (us_UsedPercent vm))]
      | _ \<Rightarrow> [])"

definition scope_payload :: "(procStat list \<Rightarrow> procStat list) \<Rightarrow> gopsutil \<Rightarrow> string \<Rightarrow> (string, json) gomap" where
  "scope_payload sort_slice g scope =
     (if scope = ScopeNetwork then [(''interfaces'', networkInterfaces g)]
      else if scope = ScopeProcesses then [(''processes'', topProcesses sort_slice g 10)]
      else if scope = ScopeStorage then [(''partitions'', storagePartitions g)]
      else [(''interfaces'', networkInterfaces g), (''processes'', topProcesses sort_slice g 5), (''partitions'', storagePartitions g)])"

definition diagnosticPayload :: "(procStat list \<Rightarrow> procStat list) \<Rightarrow> gopsutil \<Rightarrow> string \<Rightarrow> json" where
  "diagnosticPayload sort_slice g scope = map_json (base_payload g @ scope_payload sort_slice g scope)"

section \<open>Every payload is a JSON text\<close>

text \<open>What Go's types say of the values: floats of their width and integers of theirs.\<close>

definition host_ok :: "gopsutil \<Rightarrow> bool" where
  "host_ok g \<longleftrightarrow>
     (\<forall>vm. mem_VirtualMemory g = Ok vm \<longrightarrow> is_f64 (us_UsedPercent vm)) \<and>
     (\<forall>p u. disk_Usage g p = Ok u \<longrightarrow> is_f64 (us_UsedPercent u)) \<and>
     (\<forall>n. cpu_Counts g = Ok n \<longrightarrow> - (2 ^ 63) \<le> n \<and> n < 2 ^ 63) \<and>
     (\<forall>ps p. process_Processes g = Ok ps \<longrightarrow> p \<in> set ps \<longrightarrow>
        is_f64 (ps_CPU p) \<and> is_f32 (ps_Mem p) \<and> - (2 ^ 31) \<le> ps_Pid p \<and> ps_Pid p < 2 ^ 31)"

definition slice_sorter :: "(procStat list \<Rightarrow> procStat list) \<Rightarrow> bool" where
  "slice_sorter f \<longleftrightarrow> (\<forall>xs. mset (f xs) = mset xs \<and> sorted_wrt (\<lambda>a b. \<not> cpuPct b > cpuPct a) (f xs))"

lemma map_json_wf: "json_wf (map_json m) \<longleftrightarrow> (\<forall>(k, v) \<in> set m. json_wf v)"
  by (simp add: map_json_def)

lemma Itoa_num_ok: "num_ok (Itoa n)"
proof -
  define ds where "ds = show_nat \<bar>n\<bar>"
  have zero: "show_nat 0 = ''0''" by code_simp
  have d: "list_all is_digit ds" "ds \<noteq> []" "ds = ''0'' \<or> hd ds \<noteq> CHR ''0''"
    using show_nat_digits [of "\<bar>n\<bar>"] show_nat_nonempty [of "\<bar>n\<bar>"] show_nat_hd [of "\<bar>n\<bar>"]
    zero by (cases "n = 0"; simp add: ds_def)+
  from literal_num_ok [OF this, of "[]" None] have "num_ok ds" "num_ok (CHR ''-'' # ds)" by (simp_all add: literal_def)
  then show ?thesis by (auto simp: Itoa_def ds_def)
qed

lemma json_leaf_wf [simp]: "json_wf (int_json n)" "is_f64 q \<Longrightarrow> json_wf (float64_json q)"
  by (simp_all add: int_json_def Itoa_num_ok float64_json_def float64_text_num_ok)

lemma proc_stats_from: "s \<in> set (proc_stats ps) \<Longrightarrow> \<exists>p \<in> set ps. ps_Name p = Ok (name s) \<and> pid s = ps_Pid p \<and> cpuPct s = ps_CPU p \<and> memPct s = ps_Mem p"
  by (induction ps) (auto split: res.splits)

lemma top_stats_set:
  assumes "slice_sorter f" and "top_stats f g limit = Ok stats" and "process_Processes g = Ok ps"
  shows "set stats \<subseteq> set (proc_stats ps)"
proof -
  have "mset (f (proc_stats ps)) = mset (proc_stats ps)" using assms(1) by (simp add: slice_sorter_def)
  then have "set (f (proc_stats ps)) = set (proc_stats ps)" by (rule mset_eq_setD)
  with assms(2,3) show ?thesis by (auto simp: top_stats_def Let_def split: if_splits dest: in_set_takeD)
qed

lemma topProcesses_wf: "slice_sorter f \<Longrightarrow> host_ok g \<Longrightarrow> json_wf (topProcesses f g limit)"
proof -
  assume a: "slice_sorter f" "host_ok g"
  show ?thesis
  proof (cases "top_stats f g limit")
    case (Ok stats)
    then obtain ps where ps: "process_Processes g = Ok ps" by (auto simp: top_stats_def split: res.splits)
    have "is_f64 (cpuPct s) \<and> is_f32 (memPct s)" if s: "s \<in> set stats" for s
    proof -
      obtain p where "p \<in> set ps" "cpuPct s = ps_CPU p" "memPct s = ps_Mem p"
        using proc_stats_from [of s ps] top_stats_set [OF a(1) Ok ps] s by blast
      with a(2) ps show ?thesis unfolding host_ok_def by metis
    qed
    with Ok show ?thesis by (auto simp: topProcesses_def map_json_wf float32_text_value)
  qed (simp_all add: topProcesses_def)
qed

lemma partition_entries_wf: "host_ok g \<Longrightarrow> x \<in> set (partition_entries g ps) \<Longrightarrow> json_wf x"
  by (induction ps) (auto simp: map_json_wf host_ok_def split: if_splits res.splits)

lemma networkInterfaces_wf: "json_wf (networkInterfaces g)"
  by (simp add: networkInterfaces_def map_json_wf split: res.split)

lemma diagnosticPayload_wf:
  assumes "slice_sorter f" and "host_ok g"
  shows "json_wf (diagnosticPayload f g scope)"
proof -
  have "\<forall>(k, v) \<in> set (base_payload g). json_wf v"
    using assms(2) by (auto simp: base_payload_def host_ok_def split: option.splits res.splits)
  moreover have "json_wf (storagePartitions g)"
    using partition_entries_wf [OF assms(2)] by (auto simp: storagePartitions_def split: res.split)
  ultimately show ?thesis
    using topProcesses_wf [OF assms] networkInterfaces_wf [of g]
    by (auto simp: diagnosticPayload_def map_json_wf scope_payload_def)
qed

lemma heartbeatData_ok:
  assumes "heartbeatData GOOS g = Ok d"
  shows "heartbeat_ok d"
proof -
  have m: "is_f32 v" if "measured x = Ok v" for x v
    using that f32_round_is_f32 is_f32_0 by (auto simp: measured_def to_float32_def split: option.splits)
  have up: "- (2 ^ 63) \<le> sint w \<and> sint w < 2 ^ 63" for w :: "64 word"
    using sint_greater_eq [of w] sint_lt [of w] by simp
  define a where "a = (case cpu_Percent g of Ok (p # _) \<Rightarrow> Some p | _ \<Rightarrow> None)"
  define b where "b = (case mem_VirtualMemory g of Ok vm \<Rightarrow> Some (us_UsedPercent vm) | _ \<Rightarrow> None)"
  define k where "k = (case disk_Usage g (diskRoot GOOS) of Ok du \<Rightarrow> Some (us_UsedPercent du) | _ \<Rightarrow> None)"
  show ?thesis
    using assms m [of a] m [of b] m [of k] up
    unfolding heartbeatData_def Let_def a_def [symmetric] b_def [symmetric] k_def [symmetric]
    by (cases "measured a"; cases "measured b"; cases "measured k"; cases "host_Info g"; cases "host_Info_err g")
      (simp_all add: heartbeat_ok_def, auto)
qed

section \<open>Properties\<close>

text \<open>Whatever gopsutil reports, a heartbeat sample holds float32 and int64 values, so it is encoded and
  read back on the server unchanged; a measurement that failed is reported as zero.\<close>

theorem heartbeat_sample_ok:
  assumes "heartbeatData GOOS g = Ok d"
  shows "heartbeat_ok d \<and> unmarshal_heartbeat (json_print (heartbeat_json d)) = Some d \<and>
    ((\<forall>p. cpu_Percent g \<noteq> Ok p) \<longrightarrow> CPUPercent d = 0) \<and>
    ((\<forall>vm. mem_VirtualMemory g \<noteq> Ok vm) \<longrightarrow> MemoryPercent d = 0) \<and>
    ((\<forall>du. disk_Usage g (diskRoot GOOS) \<noteq> Ok du) \<longrightarrow> DiskPercent d = 0) \<and>
    (host_Info_err g \<noteq> None \<longrightarrow> UptimeSeconds d = 0 \<and> OSVersion d = [])"
proof -
  have ok: "heartbeat_ok d" using assms by (rule heartbeatData_ok)
  show ?thesis
    using ok unmarshal_heartbeat_json [OF ok] assms
    by (auto simp: heartbeatData_def Let_def measured_def split: if_splits res.splits option.splits list.splits)
qed

definition demo_host :: gopsutil where
  "demo_host = \<lparr> cpu_Percent = Err (ErrText ''eof''), cpu_Counts = Ok 4, mem_VirtualMemory = Ok \<lparr> us_UsedPercent = 0, us_Total = 8 \<rparr>,
     disk_Usage = (\<lambda>_. Ok \<lparr> us_UsedPercent = 0, us_Total = 16 \<rparr>),
     disk_Partitions = Ok [\<lparr> pt_Device = ''/dev/sda1'', pt_Mountpoint = ''/'', pt_Fstype = ''ext4'' \<rparr>],
     host_Info = Some \<lparr> hi_Hostname = ''h'', hi_Platform = ''debian'', hi_PlatformVersion = ''12'', hi_KernelVersion = ''6.1'', hi_Uptime = 60 \<rparr>,
     host_Info_err = None, net_Interfaces = Err (ErrText ''netlink''),
     process_Processes = Ok [\<lparr> ps_Pid = 1, ps_Name = Ok ''init'', ps_CPU = 0, ps_Mem = 0 \<rparr>,
       \<lparr> ps_Pid = 2, ps_Name = Err (ErrText ''gone''), ps_CPU = 0, ps_Mem = 0 \<rparr>] \<rparr>"

lemma f32_round_0 [simp]: "f32_round 0 = Some 0"
  using is_f32_0 by (simp add: is_f32_def)

definition demo_sample :: HeartbeatData where
  "demo_sample = \<lparr> CPUPercent = 0, MemoryPercent = 0, DiskPercent = 0, UptimeSeconds = 60, OSVersion = ''debian 12'' \<rparr>"

lemma demo_heartbeat: "heartbeatData ''linux'' demo_host = Ok demo_sample"
  by (simp add: heartbeatData_def demo_host_def demo_sample_def measured_def to_float32_def)

theorem heartbeat_sample_ok_witness:
  "unmarshal_heartbeat (json_print (heartbeat_json demo_sample)) = Some demo_sample \<and> CPUPercent demo_sample = 0"
  using heartbeat_sample_ok [OF demo_heartbeat] by (simp add: demo_host_def)

text \<open>\<^verbatim>\<open>topProcesses\<close> reports at most the given number of processes, from the busiest down; each is a running
  process whose name could be read, and none that it leaves out uses more CPU than one it reports.\<close>

theorem top_processes_selection:
  assumes "slice_sorter f" and "process_Processes g = Ok ps" and "0 \<le> limit"
  shows "\<exists>stats rest. top_stats f g limit = Ok stats \<and> length stats = min (nat limit) (length (proc_stats ps)) \<and>
    sorted_wrt (\<lambda>a b. cpuPct b \<le> cpuPct a) stats \<and> mset stats + mset rest = mset (proc_stats ps) \<and>
    (\<forall>a \<in> set stats. \<forall>b \<in> set rest. cpuPct b \<le> cpuPct a) \<and>
    (\<forall>a \<in> set stats. \<exists>p \<in> set ps. ps_Name p = Ok (name a) \<and> pid a = ps_Pid p \<and> cpuPct a = ps_CPU p \<and> memPct a = ps_Mem p)"
proof -
  define xs where "xs = f (proc_stats ps)"
  have x: "mset xs = mset (proc_stats ps)" "sorted_wrt (\<lambda>a b. cpuPct b \<le> cpuPct a) xs"
    using assms(1) by (simp_all add: slice_sorter_def xs_def not_less)
  have top: "top_stats f g limit = Ok (take (nat limit) xs)"
    using assms(2,3) by (simp add: top_stats_def xs_def Let_def)
  have len: "length xs = length (proc_stats ps)" using x(1) by (metis size_mset)
  have split: "mset (take (nat limit) xs) + mset (drop (nat limit) xs) = mset (proc_stats ps)"
    using x(1) by (metis append_take_drop_id mset_append)
  have "sorted_wrt (\<lambda>a b. cpuPct b \<le> cpuPct a) (take (nat limit) xs @ drop (nat limit) xs)" using x(2) by simp
  then have ord: "sorted_wrt (\<lambda>a b. cpuPct b \<le> cpuPct a) (take (nat limit) xs)"
    "\<forall>a \<in> set (take (nat limit) xs). \<forall>b \<in> set (drop (nat limit) xs). cpuPct b \<le> cpuPct a"
    unfolding sorted_wrt_append by blast+
  have "set xs = set (proc_stats ps)" using x(1) by (rule mset_eq_setD)
  then have "\<forall>a \<in> set (take (nat limit) xs). \<exists>p \<in> set ps. ps_Name p = Ok (name a) \<and> pid a = ps_Pid p \<and> cpuPct a = ps_CPU p \<and> memPct a = ps_Mem p"
    using proc_stats_from by (metis in_set_takeD)
  with top len split ord show ?thesis
    by (intro exI [of _ "take (nat limit) xs"] exI [of _ "drop (nat limit) xs"]) auto
qed

lemma sort_key_sorter: "slice_sorter (sort_key (\<lambda>s. - cpuPct s))"
  unfolding slice_sorter_def
proof (intro allI conjI)
  fix xs :: "procStat list"
  have "sorted (map (\<lambda>s. - cpuPct s) (sort_key (\<lambda>s. - cpuPct s) xs))" by (rule sorted_sort_key)
  then show "sorted_wrt (\<lambda>a b. \<not> cpuPct b > cpuPct a) (sort_key (\<lambda>s. - cpuPct s) xs)"
    by (simp add: sorted_wrt_map not_less)
qed simp

theorem top_processes_selection_witness:
  "\<exists>stats. top_stats (sort_key (\<lambda>s. - cpuPct s)) demo_host 10 = Ok stats \<and> length stats = 1"
  using top_processes_selection [OF sort_key_sorter, of demo_host _ 10] by (fastforce simp: demo_host_def)

lemma map_of_outside: "set (map fst m) \<subseteq> S \<Longrightarrow> k \<notin> S \<Longrightarrow> map_of m k = None"
  by (auto simp: map_of_eq_None_iff)

text \<open>C40: A diagnostic payload is a JSON object that parses back to itself, with its keys in order, each once. The
  scope decides which parts it has: one of interfaces, ten processes and partitions for the three
  narrow scopes, and all of them with five processes for any other text.\<close>

theorem payload_by_scope:
  assumes "slice_sorter f" and "host_ok g"
  shows "\<exists>kvs. diagnosticPayload f g scope = JObj kvs \<and> json_parse (json_print (JObj kvs)) = Some (JObj kvs) \<and>
    distinct (map fst kvs) \<and> sorted (map fst kvs) \<and>
    map_of kvs ''interfaces'' = (if scope \<in> {ScopeProcesses, ScopeStorage} then None else Some (networkInterfaces g)) \<and>
    map_of kvs ''processes'' = (if scope \<in> {ScopeNetwork, ScopeStorage} then None
      else Some (topProcesses f g (if scope = ScopeProcesses then 10 else 5))) \<and>
    map_of kvs ''partitions'' = (if scope \<in> {ScopeNetwork, ScopeProcesses} then None else Some (storagePartitions g))"
proof -
  define m where "m = base_payload g @ scope_payload f g scope"
  have base: "distinct (map fst (base_payload g))"
    by (cases "host_Info g"; cases "cpu_Counts g"; cases "mem_VirtualMemory g"; simp add: base_payload_def)
  have sub: "set (map fst (base_payload g)) \<subseteq>
      {''hostname'', ''platform'', ''kernelVersion'', ''uptimeSeconds'', ''cpuCores'', ''memoryTotalBytes'', ''memoryUsedPercent''}"
    by (cases "host_Info g"; cases "cpu_Counts g"; cases "mem_VirtualMemory g"; simp add: base_payload_def)
  have dist: "distinct (map fst m)"
    using base sub by (simp add: m_def scope_payload_def) blast
  have mm: "map_of (sort_key fst m) = map_of m"
    by (rule map_of_inject_set [THEN iffD2]) (use dist in \<open>auto simp: distinct_map distinct_sort inj_on_def\<close>)
  have none: "map_of (base_payload g) k = None" if "k \<in> {''interfaces'', ''processes'', ''partitions''}" for k
  proof -
    have "k \<notin> {''hostname'', ''platform'', ''kernelVersion'', ''uptimeSeconds'', ''cpuCores'', ''memoryTotalBytes'', ''memoryUsedPercent''}"
      using that by (elim insertE emptyE; simp)
    with sub show ?thesis by (rule map_of_outside)
  qed
  have wf: "json_wf (JObj (sort_key fst m))"
    using diagnosticPayload_wf [OF assms, of scope] by (simp add: diagnosticPayload_def m_def map_json_def)
  have "distinct (map fst (sort_key fst m))" using dist by (simp add: distinct_map distinct_sort)
  moreover have "map_of (sort_key fst m) k = map_of (scope_payload f g scope) k"
    if "k \<in> {''interfaces'', ''processes'', ''partitions''}" for k
    using none [OF that] unfolding mm by (simp add: m_def map_add_def split: option.split)
  moreover have "map_of (scope_payload f g scope) ''interfaces'' =
      (if scope \<in> {ScopeProcesses, ScopeStorage} then None else Some (networkInterfaces g))"
    by (simp add: scope_payload_def scope_defs)
  moreover have "map_of (scope_payload f g scope) ''processes'' =
      (if scope \<in> {ScopeNetwork, ScopeStorage} then None else Some (topProcesses f g (if scope = ScopeProcesses then 10 else 5)))"
    by (simp add: scope_payload_def scope_defs)
  moreover have "map_of (scope_payload f g scope) ''partitions'' =
      (if scope \<in> {ScopeNetwork, ScopeProcesses} then None else Some (storagePartitions g))"
    by (simp add: scope_payload_def scope_defs)
  moreover have "diagnosticPayload f g scope = JObj (sort_key fst m)" by (simp add: diagnosticPayload_def map_json_def m_def)
  ultimately show ?thesis
    using json_parse_print [OF wf] by (intro exI [of _ "sort_key fst m"]) (simp del: json_print.simps)
qed

lemma is_f64_0: "is_f64 0"
proof -
  have "ulp_exp64 0 = Some (- 1074)" unfolding ulp_exp64_def by (subst upto.simps) simp
  then show ?thesis by (simp add: is_f64_def f64_round_def Let_def round_even_def)
qed

lemma demo_host_ok: "host_ok demo_host"
  by (simp add: host_ok_def demo_host_def is_f64_0 is_f32_0)

theorem payload_by_scope_witness:
  "\<exists>kvs. diagnosticPayload (sort_key (\<lambda>s. - cpuPct s)) demo_host ScopeNetwork = JObj kvs \<and>
     map_of kvs ''interfaces'' = Some JNull \<and> map_of kvs ''processes'' = None"
  using payload_by_scope [OF sort_key_sorter demo_host_ok, of ScopeNetwork]
  by (auto simp: networkInterfaces_def demo_host_def scope_defs)

end
