(* ===== verification/Agent.thy ===== *)
theory Agent
  imports Agent_State Agent_Stats Responses Go_Duration
begin

text \<open>
  The agent's life outside a connection (\<^verbatim>\<open>cmd/puls-agent/agent.go\<close>): its configuration, registration with the
  server, and the loop that reconnects with growing delays. The network is a parameter: what it
  answers to a request may depend on, and change, a state of its own.
\<close>

section \<open>Configuration\<close>

record AgentConfig =
  ac_ServerURL :: string
  ac_Name :: string
  ac_OS :: string
  ac_Arch :: string
  ac_Secret :: string
  ac_Interval :: duration
  ac_StateFile :: string
  ac_Insecure :: bool

record http_client =
  hc_Timeout :: duration
  hc_InsecureSkipVerify :: bool

record Agent =
  ag_cfg :: AgentConfig
  ag_http :: http_client

definition NewAgent :: "AgentConfig \<Rightarrow> Agent res" where
  "NewAgent cfg0 =
     (let cfg = cfg0 \<lparr> ac_ServerURL := TrimSuffix (ac_ServerURL cfg0) ''/'' \<rparr>
      in if ac_ServerURL cfg = [] then Err (ErrText ''server URL is required'')
         else if ac_Interval cfg \<le> 0 then
           Err (ErrText (''heartbeat interval must be positive, got '' @ Duration_String (ac_Interval cfg)))
         else Ok \<lparr> ag_cfg = cfg, ag_http = \<lparr> hc_Timeout = 10 * second, hc_InsecureSkipVerify = ac_Insecure cfg \<rparr> \<rparr>)"

text \<open>\<^verbatim>\<open>%q\<close> of a text of printable ASCII characters.\<close>

definition Quote :: "string \<Rightarrow> string" where
  "Quote s = quote_char # concat (map (\<lambda>ch. if ch = quote_char \<or> ch = backslash then [backslash, ch] else [ch]) s) @ [quote_char]"

definition toWebSocketURL :: "string \<Rightarrow> string res" where
  "toWebSocketURL serverURL =
     (if HasPrefix serverURL ''https://'' then Ok (''wss://'' @ TrimPrefix serverURL ''https://'')
      else if HasPrefix serverURL ''http://'' then Ok (''ws://'' @ TrimPrefix serverURL ''http://'')
      else Err (ErrText (''server URL must start with http:// or https://: '' @ Quote serverURL)))"

section \<open>Registration\<close>

record http_request =
  hq_Method :: string
  hq_URL :: string
  hq_Header :: "(string \<times> string) list"
  hq_Body :: string

record http_response =
  hs_StatusCode :: int
  hs_Body :: string

text \<open>
  The network in a state \<open>'w\<close>: why a URL is refused, if it is, and what a request comes back with.
\<close>

record 'w network =
  bad_url :: "string \<Rightarrow> goerr option"
  http_Do :: "http_client \<Rightarrow> http_request \<Rightarrow> 'w \<Rightarrow> http_response res \<times> 'w"

text \<open>
  \<^verbatim>\<open>json.NewDecoder(body).Decode\<close> into a struct: the first value of the stream. The error text of a
  failed request is taken as far as it decodes, since the outcome of that decoding is ignored.
\<close>

fun keep_field :: "string \<Rightarrow> (string \<times> string) list \<Rightarrow> string \<Rightarrow> string" where
  "keep_field nm [] v = v"
| "keep_field nm ((k, raw) # ms) v =
     (if fold_name k = fold_name nm
      then keep_field nm ms (case set_string raw v of Some v' \<Rightarrow> v' | None \<Rightarrow> v)
      else keep_field nm ms v)"

definition decode_api_error :: "string \<Rightarrow> string" where
  "decode_api_error body = (case struct_members_prefix body of None \<Rightarrow> [] | Some ms \<Rightarrow> keep_field ''error'' ms [])"

definition decode_RegisterResponse :: "string \<Rightarrow> RegisterResponse option" where
  "decode_RegisterResponse body = do {
     ms \<leftarrow> struct_members_prefix body;
     i \<leftarrow> read_field ''deviceId'' set_string ms [];
     t \<leftarrow> read_field ''token'' set_string ms [];
     Some \<lparr> resp_DeviceID = i, resp_Token = t \<rparr> }"

definition register_request :: "Agent \<Rightarrow> http_request" where
  "register_request a =
     \<lparr> hq_Method = ''POST'', hq_URL = ac_ServerURL (ag_cfg a) @ ''/api/v1/devices/register'',
       hq_Header = [(''Content-Type'', ''application/json'')],
       hq_Body = json_print (register_json \<lparr> req_Name = ac_Name (ag_cfg a), req_OS = ac_OS (ag_cfg a),
         req_Arch = ac_Arch (ag_cfg a), req_Secret = ac_Secret (ag_cfg a) \<rparr>) \<rparr>"

definition register :: "Agent \<Rightarrow> 'w network \<Rightarrow> 'w \<Rightarrow> (Device \<times> string) res \<times> 'w" where
  "register a net w =
     (let req = register_request a
      in case bad_url net (hq_URL req) of
           Some e \<Rightarrow> (Err (Wrap ''build request: %w'' e), w)
         | None \<Rightarrow>
             (case http_Do net (ag_http a) req w of
                (Err e, w1) \<Rightarrow> (Err (Wrap ''send request: %w'' e), w1)
              | (Panic m, w1) \<Rightarrow> (Panic m, w1)
              | (Ok resp, w1) \<Rightarrow>
                  if hs_StatusCode resp \<noteq> 201 then
                    (Err (ErrText (''server returned '' @ Itoa (hs_StatusCode resp) @ '': '' @ decode_api_error (hs_Body resp))), w1)
                  else (case decode_RegisterResponse (hs_Body resp) of
                          None \<Rightarrow> (Err (Wrap ''decode response: %w'' (ErrText ''json'')), w1)
                        | Some out \<Rightarrow>
                            (Ok (\<lparr> dev_ID = resp_DeviceID out, dev_Name = ac_Name (ag_cfg a), dev_OS = ac_OS (ag_cfg a),
                                   dev_Arch = ac_Arch (ag_cfg a), dev_Status = [], dev_RegisteredAt = zero_time,
                                   dev_LastSeenAt = None \<rparr>, resp_Token out), w1))))"

text \<open>The machine an agent runs on: its disk, and the network's state.\<close>

record 'w machine =
  mc_disk :: disk
  mc_world :: 'w

definition ensureRegistered :: "Agent \<Rightarrow> 'w network \<Rightarrow> 'w machine \<Rightarrow> state res \<times> 'w machine" where
  "ensureRegistered a net m =
     (let path = ac_StateFile (ag_cfg a); (loaded, d1) = loadState path (mc_disk m); m1 = m \<lparr> mc_disk := d1 \<rparr>
      in case loaded of
           Ok (Some st) \<Rightarrow> (Ok st, m1)
         | Panic x \<Rightarrow> (Panic x, m1)
         | _ \<Rightarrow>
             if ac_Secret (ag_cfg a) = [] then
               (Err (ErrText ''no saved registration found; -secret (or PULS_AGENT_SECRET) is required for first-time registration''), m1)
             else
               (case register a net (mc_world m1) of
                  (Err e, w) \<Rightarrow> (Err e, m1 \<lparr> mc_world := w \<rparr>)
                | (Panic x, w) \<Rightarrow> (Panic x, m1 \<lparr> mc_world := w \<rparr>)
                | (Ok (device, token), w) \<Rightarrow>
                    (let st = \<lparr> state_DeviceID = dev_ID device, state_Token = token \<rparr>
                     in (Ok st, m1 \<lparr> mc_world := w, mc_disk := snd (saveState path st d1) \<rparr>))))"

section \<open>The reconnect loop\<close>

definition maxBackoff :: duration where "maxBackoff = 30 * second"
definition backoffResetAfter :: duration where "backoffResetAfter = 2 * maxBackoff"

definition next_backoff :: "duration \<Rightarrow> duration" where
  "next_backoff backoff =
     (if backoff < maxBackoff then (let b = backoff * 2 in if b > maxBackoff then maxBackoff else b) else backoff)"

text \<open>
  One round of the loop, as its surroundings decide it: when \<^verbatim>\<open>connectAndServe\<close> was called and when it
  returned, with what, whether the context was canceled by then, and whether it is canceled during the
  wait. \<open>rd_world\<close> is what the network's state became meanwhile.
\<close>

record 'w round =
  rd_start :: time
  rd_end :: time
  rd_result :: "unit res"
  rd_canceled :: bool
  rd_canceled_waiting :: bool
  rd_world :: "'w \<Rightarrow> 'w"

text \<open>What the loop does, as seen from outside.\<close>

datatype run_event = Dial string | Reregister | Wait duration

text \<open>After a connection has ended with \<open>res\<close>: whether the token was rejected, and the state to go on with.\<close>

definition renew :: "Agent \<Rightarrow> 'w network \<Rightarrow> state \<Rightarrow> unit res \<Rightarrow> 'w machine \<Rightarrow> run_event list \<times> state res \<times> 'w machine" where
  "renew a net st res m =
     (if (case res of Err e \<Rightarrow> errors_is e ErrUnauthorized | _ \<Rightarrow> False)
      then ([Reregister], ensureRegistered a net (m \<lparr> mc_disk := snd (clearState (ac_StateFile (ag_cfg a)) (mc_disk m)) \<rparr>))
      else ([], Ok st, m))"

fun Agent_loop ::
    "Agent \<Rightarrow> 'w network \<Rightarrow> 'w round list \<Rightarrow> duration \<Rightarrow> state \<Rightarrow> 'w machine \<Rightarrow> unit res option \<times> run_event list \<times> 'w machine" where
  "Agent_loop a net [] backoff st m = (None, [], m)"
| "Agent_loop a net (r # rs) backoff0 st m =
     (let m1 = m \<lparr> mc_world := rd_world r (mc_world m) \<rparr>; dialled = [Dial (state_Token st)]
      in case rd_result r of
           Panic x \<Rightarrow> (Some (Panic x), dialled, m1)
         | res \<Rightarrow>
             if rd_canceled r then (Some (Ok ()), dialled, m1)
             else
               (let backoff = (if rd_end r - rd_start r > backoffResetAfter then second else backoff0);
                    (renewed, again, m2) = renew a net st res m1; evs = dialled @ renewed
                in case again of
                     Err e \<Rightarrow> (Some (Err (Wrap ''re-register: %w'' e)), evs, m2)
                   | Panic x \<Rightarrow> (Some (Panic x), evs, m2)
                   | Ok st' \<Rightarrow>
                       if rd_canceled_waiting r then (Some (Ok ()), evs @ [Wait backoff], m2)
                       else (let (out, evs', m3) = Agent_loop a net rs (next_backoff backoff) st' m2
                             in (out, evs @ [Wait backoff] @ evs', m3))))"

definition Agent_Run :: "Agent \<Rightarrow> 'w network \<Rightarrow> 'w round list \<Rightarrow> 'w machine \<Rightarrow> unit res option \<times> run_event list \<times> 'w machine" where
  "Agent_Run a net rounds m =
     (case ensureRegistered a net m of
        (Err e, m1) \<Rightarrow> (Some (Err (Wrap ''register: %w'' e)), [], m1)
      | (Panic x, m1) \<Rightarrow> (Some (Panic x), [], m1)
      | (Ok st, m1) \<Rightarrow> Agent_loop a net rounds second st m1)"

section \<open>Backoff\<close>

fun waits :: "run_event list \<Rightarrow> duration list" where
  "waits [] = []"
| "waits (Wait d # evs) = d # waits evs"
| "waits (_ # evs) = waits evs"

fun dials :: "run_event list \<Rightarrow> string list" where
  "dials [] = []"
| "dials (Dial t # evs) = t # dials evs"
| "dials (_ # evs) = dials evs"

lemma waits_dials_append [simp]: "waits (xs @ ys) = waits xs @ waits ys" "dials (xs @ ys) = dials xs @ dials ys"
  by (induction xs rule: waits.induct, auto)

text \<open>The delay before the retry after \<open>i\<close> failures in a row.\<close>

definition backoff_at :: "nat \<Rightarrow> duration" where
  "backoff_at i = (next_backoff ^^ i) second"

lemma backoff_at_Suc: "backoff_at (Suc i) = next_backoff (backoff_at i)"
  by (simp add: backoff_at_def)

lemma backoff_at_eq: "backoff_at i = min (2 ^ i) 30 * second"
proof (induction i)
  case 0
  then show ?case by (simp add: backoff_at_def second_def)
next
  case (Suc i)
  have "(2 :: int) ^ Suc i = 2 * 2 ^ i" by simp
  then show ?case
    unfolding backoff_at_Suc Suc next_backoff_def maxBackoff_def second_def Let_def by (auto simp: min_def)
qed

lemma loop_step:
  assumes "Agent_loop a net (r # rs) b st m = (out, evs, m')"
  obtains pre b' where "pre = [Dial (state_Token st)] \<or> pre = [Dial (state_Token st), Reregister]"
    "b' = (if rd_end r - rd_start r > backoffResetAfter then second else b)"
    "evs = pre \<and> out \<noteq> None \<or> evs = pre @ [Wait b'] \<and> out = Some (Ok ()) \<or>
     (\<exists>st' m2 evs'. Agent_loop a net rs (next_backoff b') st' m2 = (out, evs', m') \<and> evs = pre @ [Wait b'] @ evs')"
proof -
  define b' where "b' = (if rd_end r - rd_start r > backoffResetAfter then second else b)"
  obtain renewed again m2 where ag: "renew a net st (rd_result r) (m \<lparr> mc_world := rd_world r (mc_world m) \<rparr>) = (renewed, again, m2)"
    by (metis prod_cases3)
  then have pre: "renewed = [] \<or> renewed = [Reregister]" by (auto simp: renew_def split: if_splits)
  obtain out' evs' m3 where rest: "Agent_loop a net rs (next_backoff b') (case again of Ok x \<Rightarrow> x) m2 = (out', evs', m3)"
    by (metis prod_cases3)
  have "evs = [Dial (state_Token st)] \<and> out \<noteq> None \<or> evs = Dial (state_Token st) # renewed \<and> out \<noteq> None \<or>
     evs = Dial (state_Token st) # renewed @ [Wait b'] \<and> out = Some (Ok ()) \<or>
     (\<exists>st' m2 evs'. Agent_loop a net rs (next_backoff b') st' m2 = (out, evs', m') \<and> evs = Dial (state_Token st) # renewed @ [Wait b'] @ evs')"
    using assms ag rest unfolding Agent_loop.simps b'_def [symmetric]
    by (cases "rd_result r"; cases "rd_canceled r"; cases again; cases "rd_canceled_waiting r") auto
  then show thesis
    using that [of "Dial (state_Token st) # renewed" b'] that [of "[Dial (state_Token st)]" b'] pre by (auto simp: b'_def) blast
qed

lemma take_pre:
  assumes "pre = [Dial t] \<or> pre = [Dial t, Reregister]" and "\<And>n. length (dials (take n evs)) \<le> Suc (length (waits (take n evs)))"
  shows "length (dials (take n (pre @ [Wait b] @ evs))) \<le> Suc (length (waits (take n (pre @ [Wait b] @ evs))))"
proof -
  have "length (dials (take (n - k) evs)) \<le> Suc (length (waits (take (n - k) evs)))" for k by (rule assms(2))
  then show ?thesis
    using assms(1) by (auto simp: take_Cons' numeral_2_eq_2 le_SucI)
qed

lemma loop_waits:
  assumes "Agent_loop a net rounds (backoff_at i) st m = (out, evs, m')"
  shows "(\<forall>d \<in> set (waits evs). \<exists>j. d = backoff_at j) \<and>
    ((\<forall>r \<in> set rounds. rd_end r - rd_start r \<le> backoffResetAfter) \<longrightarrow>
       waits evs = map backoff_at [i..<i + length (waits evs)]) \<and>
    (\<forall>n. length (dials (take n evs)) \<le> Suc (length (waits (take n evs))))"
  using assms
proof (induction rounds arbitrary: i st m evs)
  case Nil
  then show ?case by simp
next
  case (Cons r rs)
  from Cons.prems obtain pre b' where pre: "pre = [Dial (state_Token st)] \<or> pre = [Dial (state_Token st), Reregister]"
    and b': "b' = (if rd_end r - rd_start r > backoffResetAfter then second else backoff_at i)"
    and evs: "evs = pre \<and> out \<noteq> None \<or> evs = pre @ [Wait b'] \<and> out = Some (Ok ()) \<or>
      (\<exists>st' m2 evs'. Agent_loop a net rs (next_backoff b') st' m2 = (out, evs', m') \<and> evs = pre @ [Wait b'] @ evs')"
    by (rule loop_step)
  obtain j where j: "b' = backoff_at j" "rd_end r - rd_start r \<le> backoffResetAfter \<longrightarrow> j = i"
    using b' that [of 0] that [of i] by (cases "rd_end r - rd_start r > backoffResetAfter") (auto simp: backoff_at_def)
  have pw: "waits pre = []" using pre by auto
  have nil: "length (dials (take n [])) \<le> Suc (length (waits (take n [])))" for n by simp
  from evs consider "evs = pre" | "evs = pre @ [Wait b'] @ []"
    | st' m2 evs' where "Agent_loop a net rs (backoff_at (Suc j)) st' m2 = (out, evs', m')" "evs = pre @ [Wait b'] @ evs'"
    unfolding j(1) backoff_at_Suc by auto
  then show ?case
  proof cases
    case 1
    with pre pw show ?thesis by (auto simp: take_Cons')
  next
    case 2
    with pw j take_pre [OF pre nil] show ?thesis by (auto simp: upt_rec)
  next
    case (3 st' m2 evs')
    note IH = Cons.IH [OF 3(1)]
    have up: "[k..<Suc (k + n)] = k # [Suc k..<Suc (k + n)]" for k n by (simp add: upt_rec)
    show ?thesis
      using IH 3(2) pw j(2) take_pre [OF pre, of evs' _ b'] by (auto simp: j(1) up simp del: upt_Suc)
  qed
qed

section \<open>Properties\<close>


lemma loop_keeps:
  assumes "\<forall>r \<in> set rounds. (\<forall>x. rd_result r \<noteq> Panic x) \<and> (\<forall>e. rd_result r = Err e \<longrightarrow> \<not> errors_is e ErrUnauthorized)"
    and "Agent_loop a net rounds b st m = (out, evs, m')"
  shows "set (dials evs) \<subseteq> {state_Token st} \<and> Reregister \<notin> set evs \<and> mc_disk m' = mc_disk m \<and>
    mc_world m' = fold rd_world (take (length (dials evs)) rounds) (mc_world m) \<and>
    (out = None \<and> length (dials evs) = length rounds \<or>
     out = Some (Ok ()) \<and> (\<exists>r \<in> set rounds. rd_canceled r \<or> rd_canceled_waiting r))"
  using assms
proof (induction rounds arbitrary: b m evs out m')
  case Nil
  then show ?case by simp
next
  case (Cons r rs)
  let ?m1 = "m \<lparr> mc_world := rd_world r (mc_world m) \<rparr>"
  let ?b = "if rd_end r - rd_start r > backoffResetAfter then second else b"
  obtain out' evs' m3 where rest: "Agent_loop a net rs (next_backoff ?b) st ?m1 = (out', evs', m3)" by (metis prod_cases3)
  have "(out, evs, m') =
      (if rd_canceled r then (Some (Ok ()), [Dial (state_Token st)], ?m1)
       else if rd_canceled_waiting r then (Some (Ok ()), [Dial (state_Token st), Wait ?b], ?m1)
       else (out', [Dial (state_Token st), Wait ?b] @ evs', m3))"
    using Cons.prems rest by (cases "rd_result r") (auto simp: Let_def renew_def)
  with Cons.IH [OF _ rest] Cons.prems(1) show ?case by (auto split: if_splits)
qed


text \<open>An agent registers once: when a registration has succeeded and the state file could be written, every
  later start takes the saved device and token and sends nothing to the server. A first start without a
  secret is refused before anything is sent.\<close>

theorem registers_once:
  assumes "fs_faults (mc_disk m) = []" and "ensureRegistered a net m = (Ok st, m1)"
    and "state_DeviceID st \<noteq> []" and "state_Token st \<noteq> []"
  shows "ensureRegistered a net' m1 = (Ok st, m1) \<and>
    (ac_Secret (ag_cfg a) = [] \<longrightarrow> m1 = m)"
proof -
  let ?p = "ac_StateFile (ag_cfg a)"
  have read: "snd (loadState ?p (mc_disk m)) = mc_disk m"
    using assms(1) by (simp add: loadState_def os_ReadFile_def next_fault_def split: option.split)
  obtain l where l: "loadState ?p (mc_disk m) = (l, mc_disk m)" using read by (metis surj_pair snd_conv)
  show ?thesis
  proof (cases "\<exists>s. l = Ok (Some s)")
    case True
    then show ?thesis using l assms(2) by (auto simp: ensureRegistered_def)
  next
    case False
    have "\<forall>x. l \<noteq> Panic x" using l by (auto simp: loadState_def os_ReadFile_def split: prod.splits io_fault.splits option.splits if_splits)
    with False l assms(2) obtain dv tok w where r: "ac_Secret (ag_cfg a) \<noteq> []" "register a net (mc_world m) = (Ok (dv, tok), w)"
      "st = \<lparr> state_DeviceID = dev_ID dv, state_Token = tok \<rparr>" "m1 = m \<lparr> mc_world := w, mc_disk := snd (saveState ?p st (mc_disk m)) \<rparr>"
      by (cases l) (auto simp: ensureRegistered_def Let_def split: if_splits res.splits option.splits prod.splits)
    obtain d' where "saveState ?p st (mc_disk m) = (Ok (), d')" "loadState ?p d' = (Ok (Some st), d')"
      using state_file_round [OF assms(1,3,4)] by blast
    with r(1,4) show ?thesis by (simp add: ensureRegistered_def)
  qed
qed

section \<open>An agent at work\<close>

definition demo_agent :: Agent where
  "demo_agent = \<lparr> ag_cfg = \<lparr> ac_ServerURL = ''http://s'', ac_Name = ''n'', ac_OS = ''linux'', ac_Arch = ''amd64'', ac_Secret = [],
     ac_Interval = 20 * second, ac_StateFile = ''f'', ac_Insecure = False \<rparr>, ag_http = \<lparr> hc_Timeout = 10 * second, hc_InsecureSkipVerify = False \<rparr> \<rparr>"

definition demo_machine :: "unit machine" where
  "demo_machine = \<lparr> mc_disk = \<lparr> fs_files = [(''f'', state_text demo_state)], fs_dirs = [], fs_faults = [] \<rparr>, mc_world = () \<rparr>"

definition demo_net :: "unit network" where
  "demo_net = \<lparr> bad_url = (\<lambda>_. None), http_Do = (\<lambda>c q w. (Err (ErrText ''connection refused''), w)) \<rparr>"

definition demo_round :: "unit round" where
  "demo_round = \<lparr> rd_start = 0, rd_end = second, rd_result = Err (Wrap ''dial: %w'' (ErrText ''connection refused'')), rd_canceled = False,
     rd_canceled_waiting = False, rd_world = id \<rparr>"

lemma demo_load: "loadState (ac_StateFile (ag_cfg demo_agent)) (mc_disk demo_machine) = (Ok (Some demo_state), mc_disk demo_machine)"
  by (simp add: loadState_def os_ReadFile_def next_fault_def demo_agent_def demo_machine_def unmarshal_state_text)
    (simp add: demo_state_def)

lemma demo_run_dials:
  assumes "Agent_Run demo_agent demo_net (replicate 7 demo_round) demo_machine = (out, evs, m')"
  shows "length (dials evs) = 7 \<and> length (waits evs) = 7"
  using assms demo_load
  by (auto simp: Agent_Run_def ensureRegistered_def demo_round_def renew_def Let_def numeral_eq_Suc split: prod.splits)



theorem registers_once_witness:
  "\<exists>m1. ensureRegistered demo_agent demo_net demo_machine = (Ok demo_state, m1) \<and>
     ensureRegistered demo_agent demo_net m1 = (Ok demo_state, m1) \<and> m1 = demo_machine"
proof -
  have run: "ensureRegistered demo_agent demo_net demo_machine = (Ok demo_state, demo_machine)"
    using demo_load by (simp add: ensureRegistered_def)
  have "fs_faults (mc_disk demo_machine) = []" "state_DeviceID demo_state \<noteq> []" "state_Token demo_state \<noteq> []"
    by (simp_all add: demo_machine_def demo_state_def)
  from registers_once [OF this(1) run this(2,3), of demo_net] run show ?thesis by blast
qed

end
