(* ===== verification/Agent_Conn.thy ===== *)
theory Agent_Conn
  imports Agent
begin

text \<open>
  One connection of the agent (\<^verbatim>\<open>connectAndServe\<close>, \<^verbatim>\<open>readLoop\<close>, \<^verbatim>\<open>sendHeartbeat\<close>, \<^verbatim>\<open>handleMessage\<close> and
  \<^verbatim>\<open>handleDiagRequest\<close> of \<^verbatim>\<open>cmd/puls-agent/agent.go\<close>): the select loop, the reader goroutine and one goroutine per
  diagnostic request, as a step relation over their shared state.
\<close>

section \<open>Messages\<close>

text \<open>
  The outcome of \<^verbatim>\<open>sendHeartbeat\<close> and the frames it put on the connection; \<open>wr\<close> is the error of the write, if any.
\<close>

definition sendHeartbeat :: "string \<Rightarrow> gopsutil \<Rightarrow> goerr option \<Rightarrow> unit res \<times> string list" where
  "sendHeartbeat GOOS g wr =
     (case heartbeatData GOOS g of
        Err e \<Rightarrow> (Err (Wrap ''encode heartbeat: %w'' e), [])
      | Panic x \<Rightarrow> (Panic x, [])
      | Ok data \<Rightarrow>
          (case Encode TypeHeartbeat [] (Ok (heartbeat_json data)) of
             Err e \<Rightarrow> (Err (Wrap ''encode heartbeat: %w'' e), [])
           | Panic x \<Rightarrow> (Panic x, [])
           | Ok msg \<Rightarrow> (case wr of Some e \<Rightarrow> (Err (Wrap ''write heartbeat: %w'' e), []) | None \<Rightarrow> (Ok (), [msg]))))"

text \<open>The requests for which \<^verbatim>\<open>handleMessage\<close> starts a goroutine; other messages are logged.\<close>

definition handleMessage :: "Envelope \<Rightarrow> Envelope list" where
  "handleMessage e = (if env_Type e = TypeDiagRequest then [e] else [])"

text \<open>The frames that a goroutine of \<^verbatim>\<open>handleDiagRequest\<close> writes; every failure is only logged.\<close>

definition handleDiagRequest :: "(procStat list \<Rightarrow> procStat list) \<Rightarrow> gopsutil \<Rightarrow> Envelope \<Rightarrow> goerr option \<Rightarrow> string list" where
  "handleDiagRequest sort_slice g e wr =
     (case unmarshal_diag_request (env_Data e) of
        None \<Rightarrow> []
      | Some req \<Rightarrow>
          (case Encode TypeDiagResponse (env_RequestID e) (Ok (diagnosticPayload sort_slice g (Scope req))) of
             Ok msg \<Rightarrow> (case wr of None \<Rightarrow> [msg] | Some _ \<Rightarrow> [])
           | _ \<Rightarrow> []))"

section \<open>The goroutines of a connection\<close>

datatype reader = Reading | Handing Envelope | ReaderDone
datatype main_phase = Greeting | Looping | Returned "unit res"

text \<open>
  \<open>cn_readErr\<close> is the channel \<^verbatim>\<open>readErrCh\<close>, \<open>cn_workers\<close> the running goroutines of \<^verbatim>\<open>handleDiagRequest\<close>. The texts
  read, the envelopes the select loop took and the frames written are kept as a history.
\<close>

record conn =
  cn_main :: main_phase
  cn_reader :: reader
  cn_readErr :: "goerr option"
  cn_ctxDone :: bool
  cn_workers :: "Envelope list"
  cn_read :: "string list"
  cn_handled :: "Envelope list"
  cn_written :: "string list"

definition conn_init :: conn where
  "conn_init = \<lparr> cn_main = Greeting, cn_reader = Reading, cn_readErr = None, cn_ctxDone = False, cn_workers = [],
     cn_read = [], cn_handled = [], cn_written = [] \<rparr>"

fun returned :: "main_phase \<Rightarrow> bool" where
  "returned (Returned _) \<longleftrightarrow> True"
| "returned _ \<longleftrightarrow> False"

text \<open>The errors of the connection and of the operating system are never the sentinel \<^verbatim>\<open>errUnauthorized\<close>.\<close>

definition foreign :: "goerr option \<Rightarrow> bool" where
  "foreign e \<longleftrightarrow> (\<forall>x. e = Some x \<longrightarrow> \<not> errors_is x ErrUnauthorized)"

text \<open>
  The steps. When \<^verbatim>\<open>connectAndServe\<close> returns, its deferred calls close the connection and cancel the reader's
  context: reads and writes then fail. The first argument is the platform, the second \<^verbatim>\<open>sort.Slice\<close>.
\<close>

inductive conn_step :: "string \<Rightarrow> (procStat list \<Rightarrow> procStat list) \<Rightarrow> conn \<Rightarrow> conn \<Rightarrow> bool" for GOOS srt where
  greet: "cn_main c = Greeting \<Longrightarrow> foreign wr \<Longrightarrow> sendHeartbeat GOOS g wr = (r, fs) \<Longrightarrow>
     conn_step GOOS srt c (c \<lparr> cn_main := (if is_ok r then Looping else Returned r), cn_written := cn_written c @ fs \<rparr>)"
| tick: "cn_main c = Looping \<Longrightarrow> foreign wr \<Longrightarrow> sendHeartbeat GOOS g wr = (r, fs) \<Longrightarrow>
     conn_step GOOS srt c (c \<lparr> cn_main := (if is_ok r then Looping else Returned r), cn_written := cn_written c @ fs \<rparr>)"
| read_ok: "cn_reader c = Reading \<Longrightarrow> \<not> returned (cn_main c) \<Longrightarrow> unmarshal_envelope raw = Some e \<Longrightarrow>
     conn_step GOOS srt c (c \<lparr> cn_reader := Handing e, cn_read := cn_read c @ [raw] \<rparr>)"
| read_bad: "cn_reader c = Reading \<Longrightarrow> \<not> returned (cn_main c) \<Longrightarrow> unmarshal_envelope raw = None \<Longrightarrow>
     conn_step GOOS srt c (c \<lparr> cn_read := cn_read c @ [raw] \<rparr>)"
| read_fail: "cn_reader c = Reading \<Longrightarrow> foreign (Some x) \<Longrightarrow>
     conn_step GOOS srt c (c \<lparr> cn_reader := ReaderDone, cn_readErr := Some x \<rparr>)"
| hand: "cn_reader c = Handing e \<Longrightarrow> cn_main c = Looping \<Longrightarrow>
     conn_step GOOS srt c (c \<lparr> cn_reader := Reading, cn_handled := cn_handled c @ [e], cn_workers := cn_workers c @ handleMessage e \<rparr>)"
| reader_quit: "cn_reader c = Handing e \<Longrightarrow> cn_ctxDone c \<or> returned (cn_main c) \<Longrightarrow>
     conn_step GOOS srt c (c \<lparr> cn_reader := ReaderDone \<rparr>)"
| cancel: "\<not> cn_ctxDone c \<Longrightarrow> conn_step GOOS srt c (c \<lparr> cn_ctxDone := True \<rparr>)"
| stop: "cn_main c = Looping \<Longrightarrow> cn_ctxDone c \<Longrightarrow> conn_step GOOS srt c (c \<lparr> cn_main := Returned (Ok ()) \<rparr>)"
| lost: "cn_main c = Looping \<Longrightarrow> cn_readErr c = Some x \<Longrightarrow>
     conn_step GOOS srt c (c \<lparr> cn_main := Returned (Err x), cn_readErr := None \<rparr>)"
| answer: "cn_workers c = ws @ e # vs \<Longrightarrow> host_ok g \<Longrightarrow> returned (cn_main c) \<longrightarrow> wr \<noteq> None \<Longrightarrow>
     conn_step GOOS srt c (c \<lparr> cn_workers := ws @ vs, cn_written := cn_written c @ handleDiagRequest srt g e wr \<rparr>)"

inductive_cases conn_stepE: "conn_step GOOS srt c c'"

inductive conn_reach :: "string \<Rightarrow> (procStat list \<Rightarrow> procStat list) \<Rightarrow> conn \<Rightarrow> bool" for GOOS srt where
  start: "conn_reach GOOS srt conn_init"
| step: "conn_reach GOOS srt c \<Longrightarrow> conn_step GOOS srt c c' \<Longrightarrow> conn_reach GOOS srt c'"

interpretation agent: step_system conn_init "conn_step GOOS srt" "conn_reach GOOS srt" for GOOS srt
proof
  show "P c" if "conn_reach GOOS srt c" "P conn_init" "\<And>t t'. conn_reach GOOS srt t \<Longrightarrow> P t \<Longrightarrow> conn_step GOOS srt t t' \<Longrightarrow> P t'" for P c
    using that by (induction rule: conn_reach.induct) blast+
qed (rule conn_reach.start, rule conn_reach.step)

text \<open>How dialling ends: without a connection, with the status of the response if there was one, or with one.\<close>

datatype dial = NoConn "int option" goerr | Connected

text \<open>The values \<^verbatim>\<open>connectAndServe\<close> can return.\<close>

definition connectAndServe_returns :: "string \<Rightarrow> (procStat list \<Rightarrow> procStat list) \<Rightarrow> Agent \<Rightarrow> dial \<Rightarrow> unit res \<Rightarrow> bool" where
  "connectAndServe_returns GOOS srt a d r \<longleftrightarrow>
     (case toWebSocketURL (ac_ServerURL (ag_cfg a)) of
        Err e \<Rightarrow> r = Err e
      | Panic x \<Rightarrow> r = Panic x
      | Ok wsURL \<Rightarrow>
          (case d of
             NoConn status e \<Rightarrow> r = Err (if status = Some 401 then ErrUnauthorized else Wrap ''dial: %w'' e)
           | Connected \<Rightarrow> \<exists>c. conn_reach GOOS srt c \<and> cn_main c = Returned r))"

section \<open>Invariants\<close>

text \<open>The messages of a list of texts, in order.\<close>

definition decoded :: "string list \<Rightarrow> Envelope list" where
  "decoded raws = List.map_filter unmarshal_envelope raws"

lemma decoded_append [simp]: "decoded (xs @ ys) = decoded xs @ decoded ys"
  by (induction xs) (simp_all add: decoded_def map_filter_simps split: option.split)

lemma decoded_single [simp]: "decoded [raw] = (case unmarshal_envelope raw of None \<Rightarrow> [] | Some e \<Rightarrow> [e])"
  by (simp add: decoded_def map_filter_simps split: option.split)

lemma decoded_Nil [simp]: "decoded [] = []"
  by (simp add: decoded_def map_filter_simps)

definition in_order :: "conn \<Rightarrow> bool" where
  "in_order c \<longleftrightarrow>
     (case cn_reader c of
        Reading \<Rightarrow> decoded (cn_read c) = cn_handled c
      | Handing e \<Rightarrow> decoded (cn_read c) = cn_handled c @ [e]
      | ReaderDone \<Rightarrow> decoded (cn_read c) = cn_handled c \<or>
          (\<exists>e. decoded (cn_read c) = cn_handled c @ [e] \<and> (cn_ctxDone c \<or> returned (cn_main c))))"

lemma in_order_step: "conn_step GOOS srt c c' \<Longrightarrow> in_order c \<Longrightarrow> in_order c'"
  by (erule conn_stepE) (auto simp: in_order_def split: reader.splits if_splits)

lemma in_order_reach: "conn_reach GOOS srt c \<Longrightarrow> in_order c"
  by (erule agent.invariant) (simp add: in_order_def conn_init_def, rule in_order_step)

text \<open>The request ids of the diagnostic responses among some frames, and of the requests among some messages.\<close>

definition answered_ids :: "string list \<Rightarrow> string multiset" where
  "answered_ids fs = mset (map env_RequestID (filter (\<lambda>e. env_Type e = TypeDiagResponse) (decoded fs)))"

definition asked_ids :: "Envelope list \<Rightarrow> string multiset" where
  "asked_ids es = mset (map env_RequestID (filter (\<lambda>e. env_Type e = TypeDiagRequest) es))"

lemma answered_ids_append [simp]: "answered_ids (xs @ ys) = answered_ids xs + answered_ids ys" "answered_ids [] = {#}"
  by (simp_all add: answered_ids_def)

lemma asked_ids_append [simp]: "asked_ids (xs @ ys) = asked_ids xs + asked_ids ys" "asked_ids [] = {#}"
  by (simp_all add: asked_ids_def)

definition frame_type :: "MessageType \<Rightarrow> string \<Rightarrow> bool" where
  "frame_type ty f \<longleftrightarrow> (\<exists>e. unmarshal_envelope f = Some e \<and> env_Type e = ty)"

lemma sendHeartbeat_frames:
  assumes "sendHeartbeat GOOS g wr = (r, fs)"
  shows "(is_ok r \<longrightarrow> fs \<noteq> []) \<and> (\<not> is_ok r \<longrightarrow> fs = []) \<and> list_all (frame_type TypeHeartbeat) fs \<and> answered_ids fs = {#}"
proof (cases "heartbeatData GOOS g")
  case (Ok data)
  obtain msg where msg: "Encode TypeHeartbeat [] (Ok (heartbeat_json data)) = Ok msg" by (simp add: Encode_def)
  note e = unmarshal_Encode [OF heartbeat_json_wf [OF heartbeatData_ok [OF Ok]] msg]
  show ?thesis
    using assms Ok msg e by (cases wr) (auto simp: sendHeartbeat_def frame_type_def answered_ids_def type_defs)
qed (use assms in \<open>auto simp: sendHeartbeat_def answered_ids_def\<close>)

lemma handleDiagRequest_frames:
  assumes "slice_sorter srt" and "host_ok g"
  shows "handleDiagRequest srt g e wr = [] \<or>
    (\<exists>msg. handleDiagRequest srt g e wr = [msg] \<and> frame_type TypeDiagResponse msg \<and> answered_ids [msg] = {#env_RequestID e#})"
proof (cases "unmarshal_diag_request (env_Data e)")
  case (Some req)
  obtain msg where msg: "Encode TypeDiagResponse (env_RequestID e) (Ok (diagnosticPayload srt g (Scope req))) = Ok msg" by (simp add: Encode_def)
  note u = unmarshal_Encode [OF diagnosticPayload_wf [OF assms] msg]
  show ?thesis
    using Some msg u by (cases wr) (auto simp: handleDiagRequest_def frame_type_def answered_ids_def)
qed (simp add: handleDiagRequest_def)

definition frames_ok :: "conn \<Rightarrow> bool" where
  "frames_ok c \<longleftrightarrow>
     (cn_written c = [] \<longrightarrow> cn_main c \<noteq> Looping \<and> cn_handled c = [] \<and> cn_workers c = []) \<and>
     (cn_main c = Greeting \<longrightarrow> cn_written c = []) \<and>
     (cn_written c \<noteq> [] \<longrightarrow> frame_type TypeHeartbeat (hd (cn_written c))) \<and>
     list_all (\<lambda>f. frame_type TypeHeartbeat f \<or> frame_type TypeDiagResponse f) (cn_written c) \<and>
     list_all (\<lambda>e. env_Type e = TypeDiagRequest) (cn_workers c) \<and>
     answered_ids (cn_written c) + asked_ids (cn_workers c) \<subseteq># asked_ids (cn_handled c)"

lemma frames_ok_heartbeat:
  assumes "frames_ok c" and "sendHeartbeat GOOS g wr = (r, fs)" and "cn_main c = Greeting \<or> cn_main c = Looping"
  shows "frames_ok (c \<lparr> cn_main := (if is_ok r then Looping else Returned r), cn_written := cn_written c @ fs \<rparr>)"
proof -
  note f = sendHeartbeat_frames [OF assms(2)]
  have a: "answered_ids (cn_written c @ fs) = answered_ids (cn_written c)" using f by simp
  have "list_all (\<lambda>f. frame_type TypeHeartbeat f \<or> frame_type TypeDiagResponse f) fs" using f by (auto simp: list_all_iff)
  moreover have "fs \<noteq> [] \<longrightarrow> frame_type TypeHeartbeat (hd fs)" using f by (cases fs) auto
  ultimately show ?thesis
    using assms(1,3) f unfolding frames_ok_def a by (cases "is_ok r") (auto simp: hd_append)
qed

lemma frames_ok_answer:
  assumes "frames_ok c" and "slice_sorter srt" and "host_ok g" and "cn_workers c = ws @ e # vs"
  shows "frames_ok (c \<lparr> cn_workers := ws @ vs, cn_written := cn_written c @ handleDiagRequest srt g e wr \<rparr>)"
proof -
  have w: "cn_written c \<noteq> []" "env_Type e = TypeDiagRequest" using assms(1,4) by (auto simp: frames_ok_def)
  have ask: "asked_ids (cn_workers c) = asked_ids (ws @ vs) + {#env_RequestID e#}" using w(2) by (simp add: assms(4) asked_ids_def)
  have sub: "answered_ids (cn_written c) + (asked_ids (ws @ vs) + {#env_RequestID e#}) \<subseteq># asked_ids (cn_handled c)"
    using assms(1) unfolding frames_ok_def ask by blast
  then have "answered_ids (cn_written c) + asked_ids (ws @ vs) \<subseteq># asked_ids (cn_handled c)"
    by (metis add.assoc mset_subset_eq_add_left subset_mset.order_trans)
  with handleDiagRequest_frames [OF assms(2,3), of e wr] w sub assms(1,4) show ?thesis
    by (auto simp: frames_ok_def hd_append ac_simps)
qed

lemma frames_ok_step: "conn_step GOOS srt c c' \<Longrightarrow> slice_sorter srt \<Longrightarrow> frames_ok c \<Longrightarrow> frames_ok c'"
proof (induction rule: conn_step.induct)
  case (greet c wr g r fs)
  then show ?case using frames_ok_heartbeat by blast
next
  case (tick c wr g r fs)
  then show ?case using frames_ok_heartbeat by blast
next
  case (answer c ws e vs g wr)
  then show ?case using frames_ok_answer by blast
next
  case (hand c e)
  then show ?case
    by (auto simp: frames_ok_def handleMessage_def asked_ids_def)
qed (auto simp: frames_ok_def)

lemma frames_ok_reach: "conn_reach GOOS srt c \<Longrightarrow> slice_sorter srt \<Longrightarrow> frames_ok c"
  by (erule agent.invariant) (simp add: frames_ok_def conn_init_def, rule frames_ok_step)

text \<open>What the goroutines still have to do once \<^verbatim>\<open>connectAndServe\<close> has returned.\<close>

definition left_over :: "conn \<Rightarrow> nat" where
  "left_over c = (if cn_reader c = ReaderDone then 0 else 1) + length (cn_workers c) + (if cn_ctxDone c then 0 else 1)"

lemma left_over_step:
  assumes "conn_step GOOS srt c c'" and "returned (cn_main c)"
  shows "cn_main c' = cn_main c \<and> left_over c' < left_over c"
  using assms by (cases rule: conn_step.cases) (auto simp: left_over_def)

lemma nil_only_canceled: "conn_reach GOOS srt c \<Longrightarrow> cn_main c = Returned (Ok ()) \<longrightarrow> cn_ctxDone c"
  by (erule agent.invariant) (simp add: conn_init_def, auto elim!: conn_stepE split: if_splits)

text \<open>A connection that has returned and can do no step has no goroutine left.\<close>

lemma stuck_clean:
  assumes "returned (cn_main c)" and "\<forall>c'. \<not> conn_step GOOS srt c c'"
  shows "cn_reader c = ReaderDone \<and> cn_workers c = []"
proof -
  have "cn_reader c = ReaderDone"
    using assms(2) conn_step.read_fail [of c "ErrText ''closed''"] conn_step.reader_quit [of c] assms(1)
    by (cases "cn_reader c") (auto simp: foreign_def)
  moreover have "cn_workers c = []"
  proof (rule ccontr)
    assume "cn_workers c \<noteq> []"
    then obtain e vs where "cn_workers c = [] @ e # vs" by (cases "cn_workers c") auto
    from conn_step.answer [OF this demo_host_ok, of "Some (ErrText ''closed'')"] assms(2) show False by blast
  qed
  ultimately show ?thesis by blast
qed

lemma conn_winds_down:
  assumes "returned (cn_main c)"
  obtains c' where "(conn_step GOOS srt)\<^sup>*\<^sup>* c c'" "cn_main c' = cn_main c" "cn_reader c' = ReaderDone" "cn_workers c' = []"
proof -
  define Q :: "conn \<Rightarrow> bool" where "Q = (\<lambda>t. cn_main t = cn_main c)"
  have dec: "Q t' \<and> left_over t' < left_over t" if "Q t" "conn_step GOOS srt t t'" for t t'
    using left_over_step [OF that(2)] that(1) assms by (simp add: Q_def)
  have "Q c" by (simp add: Q_def)
  from agent.comes_to_rest [where GOOS = GOOS and srt = srt and left = left_over and Q = Q, OF this dec]
  obtain c' where c': "(conn_step GOOS srt)\<^sup>*\<^sup>* c c'" "Q c'" "\<forall>t. \<not> conn_step GOOS srt c' t" by blast
  with stuck_clean [of c' GOOS srt] assms that show thesis by (simp add: Q_def)
qed

lemma heartbeat_error_foreign:
  assumes "sendHeartbeat GOOS g wr = (Err e, fs)" and "foreign wr"
  shows "\<not> errors_is e ErrUnauthorized"
proof -
  have "\<not> errors_is x ErrUnauthorized" if "heartbeatData GOOS g = Err x" for x
    using that by (auto simp: heartbeatData_def measured_def to_float32_def Let_def split: if_splits res.splits option.splits)
  with assms show ?thesis
    by (auto simp: sendHeartbeat_def foreign_def Encode_def split: res.splits option.splits)
qed

definition no_sentinel :: "conn \<Rightarrow> bool" where
  "no_sentinel c \<longleftrightarrow> foreign (cn_readErr c) \<and> (\<forall>e. cn_main c = Returned (Err e) \<longrightarrow> \<not> errors_is e ErrUnauthorized)"

lemma no_sentinel_reach: "conn_reach GOOS srt c \<Longrightarrow> no_sentinel c"
proof (erule agent.invariant)
  show "no_sentinel conn_init" by (simp add: no_sentinel_def foreign_def conn_init_def)
  show "no_sentinel c'" if "conn_step GOOS srt c c'" "no_sentinel c" for c c'
    using that by (cases rule: conn_step.cases)
      (auto simp: no_sentinel_def foreign_def split: if_splits dest: heartbeat_error_foreign [unfolded foreign_def])
qed

section \<open>Properties\<close>

text \<open>C36: In every interleaving of a connection's goroutines, the messages are handled in the order they were read,
  none twice, and at most one is dropped, when the agent is stopping; texts that are no
  envelopes are skipped. The first frame sent is a heartbeat; every frame is a heartbeat or the response to a
  diagnostic request that was received, and no request is answered twice.\<close>

theorem agent_answers:
  assumes "slice_sorter srt" and "conn_reach GOOS srt c"
  shows "(\<exists>rest. decoded (cn_read c) = cn_handled c @ rest \<and> length rest \<le> 1 \<and>
      (rest \<noteq> [] \<and> cn_reader c = ReaderDone \<longrightarrow> cn_ctxDone c \<or> returned (cn_main c))) \<and>
    (cn_written c \<noteq> [] \<longrightarrow> frame_type TypeHeartbeat (hd (cn_written c))) \<and>
    (\<forall>f \<in> set (cn_written c). frame_type TypeHeartbeat f \<or> frame_type TypeDiagResponse f) \<and>
    answered_ids (cn_written c) + asked_ids (cn_workers c) \<subseteq># asked_ids (cn_handled c)"
proof -
  have "\<exists>rest. decoded (cn_read c) = cn_handled c @ rest \<and> length rest \<le> 1 \<and>
      (rest \<noteq> [] \<and> cn_reader c = ReaderDone \<longrightarrow> cn_ctxDone c \<or> returned (cn_main c))"
    using in_order_reach [OF assms(2)] by (auto simp: in_order_def split: reader.splits)
  with frames_ok_reach [OF assms(2,1)] show ?thesis by (auto simp: frames_ok_def list_all_iff)
qed

text \<open>C37: No goroutine outlives its connection: after \<^verbatim>\<open>connectAndServe\<close> has returned, its result stays, every step of
  the reader and of the diagnostic goroutines brings them nearer to their end, and whatever they do, the run
  ends with all of them gone. It returns nil only after cancellation, and while it runs it can return as
  soon as the context is canceled or a read has failed.\<close>

theorem agent_goroutines_end:
  assumes "conn_reach GOOS srt c"
  shows "(returned (cn_main c) \<longrightarrow>
      (\<forall>c'. conn_step GOOS srt c c' \<longrightarrow> cn_main c' = cn_main c \<and> left_over c' < left_over c) \<and>
      (\<exists>c'. (conn_step GOOS srt)\<^sup>*\<^sup>* c c' \<and> cn_main c' = cn_main c \<and> cn_reader c' = ReaderDone \<and> cn_workers c' = []) \<and>
      ((\<forall>c'. \<not> conn_step GOOS srt c c') \<longrightarrow> cn_reader c = ReaderDone \<and> cn_workers c = [])) \<and>
    (cn_main c = Returned (Ok ()) \<longrightarrow> cn_ctxDone c) \<and>
    (cn_main c = Looping \<and> (cn_ctxDone c \<or> cn_readErr c \<noteq> None) \<longrightarrow>
      (\<exists>c'. conn_step GOOS srt c c' \<and> returned (cn_main c')))"
proof -
  have "\<exists>c'. conn_step GOOS srt c c' \<and> returned (cn_main c')"
    if "cn_main c = Looping" "cn_ctxDone c \<or> cn_readErr c \<noteq> None"
    using that conn_step.stop [of c] conn_step.lost [of c] by fastforce
  moreover have "\<exists>c'. (conn_step GOOS srt)\<^sup>*\<^sup>* c c' \<and> cn_main c' = cn_main c \<and> cn_reader c' = ReaderDone \<and> cn_workers c' = []"
    if "returned (cn_main c)"
    using conn_winds_down [OF that, of GOOS srt] by blast
  ultimately show ?thesis
    using nil_only_canceled [OF assms] left_over_step [of GOOS srt c] stuck_clean [of c GOOS srt] by blast
qed

text \<open>\<^verbatim>\<open>connectAndServe\<close> reports a rejected token exactly when the handshake was answered with 401; no error of
  an established connection makes the agent give up its registration.\<close>

theorem unauthorized_only_401:
  assumes "connectAndServe_returns GOOS srt a d (Err e)" and "toWebSocketURL (ac_ServerURL (ag_cfg a)) = Ok url"
    and "\<And>status x. d = NoConn status x \<Longrightarrow> foreign (Some x)"
  shows "errors_is e ErrUnauthorized \<longleftrightarrow> (\<exists>x. d = NoConn (Some 401) x)"
  using assms no_sentinel_reach
  by (auto simp: connectAndServe_returns_def no_sentinel_def foreign_def split: dial.splits if_splits)

section \<open>A connection at work\<close>

definition demo_sorter :: "procStat list \<Rightarrow> procStat list" where
  "demo_sorter = sort_key (\<lambda>s. - cpuPct s)"

definition greeted :: "goerr option \<Rightarrow> conn" where
  "greeted wr = conn_init \<lparr> cn_main := (if is_ok (fst (sendHeartbeat ''linux'' demo_host wr)) then Looping
     else Returned (fst (sendHeartbeat ''linux'' demo_host wr))), cn_written := snd (sendHeartbeat ''linux'' demo_host wr) \<rparr>"

lemma greeted_reach: "foreign wr \<Longrightarrow> conn_reach ''linux'' demo_sorter (greeted wr)"
  using conn_reach.step [OF conn_reach.start conn_step.greet [of conn_init wr "''linux''" demo_host]]
  by (simp add: greeted_def conn_init_def)

lemma greeted_phase:
  "cn_main (greeted None) = Looping" "cn_written (greeted None) \<noteq> []" "returned (cn_main (greeted (Some x)))"
  by (simp_all add: greeted_def sendHeartbeat_def demo_heartbeat Encode_def)

theorem agent_answers_witness:
  "conn_reach ''linux'' demo_sorter (greeted None) \<and> frame_type TypeHeartbeat (hd (cn_written (greeted None)))"
proof -
  have r: "conn_reach ''linux'' demo_sorter (greeted None)" by (rule greeted_reach) (simp add: foreign_def)
  have "slice_sorter demo_sorter" unfolding demo_sorter_def by (rule sort_key_sorter)
  from agent_answers [OF this r] r greeted_phase show ?thesis by blast
qed

theorem agent_goroutines_end_witness:
  "\<exists>c'. conn_step ''linux'' demo_sorter (greeted (Some (ErrText ''broken pipe''))) c' \<and>
     cn_main c' = cn_main (greeted (Some (ErrText ''broken pipe''))) \<and> left_over c' < left_over (greeted (Some (ErrText ''broken pipe'')))"
proof -
  let ?c = "greeted (Some (ErrText ''broken pipe''))"
  have reach: "conn_reach ''linux'' demo_sorter ?c" by (rule greeted_reach) (simp add: foreign_def)
  have "cn_reader ?c = Reading" by (simp add: greeted_def conn_init_def)
  then have "conn_step ''linux'' demo_sorter ?c (?c \<lparr> cn_reader := ReaderDone, cn_readErr := Some (ErrText ''closed'') \<rparr>)"
    by (rule conn_step.read_fail) (simp add: foreign_def)
  with agent_goroutines_end [OF reach] greeted_phase(3) show ?thesis by blast
qed

theorem unauthorized_only_401_witness:
  "connectAndServe_returns ''linux'' demo_sorter demo_agent (NoConn (Some 403) (ErrText ''handshake'')) (Err (Wrap ''dial: %w'' (ErrText ''handshake''))) \<and>
   \<not> errors_is (Wrap ''dial: %w'' (ErrText ''handshake'')) ErrUnauthorized"
proof -
  have u: "toWebSocketURL (ac_ServerURL (ag_cfg demo_agent)) = Ok ''ws://s''"
    by (simp add: toWebSocketURL_def demo_agent_def HasPrefix_def TrimPrefix_def)
  have r: "connectAndServe_returns ''linux'' demo_sorter demo_agent (NoConn (Some 403) (ErrText ''handshake'')) (Err (Wrap ''dial: %w'' (ErrText ''handshake'')))"
    by (simp add: connectAndServe_returns_def u)
  have "foreign (Some x)" if "NoConn (Some 403) (ErrText ''handshake'') = NoConn status x" for status x
    using that by (auto simp: foreign_def)
  from unauthorized_only_401 [OF r u this] r show ?thesis by auto
qed

end
