(* ===== verification/Agent_Main.thy ===== *)
theory Agent_Main
  imports Agent_Conn Config
begin

text \<open>
  The agent's command (\<^verbatim>\<open>cmd/puls-agent/main.go\<close>): its settings from flags and environment, and its exit code.
\<close>

section \<open>Settings\<close>

definition envOr :: "environ \<Rightarrow> string \<Rightarrow> string \<Rightarrow> string" where
  "envOr e key fallback = (if Getenv e key \<noteq> [] then Getenv e key else fallback)"

definition envDurationOr :: "environ \<Rightarrow> string \<Rightarrow> duration \<Rightarrow> duration" where
  "envDurationOr e key fallback =
     (if Getenv e key \<noteq> []
      then (case ParseDuration (Getenv e key) of Some d \<Rightarrow> d | None \<Rightarrow> fallback)
      else fallback)"

definition envBoolOr :: "environ \<Rightarrow> string \<Rightarrow> bool \<Rightarrow> bool" where
  "envBoolOr e key fallback =
     (let v = Getenv e key
      in if v \<in> {''1'', ''true'', ''yes''} then True else if v \<in> {''0'', ''false'', ''no''} then False else fallback)"

text \<open>The platform the agent was built for and runs on, as the standard library reports it.\<close>

record platform =
  GOOS :: string
  GOARCH :: string
  Hostname :: "string res"
  UserConfigDir :: "string res"
  PathSeparator :: char

definition hostnameOrDefault :: "platform \<Rightarrow> string" where
  "hostnameOrDefault pf = (case Hostname pf of Ok h \<Rightarrow> if h = [] then ''puls-agent'' else h | _ \<Rightarrow> ''puls-agent'')"

definition resolveOS :: "platform \<Rightarrow> string \<Rightarrow> string" where
  "resolveOS pf override = (if override \<noteq> [] then override else if GOOS pf = ''windows'' then ''windows'' else ''linux'')"

definition defaultStateFile :: "platform \<Rightarrow> string" where
  "defaultStateFile pf =
     (case UserConfigDir pf of
        Ok dir \<Rightarrow> if dir = [] then ''.puls-agent-state.json''
                  else dir @ [PathSeparator pf] @ ''puls-agent'' @ [PathSeparator pf] @ ''state.json''
      | _ \<Rightarrow> ''.puls-agent-state.json'')"

datatype agent_log = AgentTextLog | AgentJSONLog

definition agent_buildLogger :: "string \<Rightarrow> agent_log" where
  "agent_buildLogger format = (if format = ''json'' then AgentJSONLog else AgentTextLog)"

text \<open>The flags of the command line, as far as they were given.\<close>

record flags =
  fl_server :: "string option"
  fl_name :: "string option"
  fl_secret :: "string option"
  fl_os :: "string option"
  fl_interval :: "duration option"
  fl_state_file :: "string option"
  fl_insecure :: "bool option"
  fl_log_format :: "string option"

definition flag_or :: "'a option \<Rightarrow> 'a \<Rightarrow> 'a" where
  "flag_or given dflt = (case given of Some v \<Rightarrow> v | None \<Rightarrow> dflt)"

definition agent_config :: "platform \<Rightarrow> environ \<Rightarrow> flags \<Rightarrow> AgentConfig" where
  "agent_config pf e f =
     \<lparr> ac_ServerURL = flag_or (fl_server f) (envOr e ''PULS_AGENT_SERVER'' ''http://localhost:8080''),
       ac_Name = flag_or (fl_name f) (envOr e ''PULS_AGENT_NAME'' (hostnameOrDefault pf)),
       ac_OS = resolveOS pf (flag_or (fl_os f) (envOr e ''PULS_AGENT_OS'' [])),
       ac_Arch = GOARCH pf,
       ac_Secret = flag_or (fl_secret f) (Getenv e ''PULS_AGENT_SECRET''),
       ac_Interval = flag_or (fl_interval f) (envDurationOr e ''PULS_AGENT_INTERVAL'' (20 * second)),
       ac_StateFile = flag_or (fl_state_file f) (envOr e ''PULS_AGENT_STATE_FILE'' (defaultStateFile pf)),
       ac_Insecure = flag_or (fl_insecure f) (envBoolOr e ''PULS_AGENT_INSECURE'' False) \<rparr>"

text \<open>
  The exit code, if the run ends; \<open>canceled\<close> is whether a signal has canceled the context by then. An error
  of \<^verbatim>\<open>Run\<close> that the cancellation caused is none.
\<close>

definition agent_main :: "platform \<Rightarrow> environ \<Rightarrow> flags \<Rightarrow> 'w network \<Rightarrow> 'w round list \<Rightarrow> bool \<Rightarrow> 'w machine \<Rightarrow> int option" where
  "agent_main pf e f net rounds canceled m =
     (case NewAgent (agent_config pf e f) of
        Err _ \<Rightarrow> Some 1
      | Panic _ \<Rightarrow> Some 2
      | Ok a \<Rightarrow>
          (case fst (Agent_Run a net rounds m) of
             None \<Rightarrow> None
           | Some (Ok _) \<Rightarrow> Some 0
           | Some (Err _) \<Rightarrow> Some (if canceled then 0 else 1)
           | Some (Panic _) \<Rightarrow> Some 2))"

section \<open>Properties\<close>

text \<open>With no flags and no environment variables an agent is ready to run on every platform: it has a server URL with a
  known scheme, a positive interval, a name, a state file and an operating system that the server accepts.
  An interval in the environment that does not parse is replaced by 20 seconds.\<close>

theorem agent_defaults:
  assumes "fl_server f = None" and "fl_name f = None" and "fl_os f = None" and "fl_interval f = None" and "fl_state_file f = None"
    and "\<forall>k. k \<noteq> ''PULS_AGENT_INTERVAL'' \<longrightarrow> e k = None" and "\<forall>v. e ''PULS_AGENT_INTERVAL'' = Some v \<longrightarrow> ParseDuration v = None"
  shows "\<exists>a. NewAgent (agent_config pf e f) = Ok a \<and> ac_Interval (ag_cfg a) = 20 * second \<and>
    toWebSocketURL (ac_ServerURL (ag_cfg a)) = Ok ''ws://localhost:8080'' \<and> ac_Name (ag_cfg a) \<noteq> [] \<and>
    ac_OS (ag_cfg a) \<in> {OSWindows, OSLinux} \<and> ac_StateFile (ag_cfg a) \<noteq> []"
proof -
  have none: "Getenv e k = []" if "k \<noteq> ''PULS_AGENT_INTERVAL''" for k
    using assms(6) that by (simp add: Getenv_def split: option.split)
  have iv: "envDurationOr e ''PULS_AGENT_INTERVAL'' d = d" for d
    using assms(7) by (auto simp: envDurationOr_def Getenv_def split: option.splits)
  have env: "envOr e k d = d" if "k \<noteq> ''PULS_AGENT_INTERVAL''" for k d using none [OF that] by (simp add: envOr_def)
  have url: "TrimSuffix ''http://localhost:8080'' ''/'' = ''http://localhost:8080''" by code_simp
  have ws: "toWebSocketURL ''http://localhost:8080'' = Ok ''ws://localhost:8080''" by code_simp
  show ?thesis
    using assms(1-5) url ws
    by (simp add: NewAgent_def agent_config_def flag_or_def env iv resolveOS_def hostnameOrDefault_def defaultStateFile_def
        OSWindows_def OSLinux_def second_def split: res.split)
qed

theorem agent_defaults_witness:
  "\<exists>a. NewAgent (agent_config \<lparr> GOOS = ''darwin'', GOARCH = ''arm64'', Hostname = Err (ErrText ''uname''), UserConfigDir = Err (ErrText ''no HOME''),
      PathSeparator = CHR ''/'' \<rparr> [''PULS_AGENT_INTERVAL'' \<mapsto> ''soon'']
      \<lparr> fl_server = None, fl_name = None, fl_secret = None, fl_os = None, fl_interval = None, fl_state_file = None, fl_insecure = None,
        fl_log_format = None \<rparr>) = Ok a \<and> ac_Interval (ag_cfg a) = 20 * second"
proof -
  have "ParseDuration ''soon'' = None" by code_simp
  then show ?thesis
    using agent_defaults [of "\<lparr> fl_server = None, fl_name = None, fl_secret = None, fl_os = None, fl_interval = None, fl_state_file = None,
        fl_insecure = None, fl_log_format = None \<rparr>" "[''PULS_AGENT_INTERVAL'' \<mapsto> ''soon'']"] by simp blast
qed

end
