(* ===== verification/Server_Routes.thy ===== *)
theory Server_Routes
  imports Server_Http
begin

text \<open>
  Properties of the device and diagnostics routes: what each outcome tells a client, in terms of the
  abstract state of the store, whichever store it is and whatever faults its driver has.
\<close>

lemma on_db_eq: "on_db f s = (fst (f (sv_store s)), s \<lparr> sv_store := snd (f (sv_store s)) \<rparr>)"
  by (simp add: on_db_def Let_def split: prod.splits)

section \<open>Registration\<close>

definition register_ok :: "RegisterRequest \<Rightarrow> bool" where
  "register_ok req \<longleftrightarrow> req_Name req \<noteq> [] \<and> \<not> has_space_end (req_Name req) \<and> req_OS req \<in> {OSWindows, OSLinux} \<and>
     req_Arch req \<noteq> [] \<and> 16 \<le> length (req_Secret req) \<and> \<not> has_space_end (req_Secret req)"

lemma validateRegisterRequest_Ok:
  assumes "validateRegisterRequest req0 = Ok req"
  shows "register_ok req \<and> req = req0 \<lparr> req_Name := TrimSpace (req_Name req0), req_Secret := TrimSpace (req_Secret req0) \<rparr>"
  using assms TrimSpace_clean by (auto simp: validateRegisterRequest_def register_ok_def Let_def split: if_splits)

lemma validateRegisterRequest_no_panic [simp]: "validateRegisterRequest req \<noteq> Panic m"
  by (simp add: validateRegisterRequest_def Let_def)

lemma IssueDeviceToken_no_panic [simp]: "IssueDeviceToken lib m now i ex \<noteq> Panic x"
  by (simp add: IssueDeviceToken_def)

lemma create_no_panic:
  assumes "store_inv p st" and "store_clock_ok p st now" and "i \<noteq> []"
  shows "fst (Store_CreateDevice p i now req st) \<noteq> Panic m"
  using st.eff_create [OF assms, of req] by (auto simp: all_or_nothing_def)

text \<open>The device that a call adds, and what a registration that went through has done.\<close>

definition registered_view :: "call \<Rightarrow> RegisterRequest \<Rightarrow> server \<Rightarrow> store_state" where
  "registered_view e req s =
     add_device (new_device (uuid e) (store_round (stdeps e) (sv_store s) (clock e 0)) req) (store_view (sv_store s))"

definition registered_as :: "call \<Rightarrow> server \<Rightarrow> RegisterRequest \<Rightarrow> string \<Rightarrow> server \<Rightarrow> bool" where
  "registered_as e s req tok s' \<longleftrightarrow>
     register_ok req \<and> st_devices (store_view (sv_store s)) (uuid e) = None \<and>
     store_view (sv_store s') = registered_view e req s \<and>
     (\<forall>t. t < trunc_secs (clock e 1 + DeviceTokenExpiry (sv_cfg s)) \<longrightarrow>
        (\<exists>c. Validate (jwt e) (sv_jwtMgr s) t tok = Ok c \<and> cl_Subject c = uuid e \<and> cl_Role c = RoleDevice))"

lemma register_valid:
  assumes "jwt_ok (jwt e)" and "store_inv (stdeps e) (sv_store s)" and "store_clock_ok (stdeps e) (sv_store s) (clock e 0)"
    and "uuid e \<noteq> []" and run: "handleRegister e r s = (rp, s')"
    and dec: "decode_register (rq_Body r) = Some req0" and val: "validateRegisterRequest req0 = Ok req"
  shows "(\<exists>tok. rp = reply (writeJSON 201 (RegisterResponse_text \<lparr> resp_DeviceID = uuid e, resp_Token = tok \<rparr>)) \<and> registered_as e s req tok s') \<or>
    (\<exists>msg. rp = reply (writeError 500 msg) \<and> (store_view (sv_store s') = store_view (sv_store s) \<or> store_view (sv_store s') = registered_view e req s))"
proof -
  let ?out = "Store_CreateDevice (stdeps e) (uuid e) (clock e 0) req (sv_store s)"
  have ok: "register_ok req" using validateRegisterRequest_Ok [OF val] by blast
  note eff = st.eff_create [OF assms(2-4), of req]
  note start = run [unfolded handleRegister_def dec on_db_eq] val
  show ?thesis
  proof (cases "fst ?out")
    case (Err err)
    with eff start show ?thesis by (auto simp: refuse_def all_or_nothing_def registered_view_def)
  next
    case (Panic m)
    with create_no_panic [OF assms(2-4)] show ?thesis by blast
  next
    case dev: (Ok device)
    with eff have view: "dev_ID device = uuid e" "st_devices (store_view (sv_store s)) (uuid e) = None"
      "store_view (snd ?out) = registered_view e req s"
      by (auto simp: all_or_nothing_def registered_view_def new_device_def)
    show ?thesis
    proof (cases "IssueDeviceToken (jwt e) (sv_jwtMgr s) (clock e 1) (uuid e) (DeviceTokenExpiry (sv_cfg s))")
      case tok: (Ok tok)
      have "rp = reply (writeJSON 201 (RegisterResponse_text \<lparr> resp_DeviceID = uuid e, resp_Token = tok \<rparr>))"
        "s' = s \<lparr> sv_store := snd ?out \<rparr>"
        using view(1) start dev tok by (simp_all add: respond_def)
      moreover have "registered_as e s req tok (s \<lparr> sv_store := snd ?out \<rparr>)"
        using ok view(2,3) issued_claims [OF assms(1) tok [unfolded IssueDeviceToken_def]] by (simp add: registered_as_def)
      ultimately show ?thesis by blast
    qed (use view start dev in \<open>auto simp: refuse_def\<close>)
  qed
qed

lemma register_succeeds:
  assumes "store_inv (stdeps e) (sv_store s)" and "store_quiet (sv_store s)"
    and "store_clock_ok (stdeps e) (sv_store s) (clock e 0)" and "uuid e \<noteq> []" and "st_devices (store_view (sv_store s)) (uuid e) = None"
    and "store_hash_ok (stdeps e) (sv_store s) (req_Secret req)"
    and "is_ok (IssueDeviceToken (jwt e) (sv_jwtMgr s) (clock e 1) (uuid e) (DeviceTokenExpiry (sv_cfg s)))"
    and "decode_register (rq_Body r) = Some req0" and "validateRegisterRequest req0 = Ok req"
  shows "sent_status (rp_actions (fst (handleRegister e r s))) = 201"
proof -
  let ?out = "Store_CreateDevice (stdeps e) (uuid e) (clock e 0) req (sv_store s)"
  obtain d where d: "fst ?out = Ok d" using st.quiet_create [OF assms(1-3,6,5)] by (auto simp: is_ok_iff)
  moreover have "dev_ID d = uuid e"
    using st.eff_create [OF assms(1,3,4), of req] d by (auto simp: all_or_nothing_def new_device_def)
  ultimately show ?thesis
    using assms(7-9) by (auto simp: handleRegister_def on_db_eq respond_def is_ok_iff)
qed

text \<open>C29: \<^verbatim>\<open>POST /api/v1/devices/register\<close> answers 201, 400, 422 or 500 and never panics. With 201 the store has
  the new device under the id of the answer, with the trimmed name, a known operating system and a
  secret of at least 16 bytes, and the token of the answer validates as that device's token until it
  expires; no other row has changed. With 400 or 422 nothing has changed. With 500 the store is
  unchanged or has gained just that device.\<close>

theorem register_outcome:
  assumes "jwt_ok (jwt e)" and "store_inv (stdeps e) (sv_store s)" and "store_clock_ok (stdeps e) (sv_store s) (clock e 0)"
    and "uuid e \<noteq> []" and "handleRegister e r s = (rp, s')"
  shows "rp_panic rp = None \<and>
    (case sent_status (rp_actions rp) of code \<Rightarrow>
      code \<in> {201, 400, 422, 500} \<and>
      (code \<in> {400, 422} \<longrightarrow> s' = s) \<and>
      (code = 500 \<longrightarrow> store_view (sv_store s') = store_view (sv_store s) \<or>
         (\<exists>req. register_ok req \<and> store_view (sv_store s') =
            add_device (new_device (uuid e) (store_round (stdeps e) (sv_store s) (clock e 0)) req) (store_view (sv_store s)))) \<and>
      (code = 201 \<longrightarrow> (\<exists>req tok.
         register_ok req \<and> st_devices (store_view (sv_store s)) (uuid e) = None \<and>
         store_view (sv_store s') =
           add_device (new_device (uuid e) (store_round (stdeps e) (sv_store s) (clock e 0)) req) (store_view (sv_store s)) \<and>
         rp_actions rp = writeJSON 201 (RegisterResponse_text \<lparr> resp_DeviceID = uuid e, resp_Token = tok \<rparr>) \<and>
         (\<forall>t. t < trunc_secs (clock e 1 + DeviceTokenExpiry (sv_cfg s)) \<longrightarrow>
            (\<exists>c. Validate (jwt e) (sv_jwtMgr s) t tok = Ok c \<and> cl_Subject c = uuid e \<and> cl_Role c = RoleDevice)))))"
proof (cases "decode_register (rq_Body r)")
  case None
  with assms(5) show ?thesis by (auto simp: handleRegister_def refuse_def)
next
  case (Some req0)
  show ?thesis
  proof (cases "validateRegisterRequest req0")
    case (Ok req)
    have "register_ok req" using validateRegisterRequest_Ok [OF Ok] by blast
    with register_valid [OF assms Some Ok] show ?thesis
      unfolding registered_as_def registered_view_def by (elim disjE exE conjE) (simp_all, blast+)
  next
    case (Err err)
    with assms(5) Some show ?thesis by (auto simp: handleRegister_def refuse_def)
  qed simp
qed

text \<open>A request body that was printed from a struct is read back.\<close>

lemma decode_strict_print:
  assumes "json_wf (JObj kvs)" and "\<forall>(k, v) \<in> set kvs. fold_name k \<in> set (map fold_name names)"
  shows "decode_strict names (json_print (JObj kvs)) = Some (map (apsnd json_print) kvs)"
proof -
  have "struct_members_prefix (json_print (JObj kvs)) = Some (map (apsnd json_print) kvs)"
    using members_of_print [of kvs] json_prefix_print [OF assms(1)] assms(1)
    by (auto simp: struct_members_prefix_def print_members_obj simp del: json_print.simps)
  with assms(2) show ?thesis by (auto simp: decode_strict_def list_all_iff)
qed

lemma register_names [simp]:
  "fold_name ''name'' = ''NAME''" "fold_name ''os'' = ''OS''" "fold_name ''arch'' = ''ARCH''" "fold_name ''secret'' = ''SECRET''"
  by (subst fold_name_ascii, code_simp, code_simp)+

lemma decode_register_json: "decode_register (json_print (register_json req)) = Some req"
proof -
  let ?kvs = "[(''name'', JStr (req_Name req)), (''os'', JStr (req_OS req)), (''arch'', JStr (req_Arch req)), (''secret'', JStr (req_Secret req))]"
  have "decode_strict [''name'', ''os'', ''arch'', ''secret''] (json_print (JObj ?kvs)) = Some (map (apsnd json_print) ?kvs)"
    by (rule decode_strict_print) simp_all
  then show ?thesis by (simp add: decode_register_def register_json_def del: json_print.simps)
qed

definition demo_register :: RegisterRequest where
  "demo_register = \<lparr> req_Name = ''laptop'', req_OS = ''linux'', req_Arch = ''amd64'', req_Secret = ''0123456789abcdef'' \<rparr>"

lemma demo_server_store [simp]: "sv_store demo_server = SQLiteStore demo_sqlite" "sv_jwtMgr demo_server = demo_manager"
  "sv_hub demo_server = NewHub" "sv_cfg demo_server = demo_config"
  by (simp_all add: demo_server_def New_def)

lemma demo_call_simps [simp]: "jwt demo_call = demo_jwt" "stdeps demo_call = demo_deps" "clock demo_call n = demo_now"
  "uuid demo_call = ''u''" "conn_write demo_call = (\<lambda>c m. Ok ())"
  by (simp_all add: demo_call_def)

lemma demo_now_ok: "store_clock_ok demo_deps (SQLiteStore demo_sqlite) demo_now"
  using demo_clock(1) by (simp add: demo_now_def)

theorem register_outcome_witness:
  "\<exists>rp s'. handleRegister demo_call (demo_request ''POST'' [] (json_print (register_json demo_register))) demo_server = (rp, s')
     \<and> sent_status (rp_actions rp) = 201 \<and> st_devices (store_view (sv_store s')) ''u'' \<noteq> None"
proof -
  let ?r = "demo_request ''POST'' [] (json_print (register_json demo_register))"
  obtain rp s' where run: "handleRegister demo_call ?r demo_server = (rp, s')" by (metis surj_pair)
  have body: "decode_register (rq_Body ?r) = Some demo_register"
    by (simp add: demo_request_def decode_register_json del: json_print.simps)
  have valid: "validateRegisterRequest demo_register = Ok demo_register" by code_simp
  have "is_ok (fst (Store_CreateDevice demo_deps ''u'' demo_now demo_register (SQLiteStore demo_sqlite)))" by code_simp
  then obtain d where d: "fst (Store_CreateDevice demo_deps ''u'' demo_now demo_register (SQLiteStore demo_sqlite)) = Ok d"
    by (auto simp: is_ok_iff)
  have "sent_status (rp_actions rp) = 201"
    using run body valid d by (auto simp: handleRegister_def on_db_eq respond_def IssueDeviceToken_def)
  with register_outcome [of demo_call demo_server ?r rp s'] run demo_jwt_ok demo_store demo_now_ok show ?thesis
    by (auto simp: add_device_def new_device_def)
qed

section \<open>Diagnostics\<close>

lemma Encode_diag_Ok: "\<exists>msg. Encode TypeDiagRequest q (Ok (diag_request_json d)) = Ok msg"
  by (simp add: Encode_def)

lemma request_no_panic:
  assumes "store_inv p st" and "store_clock_ok p st now"
  shows "fst (Store_CreateDiagnosticRequest p now i q sc st) \<noteq> Panic m"
  using st.eff_create_diag [OF assms, of i q sc] by (auto simp: all_or_nothing_def)

text \<open>The frame that asks a device for diagnostics, as the device reads it.\<close>

definition asks_for :: "string \<Rightarrow> string \<Rightarrow> string \<Rightarrow> bool" where
  "asks_for q sc msg \<longleftrightarrow>
     (\<exists>m. unmarshal_envelope msg = Some m \<and> env_Type m = TypeDiagRequest \<and> env_RequestID m = q \<and>
        unmarshal_diag_request (env_Data m) = Some \<lparr> Scope = sc \<rparr>)"

lemma Encode_asks_for:
  assumes "Encode TypeDiagRequest q (Ok (diag_request_json \<lparr> Scope = sc \<rparr>)) = Ok msg"
  shows "asks_for q sc msg"
proof -
  have "json_wf (diag_request_json \<lparr> Scope = sc \<rparr>)" by (simp add: diag_request_json_def)
  from unmarshal_Encode [OF this assms] unmarshal_diag_request_json [of "\<lparr> Scope = sc \<rparr>"] show ?thesis
    by (simp add: asks_for_def)
qed

text \<open>A request that was stored and whose frame could not be written is taken back.\<close>

lemma undo_request:
  assumes "store_inv p st1" and "store_quiet st1" and "store_view st1 = add_diagnostic (new_diagnostic n t i q sc) a"
    and "st_diagnostics a q = None"
  shows "store_view (snd (Store_DeleteDiagnosticRequest q st1)) = a"
  using st.eff_delete_diag [OF assms(1), of q] st.quiet_delete_diag [OF assms(1,2), of q] assms(3,4)
  by (cases a) (auto simp: all_or_nothing_def drop_diagnostic_def add_diagnostic_def new_diagnostic_def fun_upd_idem)

text \<open>What the delivery of a stored request comes to.\<close>

lemma deliver_request:
  assumes c: "map_of (clients (sv_hub s)) i = Some c" and sc: "decode_scope (rq_Body r) = Some sc" "valid_scope sc"
    and create: "Store_CreateDiagnosticRequest (stdeps e) (clock e 0) i (uuid e) sc (sv_store s) = (Ok g, st1)"
    and run: "handleRequestDiagnostics e i r s = (rp, s')" and np: "\<forall>c msg m. conn_write e c msg \<noteq> Panic m"
  shows "(\<exists>msg. asks_for (uuid e) sc msg \<and> rp = reply (writeJSON 202 (DiagnosticResult_text (g \<lparr> diag_Status := DiagnosticPending \<rparr>))) \<and>
       s' = s \<lparr> sv_store := st1, sv_frames := sv_frames s @ [(c, msg)] \<rparr>) \<or>
    rp = reply (writeError 503 ''failed to deliver request to device'') \<and>
       s' = s \<lparr> sv_store := snd (Store_DeleteDiagnosticRequest (uuid e) st1) \<rparr>"
proof -
  obtain msg where msg: "Encode TypeDiagRequest (uuid e) (Ok (diag_request_json \<lparr> Scope = sc \<rparr>)) = Ok msg"
    using Encode_diag_Ok by blast
  have conn: "IsConnected i (sv_hub s)" using c by (simp add: IsConnected_def)
  have send: "hub_send e i msg (s \<lparr> sv_store := st1 \<rparr>) =
      (case conn_write e c msg of Ok u \<Rightarrow> (Ok u, s \<lparr> sv_store := st1, sv_frames := sv_frames s @ [(c, msg)] \<rparr>)
       | Err err \<Rightarrow> (Err (Wrap ''ws send: %w'' err), s \<lparr> sv_store := st1 \<rparr>) | Panic m \<Rightarrow> (Panic m, s \<lparr> sv_store := st1 \<rparr>))"
    using c by (auto simp: hub_send_def Send_def send_def log_frame_def Let_def split: res.split)
  show ?thesis
    using run conn sc create msg send np Encode_asks_for [OF msg]
    by (cases "conn_write e c msg")
      (auto simp: handleRequestDiagnostics_def respond_def refuse_def on_db_eq deleteOrphanedDiagnosticRequest_def)
qed

lemma request_accepted:
  assumes "handleRequestDiagnostics e i r s = (rp, s')" and "sent_status (rp_actions rp) = 202" and "\<forall>c msg m. conn_write e c msg \<noteq> Panic m"
    and "store_inv (stdeps e) (sv_store s)" and "store_clock_ok (stdeps e) (sv_store s) (clock e 0)"
  obtains sc c g st1 msg where "map_of (clients (sv_hub s)) i = Some c" "valid_scope sc" "asks_for (uuid e) sc msg"
    "Store_CreateDiagnosticRequest (stdeps e) (clock e 0) i (uuid e) sc (sv_store s) = (Ok g, st1)"
    "s' = s \<lparr> sv_store := st1, sv_frames := sv_frames s @ [(c, msg)] \<rparr>"
proof -
  have conn: "IsConnected i (sv_hub s)" 
    using assms(1,2) by (cases "IsConnected i (sv_hub s)") (auto simp: handleRequestDiagnostics_def refuse_def)
  then obtain c where c: "map_of (clients (sv_hub s)) i = Some c" by (auto simp: IsConnected_def)
  obtain sc where sc: "decode_scope (rq_Body r) = Some sc" "valid_scope sc"
    using assms(1,2) conn by (cases "decode_scope (rq_Body r)") (auto simp: handleRequestDiagnostics_def refuse_def split: if_splits)
  obtain res st1 where out: "Store_CreateDiagnosticRequest (stdeps e) (clock e 0) i (uuid e) sc (sv_store s) = (res, st1)"
    by (metis surj_pair)
  show thesis
  proof (cases res)
    case (Ok g)
    with deliver_request [OF c sc out [unfolded Ok] assms(1,3)] assms(2) that [OF c sc(2)] out show thesis by auto
  next
    case (Err err)
    with assms(1,2) conn sc out show thesis by (auto simp: handleRequestDiagnostics_def refuse_def on_db_eq)
  next
    case (Panic m)
    with request_no_panic [OF assms(4,5), of i "uuid e" sc m] out show thesis by simp
  qed
qed

text \<open>C30: \<^verbatim>\<open>POST /api/v1/devices/{id}/diagnose\<close> on a store that works answers 202, 400, 422, 500 or 503. With 202
  the store holds the pending request under a fresh request id and a frame with that id and scope has
  gone to the connection registered for the device. With any other answer no request is left
  behind in the store, also when the device vanished between the check and the delivery, and no frame
  was sent. The route panics only if writing to the connection does.\<close>

theorem diagnose_delivery:
  assumes "store_inv (stdeps e) (sv_store s)" and "store_quiet (sv_store s)"
    and "store_clock_ok (stdeps e) (sv_store s) (clock e 0)" and "st_diagnostics (store_view (sv_store s)) (uuid e) = None"
    and "\<forall>c msg m. conn_write e c msg \<noteq> Panic m"
    and "handleRequestDiagnostics e i r s = (rp, s')"
  shows "rp_panic rp = None \<and>
    (if sent_status (rp_actions rp) = 202
     then (\<exists>sc n c msg. valid_scope sc \<and> asks_for (uuid e) sc msg \<and>
        store_view (sv_store s') =
          add_diagnostic (new_diagnostic n (store_round (stdeps e) (sv_store s) (clock e 0)) i (uuid e) sc) (store_view (sv_store s)) \<and>
        map_of (clients (sv_hub s)) i = Some c \<and> sv_frames s' = sv_frames s @ [(c, msg)])
     else sent_status (rp_actions rp) \<in> {400, 422, 500, 503} \<and>
        store_view (sv_store s') = store_view (sv_store s) \<and> sv_frames s' = sv_frames s)"
proof -
  consider (away) "\<not> IsConnected i (sv_hub s)" | (body) "IsConnected i (sv_hub s)" "decode_scope (rq_Body r) = None"
    | (scope) sc where "IsConnected i (sv_hub s)" "decode_scope (rq_Body r) = Some sc" "\<not> valid_scope sc"
    | (go) sc c where "map_of (clients (sv_hub s)) i = Some c" "decode_scope (rq_Body r) = Some sc" "valid_scope sc"
    by (cases "decode_scope (rq_Body r)") (auto simp: IsConnected_def)
  then show ?thesis
  proof cases
    case (go sc c)
    obtain res st1 where out: "Store_CreateDiagnosticRequest (stdeps e) (clock e 0) i (uuid e) sc (sv_store s) = (res, st1)"
      by (metis surj_pair)
    note eff = st.eff_create_diag [OF assms(1,3), of i "uuid e" sc, unfolded out]
    show ?thesis
    proof (cases res)
      case (Ok g)
      then obtain n where view: "store_view st1 =
          add_diagnostic (new_diagnostic n (store_round (stdeps e) (sv_store s) (clock e 0)) i (uuid e) sc) (store_view (sv_store s))"
        using eff by (auto simp: all_or_nothing_def)
      have "store_inv (stdeps e) st1" "store_quiet st1"
        using st.inv_create_diag [OF assms(1,3), of i "uuid e" sc] quiet_ops(5) [OF assms(2)] out by (metis snd_conv)+
      note undo = undo_request [OF this view assms(4)]
      from deliver_request [OF go out [unfolded Ok] assms(6,5)] show ?thesis
      proof (elim disjE exE conjE)
        fix msg
        assume "asks_for (uuid e) sc msg" "s' = s \<lparr> sv_store := st1, sv_frames := sv_frames s @ [(c, msg)] \<rparr>"
          "rp = reply (writeJSON 202 (DiagnosticResult_text (g \<lparr> diag_Status := DiagnosticPending \<rparr>)))"
        with view go show ?thesis by (simp, intro exI [of _ sc] conjI exI [of _ n]) simp_all
      qed (use undo in simp)
    next
      case (Err err)
      have "st_devices (store_view (sv_store s)) i = None"
        using st.quiet_create_diag [OF assms(1,2), where now = "clock e 0" and i = i and r = "uuid e" and sc = sc] assms(4) out Err
        by (auto simp: is_ok_iff)
      with eff Err have "store_view st1 = store_view (sv_store s)" by (auto simp: all_or_nothing_def)
      with Err assms(6) go out show ?thesis by (auto simp: handleRequestDiagnostics_def refuse_def on_db_eq IsConnected_def)
    qed (use eff in \<open>simp add: all_or_nothing_def\<close>)
  qed (use assms(6) in \<open>auto simp: handleRequestDiagnostics_def refuse_def\<close>)
qed

lemma decode_scope_json: "decode_scope (json_print (JObj [(''scope'', JStr sc)])) = Some sc"
proof -
  have "decode_strict [''scope''] (json_print (JObj [(''scope'', JStr sc)])) = Some (map (apsnd json_print) [(''scope'', JStr sc)])"
    by (rule decode_strict_print) simp_all
  then show ?thesis by (simp add: decode_scope_def del: json_print.simps)
qed

definition demo_connected :: server where
  "demo_connected = demo_server \<lparr> sv_hub := snd (Register (client 1 ''a'') NewHub) \<rparr>"

definition demo_ask :: Request where
  "demo_ask = demo_request ''POST'' [] (json_print (JObj [(''scope'', JStr ''network'')]))"

lemma demo_connected_simps [simp]: "sv_store demo_connected = SQLiteStore demo_sqlite" "sv_frames demo_connected = []"
    "map_of (clients (sv_hub demo_connected)) ''a'' = Some (client 1 ''a'')" "IsConnected ''a'' (sv_hub demo_connected)"
    "sv_wsLimiter demo_connected = sv_wsLimiter demo_server"
  by (simp_all add: demo_connected_def demo_server_def New_def IsConnected_def)

lemma demo_asked:
  assumes "handleRequestDiagnostics demo_call ''a'' demo_ask demo_connected = (rp, s')"
  shows "sent_status (rp_actions rp) = 202 \<and> sv_wsLimiter s' = sv_wsLimiter demo_server"
proof -
  have scope: "decode_scope (rq_Body demo_ask) = Some ''network''"
    by (simp add: demo_ask_def demo_request_def decode_scope_json del: json_print.simps)
  have "is_ok (fst (Store_CreateDiagnosticRequest demo_deps demo_now ''a'' ''u'' ''network'' (SQLiteStore demo_sqlite)))" by code_simp
  then obtain g where g: "fst (Store_CreateDiagnosticRequest demo_deps demo_now ''a'' ''u'' ''network'' (SQLiteStore demo_sqlite)) = Ok g"
    by (auto simp: is_ok_iff)
  from assms scope g show ?thesis
    by (auto simp: handleRequestDiagnostics_def on_db_eq respond_def valid_scope_def scope_defs hub_send_def Send_def send_def
        log_frame_def Let_def Encode_def)
qed

lemma demo_fresh_request: "st_diagnostics (store_view (SQLiteStore demo_sqlite)) ''u'' = None" by code_simp

theorem diagnose_delivery_witness:
  "\<exists>rp s' msg. handleRequestDiagnostics demo_call ''a'' demo_ask demo_connected = (rp, s')
     \<and> sent_status (rp_actions rp) = 202 \<and> sv_frames s' = [(client 1 ''a'', msg)] \<and> (\<exists>sc. asks_for ''u'' sc msg)"
proof -
  obtain rp s' where run: "handleRequestDiagnostics demo_call ''a'' demo_ask demo_connected = (rp, s')" by (metis surj_pair)
  then show ?thesis
    using diagnose_delivery [of demo_call demo_connected "''a''" demo_ask rp s'] demo_asked [OF run] demo_store demo_now_ok demo_fresh_request
    by auto
qed

section \<open>A device's messages\<close>

lemma same_backend [simp]:
  "store_clock_ok p (snd (Store_InsertHeartbeat q now hb st)) = store_clock_ok p st"
  "store_clock_ok p (snd (Store_UpdateLastSeen q now i st)) = store_clock_ok p st"
  "store_clock_ok p (snd (Store_SaveDiagnosticResult q now x y st)) = store_clock_ok p st"
  "store_round p (snd (Store_InsertHeartbeat q now hb st)) = store_round p st"
  "store_clock_ok p (snd (Store_CreateDiagnosticRequest q now i x y st)) = store_clock_ok p st"
  "store_round p (snd (Store_CreateDiagnosticRequest q now i x y st)) = store_round p st"
  by (cases st; simp add: store_op_defs)+

text \<open>A heartbeat and a diagnostic response on a store that works.\<close>

definition received_heartbeat :: "int \<Rightarrow> string \<Rightarrow> time \<Rightarrow> HeartbeatData \<Rightarrow> Heartbeat" where
  "received_heartbeat n i t d =
     \<lparr> hb_ID = n, hb_DeviceID = i, hb_ReceivedAt = t, hb_CPUPercent = CPUPercent d, hb_MemoryPercent = MemoryPercent d,
       hb_DiskPercent = DiskPercent d, hb_UptimeSeconds = UptimeSeconds d, hb_OSVersion = OSVersion d \<rparr>"

lemma heartbeat_stored:
  assumes "store_inv (stdeps e) (sv_store s)" and "store_quiet (sv_store s)" and clk: "\<And>n. store_clock_ok (stdeps e) (sv_store s) (clock e n)"
    and dev: "st_devices (store_view (sv_store s)) (DeviceID c) \<noteq> None"
    and m: "env_Type m = TypeHeartbeat" "unmarshal_heartbeat (env_Data m) = Some d"
  shows "\<exists>n s'. handleWSMessage e c m s = (Ok (), s') \<and> n \<notin> hb_ID ` set (st_heartbeats (store_view (sv_store s))) \<and>
    store_view (sv_store s') = change_device (DeviceID c) (seen_at (store_round (stdeps e) (sv_store s) (clock e 2)))
      (add_heartbeat (received_heartbeat n (DeviceID c) (store_round (stdeps e) (sv_store s) (clock e 1)) d) (store_view (sv_store s))) \<and>
    HeartbeatsTotal (sv_metrics s') = Suc (HeartbeatsTotal (sv_metrics s)) \<and> sv_frames s' = sv_frames s"
proof -
  let ?p = "stdeps e" and ?i = "DeviceID c" and ?hb = "received_heartbeat 0 (DeviceID c) zero_time d"
  define st1 where "st1 = snd (Store_InsertHeartbeat ?p (clock e 1) ?hb (sv_store s))"
  define st2 where "st2 = snd (Store_UpdateLastSeen ?p (clock e 2) ?i st1)"
  have ok1: "fst (Store_InsertHeartbeat ?p (clock e 1) ?hb (sv_store s)) = Ok ()"
    using st.quiet_insert_hb [OF assms(1,2), where hb = ?hb and now = "clock e 1"] dev by (auto simp: is_ok_iff received_heartbeat_def)
  then obtain n where n: "n \<notin> hb_ID ` set (st_heartbeats (store_view (sv_store s)))"
    "store_view st1 = add_heartbeat (received_heartbeat n ?i (store_round ?p (sv_store s) (clock e 1)) d) (store_view (sv_store s))"
    using st.eff_insert_hb [OF assms(1) clk [of 1], of ?hb] by (auto simp: all_or_nothing_def st1_def received_heartbeat_def)
  have st1: "store_inv ?p st1" "store_quiet st1" "store_clock_ok ?p st1 (clock e 2)" "store_round ?p st1 = store_round ?p (sv_store s)"
    using st.inv_insert_hb [OF assms(1) clk [of 1]] quiet_ops(4) [OF assms(2)] clk [of 2] by (simp_all add: st1_def)
  have ok2: "fst (Store_UpdateLastSeen ?p (clock e 2) ?i st1) = Ok ()" by (rule st.quiet_update_seen [OF st1(1,2)])
  then have view: "store_view st2 = change_device ?i (seen_at (store_round ?p (sv_store s) (clock e 2))) (store_view st1)"
    using st.eff_update_seen [OF st1(1,3), of ?i] st1(4) by (simp add: all_or_nothing_def st2_def)
  have "handleWSMessage e c m s =
      (Ok (), publish (heartbeat_event ?i d) (s \<lparr> sv_metrics := IncHeartbeat (sv_metrics s), sv_store := st2 \<rparr>))"
    using m ok1 ok2 unfolding st2_def st1_def received_heartbeat_def
    by (simp add: handleWSMessage_def handleHeartbeat_def on_db_eq Let_def)
  with n view show ?thesis by (auto simp: publish_def IncHeartbeat_def)
qed

lemma response_stored:
  assumes "store_inv (stdeps e) (sv_store s)" and "store_quiet (sv_store s)" and clk: "store_clock_ok (stdeps e) (sv_store s) (clock e 1)"
    and m: "env_Type m = TypeDiagResponse" "env_RequestID m \<noteq> []" and g: "st_diagnostics (store_view (sv_store s)) (env_RequestID m) = Some g"
  shows "\<exists>s'. handleWSMessage e c m s = (Ok (), s') \<and> sv_frames s' = sv_frames s \<and>
    store_view (sv_store s') =
      change_diagnostic (env_RequestID m) (answered (store_round (stdeps e) (sv_store s) (clock e 1)) (env_Data m)) (store_view (sv_store s))"
proof -
  let ?out = "Store_SaveDiagnosticResult (stdeps e) (clock e 1) (env_RequestID m) (env_Data m) (sv_store s)"
  have ok: "fst ?out = Ok ()" using st.quiet_save_diag [OF assms(1,2)] g by simp
  then have "store_view (snd ?out) =
      change_diagnostic (env_RequestID m) (answered (store_round (stdeps e) (sv_store s) (clock e 1)) (env_Data m)) (store_view (sv_store s))"
    using st.eff_save_diag [OF assms(1) clk, of "env_RequestID m" "env_Data m"] by (simp add: all_or_nothing_def)
  with m ok show ?thesis by (simp add: handleWSMessage_def handleDiagResponse_def on_db_eq type_defs)
qed

lemma Run_allowed:
  assumes "unmarshal_envelope raw = Some m" and "allowMessage e (DeviceID c) s = (True, s1)" and "handleWSMessage e c m s1 = (Ok u, s')"
  shows "Run_loop c [(e, raw)] s = (None, s')"
  using assms by (simp add: Run_message_def)

text \<open>What a run of one connection may change in the store.\<close>

definition own_changes :: "string \<Rightarrow> store_state \<Rightarrow> store_state \<Rightarrow> bool" where
  "own_changes d a a' \<longleftrightarrow>
     (\<forall>i. i \<noteq> d \<longrightarrow> st_devices a' i = st_devices a i) \<and>
     filter (\<lambda>h. hb_DeviceID h \<noteq> d) (st_heartbeats a') = filter (\<lambda>h. hb_DeviceID h \<noteq> d) (st_heartbeats a) \<and>
     dom (st_diagnostics a') = dom (st_diagnostics a)"

lemma own_changes_refl [simp]: "own_changes d a a"
  by (simp add: own_changes_def)

lemma own_changes_trans: "own_changes d a b \<Longrightarrow> own_changes d b c \<Longrightarrow> own_changes d a c"
  by (simp add: own_changes_def)

lemma own_heartbeat:
  assumes "store_inv p st" and "store_clock_ok p st now" and "hb_DeviceID hb = d"
  shows "own_changes d (store_view st) (store_view (snd (Store_InsertHeartbeat p now hb st)))"
  using st.eff_insert_hb [OF assms(1,2), of hb] assms(3)
  by (cases "fst (Store_InsertHeartbeat p now hb st)") (auto simp: all_or_nothing_def own_changes_def add_heartbeat_def)

lemma own_seen:
  assumes "store_inv p st" and "store_clock_ok p st now"
  shows "own_changes d (store_view st) (store_view (snd (Store_UpdateLastSeen p now d st)))"
  using st.eff_update_seen [OF assms, of d]
  by (cases "fst (Store_UpdateLastSeen p now d st)") (auto simp: all_or_nothing_def own_changes_def change_device_def)

lemma own_answer:
  assumes "store_inv p st" and "store_clock_ok p st now"
  shows "own_changes d (store_view st) (store_view (snd (Store_SaveDiagnosticResult p now q x st)))"
  using st.eff_save_diag [OF assms, of q x]
  by (cases "fst (Store_SaveDiagnosticResult p now q x st)") (auto simp: all_or_nothing_def own_changes_def change_diagnostic_def dom_def split: if_splits)

definition loop_ok :: "store_deps \<Rightarrow> Client \<Rightarrow> server \<Rightarrow> server \<Rightarrow> bool" where
  "loop_ok p c s s' \<longleftrightarrow> store_inv p (sv_store s') \<and> store_clock_ok p (sv_store s') = store_clock_ok p (sv_store s) \<and>
     own_changes (DeviceID c) (store_view (sv_store s)) (store_view (sv_store s')) \<and> sv_hub s' = sv_hub s \<and>
     (\<forall>f \<in> set (sv_frames s'). f \<in> set (sv_frames s) \<or> fst f = c)"

lemma loop_ok_trans: "loop_ok p c s s1 \<Longrightarrow> loop_ok p c s1 s2 \<Longrightarrow> loop_ok p c s s2"
  unfolding loop_ok_def by (metis own_changes_trans)

lemma loop_ok_handle:
  assumes inv: "store_inv (stdeps e) (sv_store s)" and clk: "\<And>n. store_clock_ok (stdeps e) (sv_store s) (clock e n)"
    and run: "handleWSMessage e c m s = (r, s')"
  shows "loop_ok (stdeps e) c s s' \<and> (\<forall>x. r \<noteq> Panic x)"
proof -
  let ?p = "stdeps e" and ?d = "DeviceID c"
  consider (heartbeat) "env_Type m = TypeHeartbeat" | (answer) "env_Type m \<noteq> TypeHeartbeat" "env_Type m = TypeDiagResponse"
    | (other) "env_Type m \<noteq> TypeHeartbeat" "env_Type m \<noteq> TypeDiagResponse" by blast
  then show ?thesis
  proof cases
    case heartbeat
    show ?thesis
    proof (cases "unmarshal_heartbeat (env_Data m)")
      case None
      with heartbeat run inv show ?thesis by (auto simp: handleWSMessage_def handleHeartbeat_def loop_ok_def)
    next
      case (Some data)
      define hb where "hb = \<lparr> hb_ID = 0, hb_DeviceID = ?d, hb_ReceivedAt = zero_time, hb_CPUPercent = CPUPercent data,
                      hb_MemoryPercent = MemoryPercent data, hb_DiskPercent = DiskPercent data,
                      hb_UptimeSeconds = UptimeSeconds data, hb_OSVersion = OSVersion data \<rparr>"
      define st1 where "st1 = snd (Store_InsertHeartbeat ?p (clock e 1) hb (sv_store s))"
      define st2 where "st2 = snd (Store_UpdateLastSeen ?p (clock e 2) ?d st1)"
      have st1: "store_inv ?p st1" "own_changes ?d (store_view (sv_store s)) (store_view st1)"
        "store_clock_ok ?p st1 = store_clock_ok ?p (sv_store s)"
        using st.inv_insert_hb [OF inv clk] own_heartbeat [OF inv clk, where hb = hb and d = ?d] by (auto simp: st1_def hb_def)
      have clk1: "store_clock_ok ?p st1 (clock e 2)" using clk st1(3) by simp
      have st2: "store_inv ?p st2" "own_changes ?d (store_view st1) (store_view st2)"
        "store_clock_ok ?p st2 = store_clock_ok ?p (sv_store s)"
        using st.inv_update_seen [OF st1(1) clk1] own_seen [OF st1(1) clk1] st1(3) by (auto simp: st2_def)
      have np: "fst (Store_InsertHeartbeat ?p (clock e 1) hb (sv_store s)) \<noteq> Panic x"
        "fst (Store_UpdateLastSeen ?p (clock e 2) ?d st1) \<noteq> Panic x" for x
        using st.eff_insert_hb [OF inv clk [of 1], of hb] st.eff_update_seen [OF st1(1) clk1, of ?d] by (auto simp: all_or_nothing_def)
      have own: "own_changes ?d (store_view (sv_store s)) (store_view st2)" using st1(2) st2(2) by (rule own_changes_trans)
      have eq: "handleWSMessage e c m s =
          (case fst (Store_InsertHeartbeat ?p (clock e 1) hb (sv_store s)) of
             Err err \<Rightarrow> (Err err, s \<lparr> sv_store := st1 \<rparr>) | Panic x \<Rightarrow> (Panic x, s \<lparr> sv_store := st1 \<rparr>)
           | Ok _ \<Rightarrow> (case fst (Store_UpdateLastSeen ?p (clock e 2) ?d st1) of
               Panic x \<Rightarrow> (Panic x, s \<lparr> sv_metrics := IncHeartbeat (sv_metrics s), sv_store := st2 \<rparr>)
             | _ \<Rightarrow> (Ok (), publish (heartbeat_event ?d data) (s \<lparr> sv_metrics := IncHeartbeat (sv_metrics s), sv_store := st2 \<rparr>))))"
        using heartbeat Some
        by (simp add: handleWSMessage_def handleHeartbeat_def on_db_eq hb_def [symmetric] st1_def st2_def Let_def
            split: res.split)
      show ?thesis
        using run st1 st2 own np unfolding eq
        by (auto simp: loop_ok_def publish_def split: res.splits)
    qed
  next
    case answer
    show ?thesis
    proof (cases "env_RequestID m = []")
      case True
      with answer run inv show ?thesis by (auto simp: handleWSMessage_def handleDiagResponse_def loop_ok_def)
    next
      case False
      have "fst (Store_SaveDiagnosticResult ?p (clock e 1) (env_RequestID m) (env_Data m) (sv_store s)) \<noteq> Panic x" for x
        using st.eff_save_diag [OF inv clk [of 1], of "env_RequestID m" "env_Data m"] by (auto simp: all_or_nothing_def)
      with False answer run st.inv_save_diag [OF inv clk] own_answer [OF inv clk] show ?thesis
        by (auto simp: handleWSMessage_def handleDiagResponse_def on_db_eq loop_ok_def)
    qed
  next
    case other
    with run inv show ?thesis by (auto simp: handleWSMessage_def loop_ok_def)
  qed
qed

lemma loop_ok_send_error: "store_inv p (sv_store s) \<Longrightarrow> loop_ok p c s (send_error e c q x s)"
  by (auto simp: loop_ok_def send_error_def client_send_def log_frame_def Let_def split: res.splits)

lemma loop_ok_message:
  assumes inv: "store_inv (stdeps e) (sv_store s)" and clk: "\<And>n. store_clock_ok (stdeps e) (sv_store s) (clock e n)"
    and run: "Run_message e c raw s = (pk, s')"
  shows "loop_ok (stdeps e) c s s' \<and> pk = None"
proof (cases "unmarshal_envelope raw")
  case None
  with run inv show ?thesis by (auto simp: Run_message_def loop_ok_send_error)
next
  case (Some m)
  obtain ok s1 where al: "allowMessage e (DeviceID c) s = (ok, s1)" by (metis surj_pair)
  then have s1: "sv_store s1 = sv_store s" "loop_ok (stdeps e) c s s1"
    using inv by (auto simp: allowMessage_def loop_ok_def Let_def split: prod.splits if_splits)
  show ?thesis
  proof (cases ok)
    case True
    obtain r s2 where h: "handleWSMessage e c m s1 = (r, s2)" by (metis surj_pair)
    have "loop_ok (stdeps e) c s1 s2 \<and> (\<forall>x. r \<noteq> Panic x)"
      by (rule loop_ok_handle [OF _ _ h]) (use inv clk s1 in simp_all)
    with s1(2) run Some al True h show ?thesis
      by (cases r) (auto simp: Run_message_def intro: loop_ok_trans)
  next
    case False
    with run Some al inv s1 loop_ok_send_error [of "stdeps e" s1 c] show ?thesis
      by (auto simp: Run_message_def intro: loop_ok_trans)
  qed
qed


definition demo_messages :: "(call \<times> string) list" where
  "demo_messages = [(demo_call, ''{\"type\":\"heartbeat\",\"timestamp\":\"2024-01-01T00:00:00Z\",\"data\":{}}''), (demo_call, ''garbage'')]"


end
