(* ===== verification/System.thy ===== *)
theory System
  imports Server_Routes Agent_Conn
begin

text \<open>
  The agent and the server together: the frames and requests one side sends are handled by the other.
  The connection between them is a transport that delivers requests, answers and frames as they are;
  everything else is the code of the two programs.
\<close>

section \<open>HTTP between the agent and the server\<close>

text \<open>
  A request of the agent as the server sees it: the path is what follows the server's address in the URL.
\<close>

definition arrives :: "string \<Rightarrow> string \<Rightarrow> http_request \<Rightarrow> Request" where
  "arrives base addr q =
     \<lparr> rq_Method = hq_Method q, rq_Segments = split_on (CHR ''/'') (drop (Suc (length base)) (hq_URL q)),
       rq_Header = (\<lambda>k. map snd (filter (\<lambda>(k', v). k' = k) (hq_Header q))), rq_Query = (\<lambda>_. []),
       rq_RemoteAddr = addr, rq_Body = hq_Body q \<rparr>"

text \<open>The network that connects an agent at \<open>addr\<close> with the server at \<open>base\<close>.\<close>

definition server_net :: "string \<Rightarrow> string \<Rightarrow> (nat \<Rightarrow> time) \<Rightarrow> call \<Rightarrow> surroundings \<Rightarrow> server network" where
  "server_net base addr t e x =
     \<lparr> bad_url = (\<lambda>_. None),
       http_Do = (\<lambda>cl q s. let (rp, s') = serve t e x (arrives base addr q) s
          in (Ok \<lparr> hs_StatusCode = sent_status (rp_actions rp), hs_Body = sent_body (rp_actions rp) \<rparr>, s')) \<rparr>"

section \<open>Registration\<close>

definition cfg_request :: "Agent \<Rightarrow> RegisterRequest" where
  "cfg_request a = \<lparr> req_Name = ac_Name (ag_cfg a), req_OS = ac_OS (ag_cfg a), req_Arch = ac_Arch (ag_cfg a), req_Secret = ac_Secret (ag_cfg a) \<rparr>"

lemma arrives_register:
  "arrives (ac_ServerURL (ag_cfg a)) addr (register_request a) =
     \<lparr> rq_Method = ''POST'', rq_Segments = [''api'', ''v1'', ''devices'', ''register''],
       rq_Header = (\<lambda>k. if k = ''Content-Type'' then [''application/json''] else []), rq_Query = (\<lambda>_. []),
       rq_RemoteAddr = addr, rq_Body = json_print (register_json (cfg_request a)) \<rparr>"
proof -
  have "split_on CHR ''/'' ''api/v1/devices/register'' = [''api'', ''v1'', ''devices'', ''register'']" by code_simp
  then show ?thesis by (auto simp: arrives_def register_request_def cfg_request_def)
qed

lemma sent_json [simp]:
  "sent_body (writeJSON code (Some j)) = j @ [CHR 0x0A]" "sent_body (writeError code m) = print_members [(''error'', json_print (JStr m))] @ [CHR 0x0A]"
  by (simp_all add: writeJSON_def writeError_def encode_body_def)

lemma response_names [simp]:
  "fold_name ''deviceId'' = ''DEVICEID''" "fold_name ''token'' = ''TOKEN''" "fold_name ''error'' = ''ERROR''"
  by (subst fold_name_ascii, code_simp, code_simp)+

lemma decode_error_body: "decode_api_error (print_members [(''error'', json_print (JStr m))] @ t) = m"
proof -
  have "struct_members_prefix (print_members [(''error'', json_print (JStr m))] @ t) = Some [(''error'', json_print (JStr m))]"
    using stream_members [of "[(''error'', JStr m)]" t] by (simp del: json_print.simps)
  then show ?thesis by (simp add: decode_api_error_def del: json_print.simps)
qed

lemma decode_register_body:
  assumes "RegisterResponse_text resp = Some j"
  shows "decode_RegisterResponse (j @ t) = Some resp"
proof -
  let ?kvs = "[(''deviceId'', JStr (resp_DeviceID resp)), (''token'', JStr (resp_Token resp))]"
  have "j = print_members (map (apsnd json_print) ?kvs)"
    using assms by (simp add: RegisterResponse_text_def object_text_def string_text_def del: json_print.simps)
  with stream_members [of ?kvs t] have "struct_members_prefix (j @ t) = Some (map (apsnd json_print) ?kvs)" by simp
  then show ?thesis by (simp add: decode_RegisterResponse_def del: json_print.simps)
qed

text \<open>What the server does with a registration request, before its handler's reply passes the middleware.\<close>

definition register_reply :: "call \<Rightarrow> Request \<Rightarrow> server \<Rightarrow> reply \<times> server" where
  "register_reply e r s =
     (let (ok, l) = allow (sv_publicLimiter s) (clock e 0) (clientIP r); s' = s \<lparr> sv_publicLimiter := l \<rparr>
      in if ok then handleRegister (later e) r s'
         else (reply (SetHeader ''Retry-After'' ''1'' # writeError 429 ''rate limit exceeded''), s'))"

lemma serve_register:
  assumes "rq_Method r = ''POST''" and "rq_Segments r = [''api'', ''v1'', ''devices'', ''register'']"
    and "length (rq_Body r) \<le> maxRequestBytes" and "register_reply e r s = (rp, s1)" and "rp_panic rp = None"
    and "serve t e x r s = (rp', s')"
  shows "rp_actions rp' = rp_actions rp \<and> sv_store s' = sv_store s1"
proof -
  have mux: "mux e x r s = with_pattern ''POST /api/v1/devices/register'' (rp, s1)"
    using assms(1,2,4)
    by (cases "allow (sv_publicLimiter s) (clock e 0) (clientIP r)")
      (auto simp: mux_def takes_def public_limit_def rateLimit_def register_reply_def Let_def split: if_splits)
  have "r \<lparr> rq_Body := take maxRequestBytes (rq_Body r) \<rparr> = r" using assms(3) by simp
  then have "mux e x (r \<lparr> rq_Body := take maxRequestBytes (rq_Body r) \<rparr>) s = (rp \<lparr> rp_pattern := ''POST /api/v1/devices/register'' \<rparr>, s1)"
    using mux by (simp add: with_pattern_def)
  from wrapMiddleware_eq [of "mux e x" r s, OF this, of t] assms(5,6) show ?thesis
    by (auto simp: serve_def Let_def put_log_def upd_metrics_def)
qed

text \<open>Why a registration was refused, and what the refusal leaves in the store.\<close>

definition register_refused :: "call \<Rightarrow> RegisterRequest \<Rightarrow> bool \<Rightarrow> server \<Rightarrow> server \<Rightarrow> int \<Rightarrow> string \<Rightarrow> bool" where
  "register_refused e req0 allowed s s' code msg \<longleftrightarrow>
     (let v = store_view (sv_store s); v' = store_view (sv_store s')
      in code = 429 \<and> \<not> allowed \<and> msg = ''rate limit exceeded'' \<and> v' = v \<or>
         code = 422 \<and> allowed \<and> validateRegisterRequest req0 = Err (ErrText msg) \<and> v' = v \<or>
         code = 500 \<and> allowed \<and> (\<exists>req. validateRegisterRequest req0 = Ok req \<and> (v' = v \<or> v' = registered_view (later e) req s)))"

lemma later_simps [simp]: "jwt (later e) = jwt e" "stdeps (later e) = stdeps e" "uuid (later e) = uuid e" "clock (later e) n = clock e (Suc n)"
  by (simp_all add: later_def)

lemma validate_Err_text: "validateRegisterRequest req = Err err \<Longrightarrow> \<exists>m. err = ErrText m \<and> error_text err = m"
  by (auto simp: validateRegisterRequest_def Let_def split: if_splits)

lemma limiter_irrelevant [simp]:
  "registered_as e (s \<lparr> sv_publicLimiter := l \<rparr>) = registered_as e s" "registered_view e req (s \<lparr> sv_publicLimiter := l \<rparr>) = registered_view e req s"
  by (auto simp: registered_as_def registered_view_def fun_eq_iff)

lemma register_replied:
  assumes "jwt_ok (jwt e)" and "store_inv (stdeps e) (sv_store s)" and "store_clock_ok (stdeps e) (sv_store s) (clock e 1)"
    and "uuid e \<noteq> []" and body: "rq_Body r = json_print (register_json req0)" and run: "register_reply e r s = (rp, s1)"
  shows "rp_panic rp = None \<and>
    ((\<exists>req tok. rp_actions rp = writeJSON 201 (RegisterResponse_text \<lparr> resp_DeviceID = uuid e, resp_Token = tok \<rparr>) \<and>
        validateRegisterRequest req0 = Ok req \<and> registered_as (later e) s req tok s1) \<or>
     (\<exists>code msg. sent_status (rp_actions rp) = code \<and> code \<noteq> 201 \<and> sent_body (rp_actions rp) = sent_body (writeError code msg) \<and>
        register_refused e req0 (fst (allow (sv_publicLimiter s) (clock e 0) (clientIP r))) s s1 code msg))"
proof -
  obtain ok l where al: "allow (sv_publicLimiter s) (clock e 0) (clientIP r) = (ok, l)" by (metis surj_pair)
  let ?s = "s \<lparr> sv_publicLimiter := l \<rparr>"
  have dec: "decode_register (rq_Body r) = Some req0" unfolding body by (rule decode_register_json)
  show ?thesis
  proof (cases ok)
    case False
    with run al show ?thesis by (auto simp: register_reply_def register_refused_def Let_def)
  next
    case True
    with run al have h: "handleRegister (later e) r ?s = (rp, s1)" by (simp add: register_reply_def)
    show ?thesis
    proof (cases "validateRegisterRequest req0")
      case (Ok req)
      have "(\<exists>tok. rp = reply (writeJSON 201 (RegisterResponse_text \<lparr> resp_DeviceID = uuid e, resp_Token = tok \<rparr>)) \<and> registered_as (later e) s req tok s1) \<or>
        (\<exists>msg. rp = reply (writeError 500 msg) \<and> (store_view (sv_store s1) = store_view (sv_store s) \<or> store_view (sv_store s1) = registered_view (later e) req s))"
        using register_valid [OF _ _ _ _ h dec Ok] assms(1-4) by simp
      with Ok True al show ?thesis
        by (elim disjE exE conjE) (simp_all add: register_refused_def Let_def del: sent_json, blast+)
    next
      case (Err err)
      with validate_Err_text [OF Err] h dec True al show ?thesis
        by (auto simp: handleRegister_def refuse_def register_refused_def Let_def)
    qed simp
  qed
qed

lemma register_reply_succeeds:
  assumes "fst (allow (sv_publicLimiter s) (clock e 0) (clientIP r))" and "rq_Body r = json_print (register_json req0)"
    and "validateRegisterRequest req0 = Ok req"
    and "store_inv (stdeps e) (sv_store s)" and "store_quiet (sv_store s)"
    and "store_clock_ok (stdeps e) (sv_store s) (clock e 1)" and "uuid e \<noteq> []" and "st_devices (store_view (sv_store s)) (uuid e) = None"
    and "store_hash_ok (stdeps e) (sv_store s) (req_Secret req)"
    and "is_ok (IssueDeviceToken (jwt e) (sv_jwtMgr s) (clock e 2) (uuid e) (DeviceTokenExpiry (sv_cfg s)))"
  shows "sent_status (rp_actions (fst (register_reply e r s))) = 201"
proof -
  obtain l where al: "allow (sv_publicLimiter s) (clock e 0) (clientIP r) = (True, l)" using assms(1) by (metis prod.collapse)
  have "sent_status (rp_actions (fst (handleRegister (later e) r (s \<lparr> sv_publicLimiter := l \<rparr>)))) = 201"
    by (rule register_succeeds [where req = req and ?req0.0 = req0])
      (use assms decode_register_json [of req0] in \<open>simp_all add: numeral_2_eq_2\<close>)
  with al show ?thesis by (simp add: register_reply_def)
qed

lemma register_request_body [simp]: "hq_Body (register_request a) = json_print (register_json (cfg_request a))"
  by (simp add: register_request_def cfg_request_def)

text \<open>What the agent makes of the two kinds of answer.\<close>

lemma agent_reads_answer:
  assumes "serve t e x (arrives base addr (register_request a)) s = (rp, s')"
    and "register a (server_net base addr t e x) s = (r, s1)"
  shows "s1 = s' \<and>
    (rp_actions rp = writeJSON 201 (RegisterResponse_text resp) \<longrightarrow>
       (\<exists>d. r = Ok (d, resp_Token resp) \<and> dev_ID d = resp_DeviceID resp)) \<and>
    (sent_status (rp_actions rp) = code \<and> code \<noteq> 201 \<and> sent_body (rp_actions rp) = sent_body (writeError code msg) \<longrightarrow>
       r = Err (ErrText (''server returned '' @ Itoa code @ '': '' @ msg)))"
proof -
  obtain j where j: "RegisterResponse_text resp = Some j" by (simp add: RegisterResponse_text_def object_text_def)
  have run: "http_Do (server_net base addr t e x) (ag_http a) (register_request a) s =
      (Ok \<lparr> hs_StatusCode = sent_status (rp_actions rp), hs_Body = sent_body (rp_actions rp) \<rparr>, s')"
    "bad_url (server_net base addr t e x) u = None" for u
    using assms(1) by (simp_all add: server_net_def)
  note reg = assms(2) [unfolded register_def Let_def run, simplified]
  have "s1 = s'" using reg by (auto split: if_splits option.splits)
  moreover have "\<exists>d. r = Ok (d, resp_Token resp) \<and> dev_ID d = resp_DeviceID resp"
    if "rp_actions rp = writeJSON 201 (RegisterResponse_text resp)"
    using reg that j decode_register_body [OF j] by auto
  moreover have "r = Err (ErrText (''server returned '' @ Itoa code @ '': '' @ msg))"
    if "sent_status (rp_actions rp) = code" "code \<noteq> 201" "sent_body (rp_actions rp) = sent_body (writeError code msg)"
    using reg that decode_error_body by auto
  ultimately show ?thesis by blast
qed

section \<open>Properties\<close>

text \<open>C6: Registration from end to end, through the agent, the transport, the middleware, the limiter, the handler and
  whichever store. If the agent reports success, it holds the id of a device that is now in the store
  under its trimmed name, and a token that the server accepts as this device's until it expires. If it
  reports an error, the error has the server's status and message: too many requests, a request that breaks a
  rule (with the rule), or a failure of the server; only in the last case may the device be in the
  store. On a store that works, a valid request below the limit succeeds.\<close>

theorem agent_registers:
  assumes "jwt_ok (jwt e)" and "store_inv (stdeps e) (sv_store s)" and "store_clock_ok (stdeps e) (sv_store s) (clock e 1)"
    and "uuid e \<noteq> []" and "length (hq_Body (register_request a)) \<le> maxRequestBytes"
    and "register a (server_net (ac_ServerURL (ag_cfg a)) addr t e x) s = (r, s')"
    and "allowed = fst (allow (sv_publicLimiter s) (clock e 0) (case SplitHostPort addr of Some host \<Rightarrow> host | None \<Rightarrow> addr))"
  shows "(case r of
      Ok (d, tok) \<Rightarrow> dev_ID d = uuid e \<and> (\<exists>req. validateRegisterRequest (cfg_request a) = Ok req \<and> registered_as (later e) s req tok s')
    | Err err \<Rightarrow> (\<exists>code msg. err = ErrText (''server returned '' @ Itoa code @ '': '' @ msg) \<and>
        register_refused e (cfg_request a) allowed s s' code msg)
    | Panic m \<Rightarrow> False) \<and>
    (\<forall>req. allowed \<and> validateRegisterRequest (cfg_request a) = Ok req \<and> store_quiet (sv_store s) \<and>
       store_hash_ok (stdeps e) (sv_store s) (req_Secret req) \<and> st_devices (store_view (sv_store s)) (uuid e) = None \<and>
       is_ok (IssueDeviceToken (jwt e) (sv_jwtMgr s) (clock e 2) (uuid e) (DeviceTokenExpiry (sv_cfg s))) \<longrightarrow> is_ok r)"
proof -
  let ?r = "arrives (ac_ServerURL (ag_cfg a)) addr (register_request a)"
  obtain rp s1 where rp: "register_reply e ?r s = (rp, s1)" by (metis surj_pair)
  obtain rp' s'' where sv: "serve t e x ?r s = (rp', s'')" by (metis surj_pair)
  have body: "rq_Body ?r = json_print (register_json (cfg_request a))" and post: "rq_Method ?r = ''POST''"
    "rq_Segments ?r = [''api'', ''v1'', ''devices'', ''register'']" "length (rq_Body ?r) \<le> maxRequestBytes"
    and ip: "fst (allow (sv_publicLimiter s) (clock e 0) (clientIP ?r)) = allowed"
    using assms(5,7) by (simp_all add: arrives_register clientIP_def del: json_print.simps split: option.split)
  note out = register_replied [OF assms(1-4) body rp, unfolded ip]
  have same: "rp_actions rp' = rp_actions rp" "sv_store s'' = sv_store s1"
    using serve_register [OF post rp conjunct1 [OF out] sv] by simp_all
  note reads = agent_reads_answer [OF sv assms(6)]
  from out show ?thesis
  proof (elim conjE disjE exE)
    fix req tok
    assume a: "rp_actions rp = writeJSON 201 (RegisterResponse_text \<lparr> resp_DeviceID = uuid e, resp_Token = tok \<rparr>)"
      "validateRegisterRequest (cfg_request a) = Ok req" "registered_as (later e) s req tok s1"
    then obtain d where "s' = s''" "r = Ok (d, tok)" "dev_ID d = uuid e"
      using reads [of "\<lparr> resp_DeviceID = uuid e, resp_Token = tok \<rparr>" 0 "[]"] same by auto
    with a same show ?thesis by (auto simp: registered_as_def is_ok_iff)
  next
    fix code msg
    assume a: "sent_status (rp_actions rp) = code" "code \<noteq> 201" "sent_body (rp_actions rp) = sent_body (writeError code msg)"
      and why: "register_refused e (cfg_request a) allowed s s1 code msg"
    then have r: "r = Err (ErrText (''server returned '' @ Itoa code @ '': '' @ msg))" "s' = s''"
      using reads [of _ code msg] same by auto
    moreover have "register_refused e (cfg_request a) allowed s s' code msg" using why same r(2) by (simp add: register_refused_def)
    moreover have "sent_status (rp_actions rp) \<noteq> 201" using a by simp
    ultimately show ?thesis
      using register_reply_succeeds [OF _ body _ assms(2), unfolded ip rp, simplified] assms(3,4) by auto
  qed
qed

definition new_agent :: Agent where
  "new_agent = demo_agent \<lparr> ag_cfg := ag_cfg demo_agent \<lparr> ac_Name := '' laptop '', ac_Secret := ''0123456789abcdef'' \<rparr> \<rparr>"

theorem agent_registers_witness:
  "\<exists>d tok s'. register new_agent (server_net ''http://s'' ''203.0.113.7:4711'' (\<lambda>_. demo_now) demo_call demo_around) demo_server = (Ok (d, tok), s') \<and>
     dev_ID d = ''u'' \<and> st_devices (store_view (sv_store s')) ''u'' \<noteq> None"
proof -
  let ?net = "server_net ''http://s'' ''203.0.113.7:4711'' (\<lambda>_. demo_now) demo_call demo_around"
  obtain r s' where run: "register new_agent ?net demo_server = (r, s')" by (metis surj_pair)
  have url: "ac_ServerURL (ag_cfg new_agent) = ''http://s''" by (simp add: new_agent_def demo_agent_def)
  have "length (json_print (register_json (cfg_request new_agent))) = 75" by code_simp
  then have len: "length (hq_Body (register_request new_agent)) \<le> maxRequestBytes" by (simp add: maxRequestBytes_def)
  have al: "fst (allow (sv_publicLimiter demo_server) demo_now (case SplitHostPort ''203.0.113.7:4711'' of Some host \<Rightarrow> host | None \<Rightarrow> ''203.0.113.7:4711''))"
    by code_simp
  have val: "validateRegisterRequest (cfg_request new_agent) = Ok (cfg_request new_agent \<lparr> req_Name := ''laptop'' \<rparr>)" by code_simp
  have store: "st_devices (store_view (SQLiteStore demo_sqlite)) ''u'' = None" "store_hash_ok demo_deps (SQLiteStore demo_sqlite) (req_Secret (cfg_request new_agent))"
    "is_ok (IssueDeviceToken demo_jwt demo_manager demo_now ''u'' ex)" for ex
    subgoal by code_simp
    subgoal by code_simp
    subgoal by (simp add: IssueDeviceToken_def)
    done
  from agent_registers [of demo_call demo_server new_agent "''203.0.113.7:4711''" "\<lambda>_. demo_now" demo_around r s' True, unfolded url, OF _ _ _ _ len run]
  have "is_ok r \<and> (\<forall>d tok. r = Ok (d, tok) \<longrightarrow> dev_ID d = ''u'' \<and> (\<exists>req. registered_as (later demo_call) demo_server req tok s'))"
    using al val store demo_jwt_ok demo_store demo_now_ok by (auto split: res.splits)
  with run show ?thesis by (auto simp: is_ok_iff registered_as_def registered_view_def add_device_def new_device_def)
qed

section \<open>Heartbeats\<close>

lemma heartbeat_frame:
  assumes "sendHeartbeat GOOS g None = (Ok (), fs)"
  obtains d msg where "heartbeatData GOOS g = Ok d" "fs = [msg]"
    "unmarshal_envelope msg = Some \<lparr> env_Type = TypeHeartbeat, env_RequestID = [], env_Data = json_print (heartbeat_json d) \<rparr>"
    "unmarshal_heartbeat (json_print (heartbeat_json d)) = Some d"
proof (cases "heartbeatData GOOS g")
  case (Ok d)
  note ok = heartbeatData_ok [OF Ok]
  obtain msg where "Encode TypeHeartbeat [] (Ok (heartbeat_json d)) = Ok msg" by (simp add: Encode_def)
  with that [of d msg] Ok assms unmarshal_Encode [OF heartbeat_json_wf [OF ok]] unmarshal_heartbeat_json [OF ok] show ?thesis
    by (simp add: sendHeartbeat_def)
qed (use assms in \<open>simp_all add: sendHeartbeat_def\<close>)

lemma allowMessage_True:
  assumes "fst (allowMessage e d s)"
  obtains l where "allowMessage e d s = (True, s \<lparr> sv_wsLimiter := l \<rparr>)"
  using assms by (auto simp: allowMessage_def Let_def split: prod.splits if_splits)

text \<open>C8: A heartbeat from the device's sensors to the store: what the agent samples and sends over a connection
  that the server has for the device is added to the store, once, with exactly the sampled values, under the
  device's id and with the server's time; the device is marked online and seen at that time.
  Nothing else in the store changes and no frame is sent back.\<close>

theorem heartbeat_arrives:
  assumes "store_inv (stdeps e) (sv_store s)" and "store_quiet (sv_store s)" and "\<forall>n. store_clock_ok (stdeps e) (sv_store s) (clock e n)"
    and "st_devices (store_view (sv_store s)) (DeviceID c) \<noteq> None" and "fst (allowMessage e (DeviceID c) s)"
    and "sendHeartbeat GOOS g None = (Ok (), fs)"
  shows "\<exists>d n s'. heartbeatData GOOS g = Ok d \<and> Run_loop c (map (Pair e) fs) s = (None, s') \<and>
    n \<notin> hb_ID ` set (st_heartbeats (store_view (sv_store s))) \<and>
    store_view (sv_store s') = change_device (DeviceID c) (seen_at (store_round (stdeps e) (sv_store s) (clock e 2)))
      (add_heartbeat (received_heartbeat n (DeviceID c) (store_round (stdeps e) (sv_store s) (clock e 1)) d) (store_view (sv_store s))) \<and>
    HeartbeatsTotal (sv_metrics s') = Suc (HeartbeatsTotal (sv_metrics s)) \<and> sv_frames s' = sv_frames s"
proof -
  obtain d msg where d: "heartbeatData GOOS g = Ok d" "fs = [msg]"
    "unmarshal_envelope msg = Some \<lparr> env_Type = TypeHeartbeat, env_RequestID = [], env_Data = json_print (heartbeat_json d) \<rparr>"
    "unmarshal_heartbeat (json_print (heartbeat_json d)) = Some d"
    by (rule heartbeat_frame [OF assms(6)])
  let ?m = "\<lparr> env_Type = TypeHeartbeat, env_RequestID = [], env_Data = json_print (heartbeat_json d) \<rparr>"
  obtain l where l: "allowMessage e (DeviceID c) s = (True, s \<lparr> sv_wsLimiter := l \<rparr>)"
    using allowMessage_True [OF assms(5)] by blast
  have "\<exists>n s'. handleWSMessage e c ?m (s \<lparr> sv_wsLimiter := l \<rparr>) = (Ok (), s') \<and> n \<notin> hb_ID ` set (st_heartbeats (store_view (sv_store s))) \<and>
    store_view (sv_store s') = change_device (DeviceID c) (seen_at (store_round (stdeps e) (sv_store s) (clock e 2)))
      (add_heartbeat (received_heartbeat n (DeviceID c) (store_round (stdeps e) (sv_store s) (clock e 1)) d) (store_view (sv_store s))) \<and>
    HeartbeatsTotal (sv_metrics s') = Suc (HeartbeatsTotal (sv_metrics s)) \<and> sv_frames s' = sv_frames s"
    using heartbeat_stored [of e "s \<lparr> sv_wsLimiter := l \<rparr>" c ?m d] assms(1-4) d(4) by (simp del: json_print.simps)
  then obtain n s' where h: "handleWSMessage e c ?m (s \<lparr> sv_wsLimiter := l \<rparr>) = (Ok (), s')"
    "n \<notin> hb_ID ` set (st_heartbeats (store_view (sv_store s)))"
    "store_view (sv_store s') = change_device (DeviceID c) (seen_at (store_round (stdeps e) (sv_store s) (clock e 2)))
      (add_heartbeat (received_heartbeat n (DeviceID c) (store_round (stdeps e) (sv_store s) (clock e 1)) d) (store_view (sv_store s)))"
    "HeartbeatsTotal (sv_metrics s') = Suc (HeartbeatsTotal (sv_metrics s))" "sv_frames s' = sv_frames s"
    by blast
  from Run_allowed [OF d(3) l h(1)] have "Run_loop c (map (Pair e) fs) s = (None, s')" by (simp add: d(2))
  with d(1) h(2-) show ?thesis by blast
qed

lemma fst_allowMessage: "fst (allowMessage e d s) = fst (allow (sv_wsLimiter s) (clock e 0) d)"
  by (simp add: allowMessage_def Let_def split: prod.split)

lemma demo_allows: "fst (allow (sv_wsLimiter demo_server) demo_now ''a'')"
proof -
  have "fst (allow (newRateLimiter demo_now 5 20) demo_now ''a'')" by code_simp
  then show ?thesis by (simp add: demo_server_def New_def)
qed

theorem heartbeat_arrives_witness:
  "\<exists>fs s' n. sendHeartbeat ''linux'' demo_host None = (Ok (), fs) \<and> Run_loop (client 1 ''a'') (map (Pair demo_call) fs) demo_connected = (None, s') \<and>
     received_heartbeat n ''a'' (trunc_secs demo_now) demo_sample \<in> set (st_heartbeats (store_view (sv_store s')))"
proof -
  obtain fs where fs: "sendHeartbeat ''linux'' demo_host None = (Ok (), fs)" by (simp add: sendHeartbeat_def demo_heartbeat Encode_def)
  have "st_devices (store_view (SQLiteStore demo_sqlite)) ''a'' \<noteq> None" by code_simp
  moreover have "fst (allowMessage demo_call ''a'' demo_connected)" using demo_allows by (simp add: fst_allowMessage)
  ultimately have "\<exists>d n s'. heartbeatData ''linux'' demo_host = Ok d \<and> Run_loop (client 1 ''a'') (map (Pair demo_call) fs) demo_connected = (None, s') \<and>
      received_heartbeat n ''a'' (trunc_secs demo_now) d \<in> set (st_heartbeats (store_view (sv_store s')))"
    using heartbeat_arrives [of demo_call demo_connected "client 1 ''a''" "''linux''" demo_host fs] fs demo_store demo_now_ok
    by (fastforce simp: demo_connected_def change_device_def add_heartbeat_def)
  with fs demo_heartbeat show ?thesis by auto
qed

section \<open>Diagnostics\<close>

lemma diagnostic_frame:
  assumes "asks_for q sc msg" and "slice_sorter srt" and "host_ok g"
  obtains m ans where "unmarshal_envelope msg = Some m" "handleMessage m = [m]" "handleDiagRequest srt g m None = [ans]"
    "unmarshal_envelope ans = Some \<lparr> env_Type = TypeDiagResponse, env_RequestID = q, env_Data = json_print (diagnosticPayload srt g sc) \<rparr>"
proof -
  obtain m where m: "unmarshal_envelope msg = Some m" "env_Type m = TypeDiagRequest" "env_RequestID m = q"
    "unmarshal_diag_request (env_Data m) = Some \<lparr> Scope = sc \<rparr>"
    using assms(1) by (auto simp: asks_for_def)
  obtain ans where ans: "Encode TypeDiagResponse q (Ok (diagnosticPayload srt g sc)) = Ok ans" by (simp add: Encode_def)
  show thesis
    by (rule that [OF m(1) _ _ unmarshal_Encode [OF diagnosticPayload_wf [OF assms(2,3)] ans]])
      (use m ans in \<open>simp_all add: handleMessage_def handleDiagRequest_def\<close>)
qed

lemma answer_added:
  "diag_RequestID x = q \<Longrightarrow> change_diagnostic q (answered t p) (add_diagnostic x a) = add_diagnostic (answered t p x) a"
  by (simp add: change_diagnostic_def add_diagnostic_def answered_def)

text \<open>C7: A diagnostic request from the operator to the device and back: once the server has answered 202, the
  frame it sent is decoded by the agent, starts one goroutine, and makes it write one answer; when
  the server takes that answer from the connection, the stored request, and nothing else, becomes
  completed: it has the payload the device computed for the requested scope, byte for byte, and the time
  of its arrival.\<close>

theorem diagnostic_round_trip:
  assumes "store_inv (stdeps e) (sv_store s)" and "store_quiet (sv_store s)" and "store_clock_ok (stdeps e) (sv_store s) (clock e 0)"
    and "uuid e \<noteq> []" and "\<forall>c msg m. conn_write e c msg \<noteq> Panic m"
    and "handleRequestDiagnostics e i r s = (rp, s1)" and "sent_status (rp_actions rp) = 202"
    and "slice_sorter srt" and "host_ok g"
    and "stdeps e2 = stdeps e" and "store_clock_ok (stdeps e) (sv_store s) (clock e2 1)"
    and "\<forall>c. map_of (clients (sv_hub s)) i = Some c \<longrightarrow> fst (allowMessage e2 (DeviceID c) s1)"
  shows "\<exists>c frame m ans sc n s2. map_of (clients (sv_hub s)) i = Some c \<and> sv_frames s1 = sv_frames s @ [(c, frame)] \<and> valid_scope sc \<and>
    unmarshal_envelope frame = Some m \<and> handleMessage m = [m] \<and> handleDiagRequest srt g m None = [ans] \<and>
    Run_loop c [(e2, ans)] s1 = (None, s2) \<and>
    store_view (sv_store s2) =
      add_diagnostic ((new_diagnostic n (store_round (stdeps e) (sv_store s) (clock e 0)) i (uuid e) sc)
        \<lparr> diag_ReceivedAt := Some (store_round (stdeps e) (sv_store s) (clock e2 1)),
          diag_Payload := Some (json_print (diagnosticPayload srt g sc)) \<rparr>) (store_view (sv_store s))"
proof -
  obtain sc c gg st1 msg where acc: "map_of (clients (sv_hub s)) i = Some c" "valid_scope sc" "asks_for (uuid e) sc msg"
    and out: "Store_CreateDiagnosticRequest (stdeps e) (clock e 0) i (uuid e) sc (sv_store s) = (Ok gg, st1)"
    and s1: "s1 = s \<lparr> sv_store := st1, sv_frames := sv_frames s @ [(c, msg)] \<rparr>"
    by (rule request_accepted [OF assms(6,7,5,1,3)])
  obtain n where view: "store_view st1 =
      add_diagnostic (new_diagnostic n (store_round (stdeps e) (sv_store s) (clock e 0)) i (uuid e) sc) (store_view (sv_store s))"
    using st.eff_create_diag [OF assms(1,3), of i "uuid e" sc] out by (auto simp: all_or_nothing_def)
  have st1: "st1 = snd (Store_CreateDiagnosticRequest (stdeps e) (clock e 0) i (uuid e) sc (sv_store s))" using out by simp
  have inv: "store_inv (stdeps e) st1" "store_quiet st1" "store_clock_ok (stdeps e) st1 (clock e2 1)" "store_round (stdeps e) st1 = store_round (stdeps e) (sv_store s)"
    using st.inv_create_diag [OF assms(1,3)] quiet_ops(5) [OF assms(2)] assms(11) unfolding st1 by simp_all
  obtain m ans where m: "unmarshal_envelope msg = Some m" "handleMessage m = [m]" "handleDiagRequest srt g m None = [ans]"
    and ans: "unmarshal_envelope ans = Some \<lparr> env_Type = TypeDiagResponse, env_RequestID = uuid e, env_Data = json_print (diagnosticPayload srt g sc) \<rparr>"
    by (rule diagnostic_frame [OF acc(3) assms(8,9)])
  have ne: "json_print (diagnosticPayload srt g sc) \<noteq> []" by (rule json_print_nonempty [OF diagnosticPayload_wf [OF assms(8,9)]])
  obtain l where l: "allowMessage e2 (DeviceID c) s1 = (True, s1 \<lparr> sv_wsLimiter := l \<rparr>)"
    using allowMessage_True [OF assms(12) [rule_format, OF acc(1)]] by blast
  let ?m = "\<lparr> env_Type = TypeDiagResponse, env_RequestID = uuid e, env_Data = json_print (diagnosticPayload srt g sc) \<rparr>"
  have id: "diag_RequestID (new_diagnostic n t i (uuid e) sc) = uuid e" for t by (simp add: new_diagnostic_def)
  have "\<exists>s2. handleWSMessage e2 c ?m (s1 \<lparr> sv_wsLimiter := l \<rparr>) = (Ok (), s2) \<and>
      store_view (sv_store s2) = change_diagnostic (uuid e) (answered (store_round (stdeps e) (sv_store s) (clock e2 1)) (json_print (diagnosticPayload srt g sc))) (store_view st1)"
    using response_stored [of e2 "s1 \<lparr> sv_wsLimiter := l \<rparr>" ?m "new_diagnostic n (store_round (stdeps e) (sv_store s) (clock e 0)) i (uuid e) sc" c]
      inv assms(4,10) view id by (auto simp: s1 add_diagnostic_def simp del: json_print.simps)
  then obtain s2 where s2: "handleWSMessage e2 c ?m (s1 \<lparr> sv_wsLimiter := l \<rparr>) = (Ok (), s2)"
    "store_view (sv_store s2) = change_diagnostic (uuid e) (answered (store_round (stdeps e) (sv_store s) (clock e2 1)) (json_print (diagnosticPayload srt g sc))) (store_view st1)"
    by blast
  from Run_allowed [OF ans l s2(1)] have run: "Run_loop c [(e2, ans)] s1 = (None, s2)" .
  have "sv_frames s1 = sv_frames s @ [(c, msg)]" by (simp add: s1)
  with acc m run s2(2) ne show ?thesis unfolding view answer_added [OF id] answered_def by (simp del: json_print.simps, blast)
qed

theorem diagnostic_round_trip_witness:
  "\<exists>rp s1 m ans s2 g. handleRequestDiagnostics demo_call ''a'' demo_ask demo_connected = (rp, s1) \<and>
     handleDiagRequest (sort_key (\<lambda>s. - cpuPct s)) demo_host m None = [ans] \<and>
     Run_loop (client 1 ''a'') [(demo_call, ans)] s1 = (None, s2) \<and>
     st_diagnostics (store_view (sv_store s2)) ''u'' = Some g \<and> diag_Payload g \<noteq> None"
proof -
  obtain rp s1 where run: "handleRequestDiagnostics demo_call ''a'' demo_ask demo_connected = (rp, s1)" by (metis surj_pair)
  have al: "\<forall>c. map_of (clients (sv_hub demo_connected)) ''a'' = Some c \<longrightarrow> fst (allowMessage demo_call (DeviceID c) s1)"
    using demo_asked [OF run] demo_allows by (simp add: fst_allowMessage)
  have "store_inv (stdeps demo_call) (sv_store demo_connected)" "store_quiet (sv_store demo_connected)"
    "store_clock_ok (stdeps demo_call) (sv_store demo_connected) (clock demo_call n)" "uuid demo_call \<noteq> []"
    "\<forall>c msg m. conn_write demo_call c msg \<noteq> Panic m" "sent_status (rp_actions rp) = 202" for n
    using demo_asked [OF run] demo_store demo_now_ok by simp_all
  from diagnostic_round_trip [OF this(1-5) run this(6) sort_key_sorter demo_host_ok refl this(3) al]
  obtain c m ans sc n s2 where trip: "map_of (clients (sv_hub demo_connected)) ''a'' = Some c"
    "handleDiagRequest (sort_key (\<lambda>s. - cpuPct s)) demo_host m None = [ans]" "Run_loop c [(demo_call, ans)] s1 = (None, s2)"
    "store_view (sv_store s2) =
       add_diagnostic ((new_diagnostic n (store_round (stdeps demo_call) (sv_store demo_connected) (clock demo_call 0)) ''a'' (uuid demo_call) sc)
        \<lparr> diag_ReceivedAt := Some (store_round (stdeps demo_call) (sv_store demo_connected) (clock demo_call 1)),
          diag_Payload := Some (json_print (diagnosticPayload (sort_key (\<lambda>s. - cpuPct s)) demo_host sc)) \<rparr>) (store_view (sv_store demo_connected))"
    by (elim exE conjE) (rule that)
  from trip(1) have c: "c = client 1 ''a''" by simp
  have "\<exists>g. st_diagnostics (store_view (sv_store s2)) ''u'' = Some g \<and> diag_Payload g \<noteq> None"
    unfolding trip(4) by (simp add: add_diagnostic_def new_diagnostic_def)
  with run trip(2) trip(3) [unfolded c] show ?thesis by blast
qed

section \<open>Dialling\<close>

text \<open>The agent's handshake as the server sees it.\<close>

definition dial_request :: "string \<Rightarrow> string \<Rightarrow> Request" where
  "dial_request addr token =
     \<lparr> rq_Method = ''GET'', rq_Segments = [''api'', ''v1'', ''ws''],
       rq_Header = (\<lambda>k. if k = ''Authorization'' then [''Bearer '' @ token] else []), rq_Query = (\<lambda>_. []),
       rq_RemoteAddr = addr, rq_Body = [] \<rparr>"

text \<open>What the server does on a connection that it has accepted.\<close>

definition serve_connection :: "Client \<Rightarrow> (call \<times> string) list \<Rightarrow> server \<Rightarrow> string option \<times> server" where
  "serve_connection c msgs s =
     (let s1 = publish (event ''device.connected'' [(''id'', JStr (DeviceID c))])
                (snd (on_db (Store_SetDeviceStatus (DeviceID c) StatusOnline) (NewClient c s)));
          (panicked, s2) = Run_loop c msgs s1; (_, s3) = Run_deferred c s2
      in (panicked, if panicked = None then publish (event ''device.disconnected'' [(''id'', JStr (DeviceID c))]) s3 else s3))"

lemma dial_token:
  assumes "TrimSpace tok = tok"
  shows "wsToken (dial_request addr tok) = tok"
proof -
  have "header_Get (dial_request addr tok) ''Authorization'' = ''Bearer '' @ tok" by (simp add: header_Get_def dial_request_def)
  moreover have "HasPrefix (''Bearer '' @ tok) ''Bearer ''" "TrimPrefix (''Bearer '' @ tok) ''Bearer '' = tok"
    by (rule HasPrefix_append, rule TrimPrefix_append)
  ultimately show ?thesis using assms by (simp only: wsToken_def Let_def if_True)
qed

lemma upgraded:
  assumes "wsToken r \<noteq> []" and "Validate (jwt e) (sv_jwtMgr s) (clock e 0) (wsToken r) = Ok claims" and "cl_Role claims = RoleDevice"
    and "acc r = Inr a"
  shows "\<exists>rp. handleWebSocket e acc msgs r s =
      (rp, snd (serve_connection \<lparr> client_addr = a, DeviceID = cl_Subject claims, heartbeatTimeout = HeartbeatTimeout (sv_cfg s) \<rparr> msgs s))"
  using assms by (auto simp: handleWebSocket_def serve_connection_def Let_def split: prod.splits option.splits)


lemma trim_left_id: "find (HasPrefix s) rs = None \<Longrightarrow> trim_left rs s = s"
  by (cases "length s") (simp_all add: trim_left_def)

lemma TrimSpace_brackets: "TrimSpace (''['' @ x @ '']'') = ''['' @ x @ '']''"
  by (simp add: TrimSpace_def trim_left_id find_None_iff space_runes_def HasPrefix_iff)


section \<open>Corner cases\<close>

text \<open>
  A body is optional for \<^verbatim>\<open>POST /api/v1/devices/{id}/diagnose\<close> in the API document, and the handler has a default for the
  scope, but a request without a body is refused.
\<close>

lemma empty_body_refused:
  assumes "IsConnected i (sv_hub s)" and "rq_Body r = []"
  shows "sent_status (rp_actions (fst (handleRequestDiagnostics e i r s))) = 400"
proof -
  have "decode_scope [] = None" by code_simp
  with assms show ?thesis by (simp add: handleRequestDiagnostics_def refuse_def)
qed

text \<open>An empty list of results is sent as null, where the API document has an array.\<close>

lemma empty_list_is_null:
  assumes "Store_ListDiagnosticResults (stdeps e) i 50 (sv_store s) = (Ok [], st)"
  shows "sent_body (rp_actions (fst (handleListDiagnostics e i r s))) = ''null'' @ [CHR 0x0A]"
  using assms by (simp add: handleListDiagnostics_def on_db_eq respond_def slice_text_def)

text \<open>A secret that bcrypt refuses, as it does for more than 72 bytes, passes validation and ends as a server error.\<close>

lemma refused_hash_is_500:
  assumes "decode_register (rq_Body r) = Some req0" and "validateRegisterRequest req0 = Ok req"
    and "\<not> store_hash_ok (stdeps e) (sv_store s) (req_Secret req)"
  shows "sent_status (rp_actions (fst (handleRegister e r s))) = 500"
proof -
  obtain err where "fst (Store_CreateDevice (stdeps e) (uuid e) (clock e 0) req (sv_store s)) = Err err"
    using assms(3) by (cases "sv_store s") (auto simp: store_op_defs SQLite_CreateDevice_def Postgres_CreateDevice_def isl_def split: sum.splits prod.splits)
  with assms(1,2) show ?thesis by (simp add: handleRegister_def on_db_eq refuse_def)
qed

text \<open>The configuration takes any positive expiry; a token that lasts less than a second can be expired when it is issued.\<close>

lemma subsecond_token_expired:
  assumes "jwt_ok lib" and "issue lib m now sub r ex = Ok tok" and "0 < ex" and "now mod second + ex < second" and "now \<le> t"
  shows "Validate lib m t tok \<noteq> Ok c"
proof -
  have "(now + ex) div second = now div second"
  proof -
    have "now + ex = second * (now div second) + (now mod second + ex)" by simp
    moreover have "0 \<le> now mod second + ex" using assms(3) by (simp add: second_def)
    ultimately show ?thesis using assms(4) by (metis add.commute div_mult_self2 div_pos_pos_trivial mult.commute add_0 less_le_trans not_le order_le_less_trans)
  qed
  then have "trunc_secs (now + ex) \<le> now" using trunc_secs_gap [of now] by (simp add: trunc_secs_def secs_def)
  with assms(5) show ?thesis using issued_claims [OF assms(1,2), of t c] by auto
qed

end
