(* ===== verification/Spec2Isabelle.thy ===== *)
theory Spec2Isabelle
  imports Rate_Limit Connections Server_Main Agent_Main System
begin

text \<open>
  Puls is a server that keeps an inventory of devices, and an agent that runs on them. The agent registers
  its machine once over HTTP, keeps the token it was given in a state file, and holds a WebSocket
  connection on which it sends heartbeats and answers diagnostic requests. The server stores devices,
  heartbeats and diagnostic results in SQLite or Postgres, serves an HTTP API to operators, and publishes
  events to subscribers. This development models both programs from their sources and proves what
  makes them correct.

  \<^bold>\<open>Conventions.\<close> A Go function that returns an error is a function into \<open>'a res\<close> of theory Puls_Prelude, whose
  values are \<open>Ok\<close>, \<open>Err\<close> and \<open>Panic\<close>; state is passed and returned; a struct is a record, a string is its bytes,
  a Go map is an association list with distinct keys. An instant or duration is a number of
  nanoseconds. What comes from outside (the clock, uuids, the outcome of a write, library results) is
  an argument. Goroutines that interleave are step relations; both are instances of the locale \<open>step_system\<close> of Puls_Prelude,
  which has the rule for invariants and the lemma by which a run comes to rest. Libraries that are not part of the sources are parameters: golang-jwt with its documented behaviour as \<open>jwt_ok\<close>
  (Auth), bcrypt, the scan order of a table, the collation and timestamp resolution of Postgres as \<open>store_deps\<close> (Store),
  gopsutil as the record \<open>gopsutil\<close> (Agent_Stats), coder/websocket as the outcomes of its calls.
  Databases, file systems and networks may fail at every call: the statement faults of Sql_Db, the disk faults of Agent_State.

  \<^bold>\<open>The language and its library.\<close> Go_Calendar and Go_Time: RFC 3339 texts, their round trip and order.
  Go_Json, Go_Struct, Go_Json_Prefix: the printer and parser of \<^verbatim>\<open>encoding/json\<close>, decoding into structs, and what a
  decoder reads from a longer text. Go_Number and Go_Float: integers, float32 and float64 in JSON.
  Go_Duration, Go_Base64: \<^verbatim>\<open>time.ParseDuration\<close>, \<^verbatim>\<open>Duration.String\<close> and URL-safe base64.

  \<^bold>\<open>Storage\<close> (\<^verbatim>\<open>internal/store\<close>, \<^verbatim>\<open>internal/model\<close>).
  \<^item> Model, Cursor, Store_Common: the data, the page cursor, what both stores share.
  \<^item> Sql_Db and Sql_View: the statements on the tables, and the abstract state they represent.
  \<^item> Store_Spec: the contract of the interface \<^verbatim>\<open>Store\<close>, a locale over an abstract state; every operation
    has its whole effect or none.
  \<^item> SQLite_Store, Postgres_Store, Store: the two stores, each an interpretation of the contract, and the
    interface value, which satisfies it again; migrations are atomic under every fault.
  \<^item> Store_Pages: a locale of page-wise listing; following cursors under concurrent changes finds each
    device that stays exactly once, and ends.

  \<^bold>\<open>Server\<close> (\<^verbatim>\<open>internal/server\<close>, \<^verbatim>\<open>internal/ws\<close>, \<^verbatim>\<open>internal/auth\<close>, \<^verbatim>\<open>internal/config\<close>, \<^verbatim>\<open>internal/observability\<close>, \<^verbatim>\<open>cmd/puls-server\<close>).
  \<^item> Config, Auth: loading and checking the configuration; issuing and validating tokens.
  \<^item> Rate_Limit: the keyed limiter as one token bucket per key (locale \<open>token_gate\<close>), with its bound per window.
  \<^item> Broadcaster, Hub, Messages, Responses: events, the registry of connections, the wire format, the JSON answers.
  \<^item> Connections: any number of connections as one step relation; registration, ownership, clean-up and
    the status in the store under every interleaving.
  \<^item> Http, Server, Server_Ws: the middleware, every handler and the routes, as functions from a request and a
    server state to what was written and the next state.
  \<^item> Server_Http, Server_Routes: what holds for every request (panics, labels, authentication) and what
    each answer of a route says about the store.
  \<^item> Server_Main: start-up, tracing, the end of a run and the health check.

  \<^bold>\<open>Agent\<close> (\<^verbatim>\<open>cmd/puls-agent\<close>). Agent_State: the state file under write faults. Agent_Stats: samples and diagnostic payloads.
  Agent: registration and the reconnect loop. Agent_Conn: one connection's goroutines as a step relation. Agent_Main: flags,
  environment and exit code.

  \<^bold>\<open>Both together.\<close> System joins the agent to the server through a transport that delivers what it is given, and
  proves registration, a heartbeat, a diagnostic request and the life of a token from end to end, over either store. It also
  holds corner cases in which the code differs from the API document or from its comments.

  \<^bold>\<open>Fuel.\<close> The JSON parser takes twice the length of its text and one as fuel; \<open>json_fuel_all\<close> shows that more makes no
  difference, and \<open>json_prefix_print\<close> that every printed value is read. The walk through pages takes one store state per
  call, and a property bounds the calls it needs. The reconnect loop takes a list of rounds, one per connection.
  All other loops are structural.

  \<^bold>\<open>Not modelled.\<close> JSON texts with invalid UTF-8, and floats that are infinite, NaN or negative zero. Time zones: every
  instant is UTC. The tracing wrapper of otelhttp and its spans, the timeouts of net/http, the text of the
  Prometheus page, the output of slog, the parsing of command-line flags by package flag, state-file paths
  with Windows separators. These are library code, or have no effect on the state that is modelled.
\<close>

end
